(* ===== verification/Prelude.thy ===== *)
theory Prelude
  imports Main "HOL-Library.Word"
begin

unbundle bit_operations_syntax

text \<open>
  Shared vocabulary of the development: byte and integer types, the outcome of a Go call,
  the state-and-outcome parsers used by every decoder, big-endian byte conversions, and the
  generic lemmas and fact collections the component theories rely on.
\<close>

named_theorems wire \<open>sizes and contents of encoded bytes\<close>
named_theorems parsing \<open>composition rules for parsers\<close>

section \<open>Types\<close>

type_synonym byte = "8 word"
type_synonym u16 = "16 word"
type_synonym u32 = "32 word"
type_synonym u64 = "64 word"

text \<open>A Go string is a sequence of bytes; \<open>[]byte(s)\<close> is the same sequence.\<close>

type_synonym gostring = "byte list"

section \<open>Errors and outcomes\<close>

text \<open>
  The error values of the packages, by the variable or the constructor function that makes
  them. \<open>Errorf msg e\<close> is \<open>fmt.Errorf\<close> with a \<open>%w\<close> verb for \<open>e\<close> (\<open>None\<close> when the wrapped
  variable is nil), \<open>New msg\<close> is \<open>errors.New\<close>.
\<close>

datatype go_error =
    EOF | UnexpectedEOF | ShortWrite | DeadlineExceeded | NetError nat
  | New string
  | Errorf string "go_error option"
  | DecodeError string | EncodeError string
  | ShortRead nat nat
  | BuilderError
  | ErrReadFailed | ErrInvalidFlag byte | ErrOptionalHeaderNil | ErrReceivedReservedOptionalHeader
  | ErrInvalidClientResp | ErrInvalidServerResp | ErrInvalidSeqNr | ErrConnectionNotReady
  | ErrInvalidHandshakeOption string
  | ErrNotExist | ErrClosed | ErrNoClientFile | ErrInvalidChecksum | ErrInsufficientRead | ErrInsufficientWrite
  | ErrNotABRFTFile | ErrExpectedClientConnection

text \<open>
  A call returns a value, returns an error, does not return with the input that is there
  (a receive on an empty open channel), or panics.
\<close>

datatype 'a outcome = Ok 'a | Err go_error | Block | Panic string

fun bindO :: "'a outcome \<Rightarrow> ('a \<Rightarrow> 'b outcome) \<Rightarrow> 'b outcome" where
  "bindO (Ok x) f = f x"
| "bindO (Err e) f = Err e"
| "bindO Block f = Block"
| "bindO (Panic p) f = Panic p"

fun mapErr :: "(go_error \<Rightarrow> go_error) \<Rightarrow> 'a outcome \<Rightarrow> 'a outcome" where
  "mapErr g (Ok x) = Ok x"
| "mapErr g (Err e) = Err (g e)"
| "mapErr g Block = Block"
| "mapErr g (Panic p) = Panic p"

fun is_err :: "'a outcome \<Rightarrow> bool" where
  "is_err (Err e) = True"
| "is_err _ = False"

lemma bindO_Ok_iff [simp]: "bindO x f = Ok y \<longleftrightarrow> (\<exists>a. x = Ok a \<and> f a = Ok y)"
  by (cases x) auto

lemma mapErr_Ok_iff [simp]: "mapErr g x = Ok y \<longleftrightarrow> x = Ok y"
  by (cases x) auto

section \<open>Parsers\<close>

text \<open>
  A decoder reads from some source of bytes in state \<open>'r\<close>: it returns an outcome and the
  source after the reads it made, whether or not it failed.
\<close>

type_synonym ('r, 'a) parser = "'r \<Rightarrow> 'a outcome \<times> 'r"

definition returnM :: "'a \<Rightarrow> ('r, 'a) parser" where
  "returnM x = (\<lambda>r. (Ok x, r))"

definition failM :: "go_error \<Rightarrow> ('r, 'a) parser" where
  "failM e = (\<lambda>r. (Err e, r))"

definition bindM :: "('r, 'a) parser \<Rightarrow> ('a \<Rightarrow> ('r, 'b) parser) \<Rightarrow> ('r, 'b) parser" where
  "bindM m f = (\<lambda>r. case m r of
      (Ok x, r') \<Rightarrow> f x r'
    | (Err e, r') \<Rightarrow> (Err e, r')
    | (Block, r') \<Rightarrow> (Block, r')
    | (Panic p, r') \<Rightarrow> (Panic p, r'))"

definition mapErrM :: "(go_error \<Rightarrow> go_error) \<Rightarrow> ('r, 'a) parser \<Rightarrow> ('r, 'a) parser" where
  "mapErrM g m = (\<lambda>r. case m r of (x, r') \<Rightarrow> (mapErr g x, r'))"

definition liftO :: "'a outcome \<Rightarrow> ('r, 'a) parser" where
  "liftO x = (\<lambda>r. (x, r))"

lemma liftO_Ok [simp]: "liftO (Ok x) = returnM x"
  by (simp add: liftO_def returnM_def)

text \<open>
  \<open>tryM\<close> is a call whose error is looked at by the caller, \<open>ignoreM\<close> one whose error is only
  logged; a panic is not caught. \<open>zoomM\<close> runs a step on a component of the state.
\<close>

definition tryM :: "('r, 'a) parser \<Rightarrow> ('r, 'a + go_error) parser" where
  "tryM m = (\<lambda>r. case m r of
      (Ok x, r') \<Rightarrow> (Ok (Inl x), r')
    | (Err e, r') \<Rightarrow> (Ok (Inr e), r')
    | (Block, r') \<Rightarrow> (Block, r')
    | (Panic p, r') \<Rightarrow> (Panic p, r'))"

definition ignoreM :: "('r, 'a) parser \<Rightarrow> ('r, unit) parser" where
  "ignoreM m = bindM (tryM m) (\<lambda>_. returnM ())"

definition panicM :: "string \<Rightarrow> ('r, 'a) parser" where
  "panicM p = (\<lambda>r. (Panic p, r))"

definition getM :: "('r \<Rightarrow> 'a) \<Rightarrow> ('r, 'a) parser" where
  "getM f = (\<lambda>r. (Ok (f r), r))"

definition modifyM :: "('r \<Rightarrow> 'r) \<Rightarrow> ('r, unit) parser" where
  "modifyM f = (\<lambda>r. (Ok (), f r))"

definition whenM :: "bool \<Rightarrow> ('r, unit) parser \<Rightarrow> ('r, unit) parser" where
  "whenM b m = (if b then m else returnM ())"

definition zoomM :: "('r \<Rightarrow> 's) \<Rightarrow> ('s \<Rightarrow> 'r \<Rightarrow> 'r) \<Rightarrow> ('s, 'a) parser \<Rightarrow> ('r, 'a) parser" where
  "zoomM get put m = (\<lambda>r. case m (get r) of (x, s) \<Rightarrow> (x, put s r))"

abbreviation thenM :: "('r, unit) parser \<Rightarrow> ('r, 'a) parser \<Rightarrow> ('r, 'a) parser" where
  "thenM m k \<equiv> bindM m (\<lambda>_. k)"

lemmas step_defs = bindM_def returnM_def failM_def panicM_def tryM_def ignoreM_def getM_def modifyM_def
  whenM_def zoomM_def mapErrM_def

text \<open>Laws of the composition.\<close>

lemma bindM_assoc [simp]: "bindM (bindM m f) g = bindM m (\<lambda>x. bindM (f x) g)"
  by (rule ext) (simp add: bindM_def split: prod.splits outcome.splits)

lemma bindM_return [simp]: "bindM (returnM x) k r = k x r"
  by (simp add: bindM_def returnM_def)

lemma bindM_stop [simp]: "bindM (panicM p) k = panicM p" "bindM (failM e) k = failM e"
  by (rule ext, simp add: bindM_def panicM_def failM_def)+

lemma mapErrM_return [simp]: "mapErrM g (returnM x) = returnM x"
  by (rule ext) (simp add: mapErrM_def returnM_def)

text \<open>
  \<open>guards P m Q E\<close>: from a state with \<open>P\<close>, the step \<open>m\<close> ends with \<open>Q\<close> of its value and the new
  state, or without a value in a state with \<open>E\<close>.
\<close>

definition guards :: "('r \<Rightarrow> bool) \<Rightarrow> ('r, 'a) parser \<Rightarrow> ('a \<Rightarrow> 'r \<Rightarrow> bool) \<Rightarrow> ('r \<Rightarrow> bool) \<Rightarrow> bool" where
  "guards P m Q E \<longleftrightarrow> (\<forall>r x r'. P r \<longrightarrow> m r = (x, r') \<longrightarrow> (case x of Ok v \<Rightarrow> Q v r' | _ \<Rightarrow> E r'))"

named_theorems guarding \<open>composition rules for steps\<close>

lemma guardsI:
  "(\<And>r x r'. P r \<Longrightarrow> m r = (x, r') \<Longrightarrow> (case x of Ok v \<Rightarrow> Q v r' | _ \<Rightarrow> E r')) \<Longrightarrow> guards P m Q E"
  by (simp add: guards_def)

lemma guardsD:
  "guards P m Q E \<Longrightarrow> P r \<Longrightarrow> m r = (x, r') \<Longrightarrow> (case x of Ok v \<Rightarrow> Q v r' | _ \<Rightarrow> E r')"
  by (simp add: guards_def)

lemma guards_bind [guarding]:
  assumes "guards P m R E" and "\<And>x. guards (R x) (f x) Q E"
  shows "guards P (bindM m f) Q E"
proof (rule guardsI)
  fix r x r' assume r: "P r" "bindM m f r = (x, r')"
  obtain y s where m: "m r = (y, s)" by fastforce
  from guardsD [OF assms(1) r(1) m] r(2) m show "case x of Ok v \<Rightarrow> Q v r' | _ \<Rightarrow> E r'"
    by (cases y) (auto simp: bindM_def dest: guardsD [OF assms(2)])
qed

lemma guards_return [guarding]: "(\<And>r. P r \<Longrightarrow> Q x r) \<Longrightarrow> guards P (returnM x) Q E"
  by (auto simp: guards_def returnM_def)

lemma guards_fail [guarding]: "(\<And>r. P r \<Longrightarrow> E r) \<Longrightarrow> guards P (failM e) Q E"
  by (auto simp: guards_def failM_def)

lemma guards_panic [guarding]: "(\<And>r. P r \<Longrightarrow> E r) \<Longrightarrow> guards P (panicM e) Q E"
  by (auto simp: guards_def panicM_def)

lemma guards_get [guarding]: "(\<And>r. P r \<Longrightarrow> Q (f r) r) \<Longrightarrow> guards P (getM f) Q E"
  by (auto simp: guards_def getM_def)

lemma guards_modify [guarding]: "(\<And>r. P r \<Longrightarrow> Q () (f r)) \<Longrightarrow> guards P (modifyM f) Q E"
  by (auto simp: guards_def modifyM_def)

lemma guards_try:
  "guards P m (\<lambda>x. Q (Inl x)) (\<lambda>s. (\<forall>e. Q (Inr e) s) \<and> E s) \<Longrightarrow> guards P (tryM m) Q E"
  by (fastforce simp: guards_def tryM_def split: outcome.splits prod.splits)

lemma guards_ignore: "guards P m (\<lambda>_. R) R \<Longrightarrow> (\<And>s. R s \<Longrightarrow> Q () s \<and> E s) \<Longrightarrow> guards P (ignoreM m) Q E"
  unfolding ignoreM_def guards_def bindM_def tryM_def returnM_def
  by (fastforce split: outcome.splits prod.splits)

lemma guards_mapErr [guarding]: "guards P m Q E \<Longrightarrow> guards P (mapErrM g m) Q E"
proof (rule guardsI)
  fix r x r' assume g: "guards P m Q E" and r: "P r" "mapErrM g m r = (x, r')"
  obtain y s where m: "m r = (y, s)" by fastforce
  from guardsD [OF g r(1) m] r(2) m show "case x of Ok v \<Rightarrow> Q v r' | _ \<Rightarrow> E r'"
    by (cases y) (auto simp: mapErrM_def)
qed

lemma guards_when [guarding]:
  "(b \<Longrightarrow> guards P m (\<lambda>_. Q ()) E) \<Longrightarrow> (\<And>r. \<not> b \<Longrightarrow> P r \<Longrightarrow> Q () r) \<Longrightarrow> guards P (whenM b m) Q E"
  by (auto simp: guards_def whenM_def returnM_def)

lemma guards_if [guarding]:
  "(b \<Longrightarrow> guards P m Q E) \<Longrightarrow> (\<not> b \<Longrightarrow> guards P n Q E) \<Longrightarrow> guards P (if b then m else n) Q E"
  by simp

lemma guards_weaken:
  "guards P m Q E \<Longrightarrow> (\<And>r. P' r \<Longrightarrow> P r) \<Longrightarrow> (\<And>x r. Q x r \<Longrightarrow> Q' x r) \<Longrightarrow> (\<And>r. E r \<Longrightarrow> E' r) \<Longrightarrow> guards P' m Q' E'"
  unfolding guards_def by (fastforce split: outcome.splits)

lemma guards_pre: "guards P m Q E \<Longrightarrow> (\<And>r. P' r \<Longrightarrow> P r) \<Longrightarrow> guards P' m Q E"
  by (auto simp: guards_def)

text \<open>
  \<open>parses avail p bs x\<close>: whenever the bytes the source will deliver start with \<open>bs\<close>, the
  parser \<open>p\<close> returns \<open>x\<close> and consumes exactly \<open>bs\<close>.
\<close>

definition parses :: "('r \<Rightarrow> byte list) \<Rightarrow> ('r, 'a) parser \<Rightarrow> byte list \<Rightarrow> 'a \<Rightarrow> bool" where
  "parses avail p bs x \<longleftrightarrow>
     (\<forall>r rest. avail r = bs @ rest \<longrightarrow> (\<exists>r'. p r = (Ok x, r') \<and> avail r' = rest))"

lemma parsesI:
  "(\<And>r rest. avail r = bs @ rest \<Longrightarrow> \<exists>r'. p r = (Ok x, r') \<and> avail r' = rest) \<Longrightarrow> parses avail p bs x"
  by (simp add: parses_def)

lemma parsesD:
  "parses avail p bs x \<Longrightarrow> avail r = bs @ rest \<Longrightarrow> \<exists>r'. p r = (Ok x, r') \<and> avail r' = rest"
  by (simp add: parses_def)

lemma parses_return [parsing]: "parses avail (returnM x) [] x"
  by (auto simp: parses_def returnM_def)

lemma parses_return_eq: "x = y \<Longrightarrow> parses avail (returnM x) [] y"
  by (simp add: parses_return)

lemma parses_bind [parsing]:
  assumes "parses avail p bs x" and "parses avail (f x) cs y"
  shows "parses avail (bindM p f) (bs @ cs) y"
proof (rule parsesI)
  fix r rest
  assume "avail r = (bs @ cs) @ rest"
  then have "avail r = bs @ (cs @ rest)" by simp
  with assms(1) obtain r1 where r1: "p r = (Ok x, r1)" "avail r1 = cs @ rest"
    by (blast dest: parsesD)
  with assms(2) obtain r2 where "f x r1 = (Ok y, r2)" "avail r2 = rest"
    by (blast dest: parsesD)
  with r1 show "\<exists>r'. bindM p f r = (Ok y, r') \<and> avail r' = rest"
    by (simp add: bindM_def)
qed

lemma parses_bind_eq:
  "parses avail p bs x \<Longrightarrow> parses avail (f x) cs y \<Longrightarrow> zs = bs @ cs \<Longrightarrow>
     parses avail (bindM p f) zs y"
  by (simp add: parses_bind)

lemma parses_bind_Cons:
  "parses avail p [w] x \<Longrightarrow> parses avail (f x) cs y \<Longrightarrow> parses avail (bindM p f) (w # cs) y"
  using parses_bind [of avail p "[w]" x f cs y] by simp

lemma parses_last:
  "parses avail p bs x \<Longrightarrow> f x = returnM y \<Longrightarrow> parses avail (bindM p f) bs y"
  using parses_bind_eq [of avail p bs x f "[]" y bs] by (simp add: parses_return)

lemma parses_mapErr [parsing]: "parses avail p bs x \<Longrightarrow> parses avail (mapErrM g p) bs x"
  by (fastforce simp: parses_def mapErrM_def)

lemma parses_unique:
  "parses avail p bs x \<Longrightarrow> parses avail p bs y \<Longrightarrow> avail r = bs @ rest \<Longrightarrow> x = y"
  by (fastforce simp: parses_def)

section \<open>Big-endian bytes\<close>

definition be16 :: "u16 \<Rightarrow> byte list" where
  "be16 w = [ucast (drop_bit 8 w), ucast w]"

definition be24 :: "u32 \<Rightarrow> byte list" where
  "be24 w = [ucast (drop_bit 16 w), ucast (drop_bit 8 w), ucast w]"

definition be64 :: "u64 \<Rightarrow> byte list" where
  "be64 w = [ucast (drop_bit 56 w), ucast (drop_bit 48 w), ucast (drop_bit 40 w),
     ucast (drop_bit 32 w), ucast (drop_bit 24 w), ucast (drop_bit 16 w),
     ucast (drop_bit 8 w), ucast w]"

lemma length_be [simp, wire]: "length (be16 w) = 2" "length (be24 v) = 3" "length (be64 x) = 8"
  by (simp_all add: be16_def be24_def be64_def)

lemma bit_byte_at:
  fixes w :: "'a::len word"
  shows "bit (push_bit k (ucast (ucast (drop_bit k w) :: byte)) :: 'a word) n \<longleftrightarrow>
     k \<le> n \<and> n < k + 8 \<and> bit w n"
  by (auto simp: bit_simps dest: bit_imp_le_length)

lemma bit_byte_low:
  fixes w :: "'a::len word"
  shows "bit (ucast (ucast w :: byte) :: 'a word) n \<longleftrightarrow> n < 8 \<and> bit w n"
  by (auto simp: bit_simps dest: bit_imp_le_length)

lemmas byte_join_simps = bit_or_iff bit_byte_at bit_byte_low

lemma be16_join:
  "(push_bit 8 (ucast (ucast (drop_bit 8 w) :: byte)) OR ucast (ucast w :: byte) :: u16) = w"
proof (rule bit_word_eqI)
  fix n assume "n < LENGTH(16)"
  then have "n < 8 \<or> 8 \<le> n \<and> n < 16" by auto
  then show "bit (push_bit 8 (ucast (ucast (drop_bit 8 w) :: byte)) OR ucast (ucast w :: byte) :: u16) n
      = bit w n"
    unfolding byte_join_simps by (cases "bit w n") (simp_all, arith?)
qed

lemma be24_join:
  assumes "unat w < 2 ^ 24"
  shows "(push_bit 16 (ucast (ucast (drop_bit 16 w) :: byte))
     OR push_bit 8 (ucast (ucast (drop_bit 8 w) :: byte)) OR ucast (ucast w :: byte) :: u32) = w"
proof (rule bit_word_eqI)
  fix n
  have "bit w n \<Longrightarrow> n < 24"
  proof -
    assume "bit w n"
    then have "bit (unat w) n" by (simp add: bit_unsigned_iff)
    moreover have "take_bit 24 (unat w) = unat w"
      using assms by (simp add: take_bit_nat_eq_self)
    ultimately show "n < 24" by (metis bit_take_bit_iff)
  qed
  then have "bit w n \<Longrightarrow> n < 8 \<or> 8 \<le> n \<and> n < 16 \<or> 16 \<le> n \<and> n < 24" by linarith
  then show "bit (push_bit 16 (ucast (ucast (drop_bit 16 w) :: byte))
     OR push_bit 8 (ucast (ucast (drop_bit 8 w) :: byte)) OR ucast (ucast w :: byte) :: u32) n = bit w n"
    unfolding byte_join_simps by (cases "bit w n") (simp_all, arith?)
qed

lemma be64_join:
  "(push_bit 56 (ucast (ucast (drop_bit 56 w) :: byte)) OR push_bit 48 (ucast (ucast (drop_bit 48 w) :: byte))
    OR push_bit 40 (ucast (ucast (drop_bit 40 w) :: byte)) OR push_bit 32 (ucast (ucast (drop_bit 32 w) :: byte))
    OR push_bit 24 (ucast (ucast (drop_bit 24 w) :: byte)) OR push_bit 16 (ucast (ucast (drop_bit 16 w) :: byte))
    OR push_bit 8 (ucast (ucast (drop_bit 8 w) :: byte)) OR ucast (ucast w :: byte) :: u64) = w"
    (is "?l = w")
proof (rule bit_word_eqI)
  fix n assume "n < LENGTH(64)"
  then have "n < 8 \<or> 8 \<le> n \<and> n < 16 \<or> 16 \<le> n \<and> n < 24 \<or> 24 \<le> n \<and> n < 32 \<or> 32 \<le> n \<and> n < 40
     \<or> 40 \<le> n \<and> n < 48 \<or> 48 \<le> n \<and> n < 56 \<or> 56 \<le> n \<and> n < 64"
    by (simp, arith)
  then show "bit ?l n = bit w n"
    unfolding byte_join_simps by (cases "bit w n") (simp_all, blast?)
qed

section \<open>Numbers and lists\<close>

lemma mod_add_cancel:
  fixes a b c n :: nat
  assumes "(a + b) mod n = (a + c) mod n"
  shows "b mod n = c mod n"
proof -
  from assms have "int (a + b) mod int n = int (a + c) mod int n" by (metis zmod_int)
  then have "int b mod int n = int c mod int n" by (simp add: mod_eq_dvd_iff)
  then show ?thesis by (metis of_nat_eq_iff zmod_int)
qed

lemma take_append_exact: "length xs = n \<Longrightarrow> take n (xs @ ys) = xs"
  by simp

lemma drop_append_exact: "length xs = n \<Longrightarrow> drop n (xs @ ys) = ys"
  by simp

end
