(* ===== verification/Go_Arith.thy ===== *)
theory Go_Arith
  imports Prelude
begin

text \<open>
  The arithmetic of the language the congestion control and the RTT estimate use: division
  that truncates towards zero, and the floating-point operations on non-negative values,
  modelled on naturals at a fixed scale. \<open>rnd_sig p n\<close> is \<open>n\<close> rounded to \<open>p\<close> significant bits,
  ties to even, which is the rounding of IEEE 754 for values without an exponent overflow:
  \<open>p = 53\<close> for \<open>float64\<close> and \<open>p = 24\<close> for \<open>float32\<close>. Each operation is rounded on its own (the
  code is taken as compiled without fused multiply-add).
\<close>

definition quo :: "int \<Rightarrow> int \<Rightarrow> int" where
  "quo a b = sgn a * sgn b * (\<bar>a\<bar> div \<bar>b\<bar>)"

lemma quo_nonneg: "0 \<le> a \<Longrightarrow> 0 < b \<Longrightarrow> quo a b = a div b"
  by (cases "a = 0") (simp_all add: quo_def)

lemma quo_zero [simp]: "quo 0 b = 0"
  by (simp add: quo_def)

section \<open>Rounding to a number of significant bits\<close>

fun bitlen :: "nat \<Rightarrow> nat" where
  "bitlen n = (if n = 0 then 0 else Suc (bitlen (n div 2)))"

declare bitlen.simps [simp del]

lemma bitlen_0 [simp]: "bitlen 0 = 0"
  by (simp add: bitlen.simps)

lemma bitlen_lower: "0 < n \<Longrightarrow> 2 ^ (bitlen n - 1) \<le> n"
proof (induction n rule: bitlen.induct)
  case (1 n)
  show ?case
  proof (cases "n div 2 = 0")
    case True
    with "1.prems" show ?thesis by (simp add: bitlen.simps [of n])
  next
    case False
    with "1" have IH: "2 ^ (bitlen (n div 2) - 1) \<le> n div 2" by simp
    from False have "0 < bitlen (n div 2)" by (simp add: bitlen.simps [of "n div 2"])
    then have "(2::nat) ^ bitlen (n div 2) = 2 * 2 ^ (bitlen (n div 2) - 1)"
      by (metis power_eq_if not_gr_zero)
    with IH "1.prems" show ?thesis by (simp add: bitlen.simps [of n])
  qed
qed

definition round_shift :: "nat \<Rightarrow> nat \<Rightarrow> nat" where
  "round_shift k n =
     (if k = 0 then n
      else let q = n div 2 ^ k; r = n mod 2 ^ k; half = 2 ^ (k - 1) in
        (q + (if r > half \<or> r = half \<and> odd q then 1 else 0)) * 2 ^ k)"

definition rnd_sig :: "nat \<Rightarrow> nat \<Rightarrow> nat" where
  "rnd_sig p n = round_shift (bitlen n - p) n"

lemma round_shift_bounds:
  assumes "0 < k"
  shows "n \<le> round_shift k n + 2 ^ (k - 1)" and "round_shift k n \<le> n + 2 ^ (k - 1)"
proof -
  define D R H where "D = n div 2 ^ k * 2 ^ k" and "R = n mod 2 ^ k" and "H = (2::nat) ^ (k - 1)"
  have n: "n = D + R" by (simp add: D_def R_def div_mult_mod_eq)
  have two: "(2::nat) ^ k = H + H"
    using assms by (cases k) (simp_all add: H_def)
  have R: "R < H + H" unfolding R_def two [symmetric] by simp
  have rs: "round_shift k n = D + (if R > H \<or> R = H \<and> odd (n div 2 ^ k) then H + H else 0)"
    using assms by (simp add: round_shift_def Let_def D_def R_def H_def add_mult_distrib two [unfolded H_def])
  show "n \<le> round_shift k n + 2 ^ (k - 1)"
    unfolding rs H_def [symmetric] using n R by (auto split: if_splits)
  show "round_shift k n \<le> n + 2 ^ (k - 1)"
    unfolding rs H_def [symmetric] using n R by (auto split: if_splits)
qed

lemma rnd_sig_error:
  assumes "0 < p"
  shows "2 ^ p * n \<le> 2 ^ p * rnd_sig p n + n" and "2 ^ p * rnd_sig p n \<le> 2 ^ p * n + n"
proof -
  let ?k = "bitlen n - p"
  have e: "0 < ?k \<Longrightarrow> 2 ^ p * 2 ^ (?k - 1) \<le> n"
  proof -
    assume k: "0 < ?k"
    then have "0 < n" by (cases "n = 0") simp_all
    moreover have "p + (?k - 1) = bitlen n - 1" using k by simp
    ultimately show ?thesis
      using bitlen_lower [of n] by (simp add: power_add [symmetric])
  qed
  show "2 ^ p * n \<le> 2 ^ p * rnd_sig p n + n"
  proof (cases "?k = 0")
    case False
    then have "2 ^ p * n \<le> 2 ^ p * (round_shift ?k n + 2 ^ (?k - 1))"
      by (intro mult_le_mono round_shift_bounds) simp_all
    with False e show ?thesis by (simp add: rnd_sig_def distrib_left)
  qed (simp add: rnd_sig_def round_shift_def)
  show "2 ^ p * rnd_sig p n \<le> 2 ^ p * n + n"
  proof (cases "?k = 0")
    case False
    then have "2 ^ p * round_shift ?k n \<le> 2 ^ p * (n + 2 ^ (?k - 1))"
      by (intro mult_le_mono round_shift_bounds) simp_all
    with False e show ?thesis by (simp add: rnd_sig_def distrib_left)
  qed (simp add: rnd_sig_def round_shift_def)
qed

lemma rnd_sig_0 [simp]: "rnd_sig p 0 = 0"
  by (simp add: rnd_sig_def round_shift_def)

section \<open>float64: multiplication by 0.7 and rounding\<close>

text \<open>
  The constant 0.7 as a \<open>float64\<close> is \<open>6305039478318694 / 2 ^ 53\<close>. The product with an integer is
  rounded to 53 bits, \<open>math.Round\<close> rounds halves away from zero.
\<close>

definition round_mul_07 :: "nat \<Rightarrow> nat" where
  "round_mul_07 c = (rnd_sig 53 (6305039478318694 * c) + 2 ^ 52) div 2 ^ 53"

lemma round_mul_07_ge1: "1 \<le> c \<Longrightarrow> 1 \<le> round_mul_07 c"
proof -
  assume c: "1 \<le> c"
  have "2 ^ 53 * (6305039478318694 * c) \<le> 2 ^ 53 * rnd_sig 53 (6305039478318694 * c)
      + 6305039478318694 * c"
    by (rule rnd_sig_error) simp
  with c have "2 ^ 53 \<le> rnd_sig 53 (6305039478318694 * c) + 2 ^ 52" by simp
  then show ?thesis by (simp add: round_mul_07_def div_greater_zero_iff Suc_le_eq)
qed

lemma round_mul_07_le: "round_mul_07 c \<le> c"
proof (cases "c \<le> 1")
  case True
  have "round_mul_07 0 = 0" by (simp add: round_mul_07_def)
  moreover have "round_mul_07 1 = 1"
    by (simp add: round_mul_07_def rnd_sig_def round_shift_def bitlen.simps)
  ultimately show ?thesis using True by (cases c) auto
next
  case False
  have "2 ^ 53 * rnd_sig 53 (6305039478318694 * c) \<le> 2 ^ 53 * (6305039478318694 * c)
      + 6305039478318694 * c"
    by (rule rnd_sig_error) simp
  with False have "rnd_sig 53 (6305039478318694 * c) + 2 ^ 52 \<le> 2 ^ 53 * c" by simp
  then show ?thesis
    by (simp add: round_mul_07_def div_le_mono [of _ "2 ^ 53 * c" "2 ^ 53", simplified])
qed

section \<open>float64: square root and rounding\<close>

fun isqrt :: "nat \<Rightarrow> nat" where
  "isqrt n = (if n = 0 then 0
     else let r = 2 * isqrt (n div 4) in if (r + 1) * (r + 1) \<le> n then r + 1 else r)"

declare isqrt.simps [simp del]

lemma isqrt_0 [simp]: "isqrt 0 = 0"
  by (simp add: isqrt.simps)

lemma isqrt_bounds: "isqrt n * isqrt n \<le> n \<and> n < (isqrt n + 1) * (isqrt n + 1)"
proof (induction n rule: isqrt.induct)
  case (1 n)
  show ?case
  proof (cases "n = 0")
    case False
    let ?s = "isqrt (n div 4)"
    from "1.IH" [OF False] have "?s * ?s \<le> n div 4" "n div 4 < (?s + 1) * (?s + 1)" by auto
    then have "4 * (?s * ?s) \<le> n" "n < 4 * ((?s + 1) * (?s + 1))" by linarith+
    with False show ?thesis
      by (auto simp: isqrt.simps [of n] Let_def algebra_simps)
  qed simp
qed

text \<open>
  The integer nearest to the square root: no square root of a natural is a half, and for
  arguments below \<open>2 ^ 50\<close> the \<open>float64\<close> root is on the same side of the halves.
\<close>

definition round_sqrt :: "nat \<Rightarrow> nat" where
  "round_sqrt n = (let r = isqrt n in if r * r + r < n then r + 1 else r)"

lemma round_sqrt_0 [simp]: "round_sqrt 0 = 0"
  by (simp add: round_sqrt_def)

end
