(* ===== verification/Congestion_Control.thy ===== *)
theory Congestion_Control
  imports Go_Arith
begin

text \<open>
  btp/congestioncontrol: the lock-step and the Elastic-TCP algorithm, and what the connection
  relies on as two locales. \<open>flow_control\<close> is the contract of \<open>SentMessages\<close>, \<open>ReceivedAcks\<close> and
  \<open>NumFreeSend\<close>: the number of messages in the pipe, and a free slot exactly when it is below
  the window. \<open>congestion_window\<close> adds the events, which never enlarge the window. The locks
  of the Go code make each method one step.
\<close>

section \<open>LockStepAlgorithm (lockstep.go)\<close>

record LockStep =
  ls_pipe :: int

definition NewLockStepAlgorithm :: LockStep where
  "NewLockStepAlgorithm = \<lparr>ls_pipe = 0\<rparr>"

definition LockStep_SentMessages :: "int \<Rightarrow> LockStep \<Rightarrow> LockStep" where
  "LockStep_SentMessages i l = (if i = 0 then l else l\<lparr>ls_pipe := ls_pipe l + i\<rparr>)"

definition LockStep_ReceivedAcks :: "int \<Rightarrow> LockStep \<Rightarrow> LockStep" where
  "LockStep_ReceivedAcks i l =
     (if i = 0 then l
      else let l = l\<lparr>ls_pipe := ls_pipe l - i\<rparr> in
        if ls_pipe l < 0 then l\<lparr>ls_pipe := 0\<rparr> else l)"

definition LockStep_NumFreeSend :: "LockStep \<Rightarrow> int" where
  "LockStep_NumFreeSend l = (if ls_pipe l = 0 then 1 else 0)"

section \<open>ElasticTcpAlgorithm (elastic.go)\<close>

record Elastic =
  cwnd :: int
  max_cwnd :: int
  pipe :: int
  ssthresh :: int
  rtt_max :: int
  rtt_curr :: int

datatype CaEvent = Loss | Duplicate

definition NewElasticTcpAlgorithm :: "int \<Rightarrow> int \<Rightarrow> Elastic" where
  "NewElasticTcpAlgorithm initialCwndSize maxCwndSize =
     \<lparr>cwnd = initialCwndSize, max_cwnd = maxCwndSize, pipe = 0,
      ssthresh = quo initialCwndSize 2, rtt_max = 0, rtt_curr = 0\<rparr>"

definition SentMessages :: "int \<Rightarrow> Elastic \<Rightarrow> Elastic" where
  "SentMessages i e = e\<lparr>pipe := pipe e + i\<rparr>"

definition ReceivedAcks :: "int \<Rightarrow> Elastic \<Rightarrow> Elastic" where
  "ReceivedAcks i e =
     (let e = e\<lparr>pipe := pipe e - i\<rparr> in if pipe e < 0 then e\<lparr>pipe := 0\<rparr> else e)"

definition NumFreeSend :: "Elastic \<Rightarrow> int" where
  "NumFreeSend e = cwnd e - pipe e"

text \<open>
  The root of a negative number is NaN, and what \<open>int(NaN)\<close> is depends on the platform: it is
  the argument \<open>nan\<close>. Both integer divisions panic on a zero divisor.
\<close>

definition CongAvoid :: "int \<Rightarrow> Elastic \<Rightarrow> Elastic outcome" where
  "CongAvoid nan e =
     (if cwnd e \<ge> max_cwnd e then Ok (e\<lparr>cwnd := max_cwnd e\<rparr>)
      else if cwnd e < ssthresh e then Ok (e\<lparr>cwnd := cwnd e + 1\<rparr>)
      else if rtt_curr e = 0 then Panic ''integer divide by zero''
      else
        (let x = quo (rtt_max e) (rtt_curr e) * cwnd e;
             wwf = (if x < 0 then nan else int (round_sqrt (nat x)))
         in if cwnd e = 0 then Panic ''integer divide by zero''
            else Ok (e\<lparr>cwnd := cwnd e + quo wwf (cwnd e)\<rparr>)))"

definition UpdateRTT :: "int \<Rightarrow> Elastic \<Rightarrow> Elastic" where
  "UpdateRTT rtt e =
     (let rtt = rtt + 1;
          e = (if rtt > rtt_max e \<or> rtt_max e = 0 then e\<lparr>rtt_max := 0\<rparr> else e)
      in e\<lparr>rtt_curr := rtt\<rparr>)"

text \<open>\<open>int(math.Round(float64(cwnd) * 0.7))\<close>; the product of the negative is the negative.\<close>

definition mulDecrease :: "int \<Rightarrow> int" where
  "mulDecrease c = (if c < 0 then - int (round_mul_07 (nat (- c))) else int (round_mul_07 (nat c)))"

definition HandleEvent :: "CaEvent \<Rightarrow> Elastic \<Rightarrow> Elastic" where
  "HandleEvent event e = (case event of
      Loss \<Rightarrow> e\<lparr>rtt_max := 0, cwnd := mulDecrease (cwnd e), ssthresh := max (quo (pipe e) 2) 2\<rparr>
    | Duplicate \<Rightarrow> e\<lparr>rtt_max := 0, cwnd := mulDecrease (cwnd e), ssthresh := max (quo (pipe e) 2) 2\<rparr>)"

lemma HandleEvent_simps [simp]:
  "cwnd (HandleEvent ev e) = mulDecrease (cwnd e)" "pipe (HandleEvent ev e) = pipe e"
  "max_cwnd (HandleEvent ev e) = max_cwnd e" "rtt_max (HandleEvent ev e) = 0"
  "rtt_curr (HandleEvent ev e) = rtt_curr e"
  by (cases ev; simp add: HandleEvent_def)+

lemma mulDecrease_le: "0 \<le> c \<Longrightarrow> mulDecrease c \<le> c"
  using round_mul_07_le [of "nat c"] by (simp add: mulDecrease_def)

lemma mulDecrease_ge1: "1 \<le> c \<Longrightarrow> 1 \<le> mulDecrease c"
  using round_mul_07_ge1 [of "nat c"] by (simp add: mulDecrease_def)

lemma mulDecrease_nonneg: "0 \<le> c \<Longrightarrow> 0 \<le> mulDecrease c"
  by (simp add: mulDecrease_def)

lemma Sent_simps [simp]:
  "cwnd (SentMessages i e) = cwnd e" "pipe (SentMessages i e) = pipe e + i"
  "rtt_max (SentMessages i e) = rtt_max e" "max_cwnd (SentMessages i e) = max_cwnd e"
  by (simp_all add: SentMessages_def)

lemma Acks_simps [simp]:
  "cwnd (ReceivedAcks i e) = cwnd e" "pipe (ReceivedAcks i e) = max 0 (pipe e - i)"
  "rtt_max (ReceivedAcks i e) = rtt_max e" "max_cwnd (ReceivedAcks i e) = max_cwnd e"
  by (simp_all add: ReceivedAcks_def Let_def)

lemma UpdateRTT_simps [simp]:
  "cwnd (UpdateRTT r e) = cwnd e" "pipe (UpdateRTT r e) = pipe e"
  "max_cwnd (UpdateRTT r e) = max_cwnd e" "rtt_curr (UpdateRTT r e) = r + 1"
  by (simp_all add: UpdateRTT_def Let_def)

section \<open>What a sender relies on\<close>

text \<open>A sender that asks for a free slot before each message, the acknowledgements it gets.\<close>

datatype flow_event = TrySend | AckArrived

definition gated :: "(int \<Rightarrow> 's \<Rightarrow> 's) \<Rightarrow> ('s \<Rightarrow> int) \<Rightarrow> 's \<Rightarrow> 's" where
  "gated sent free s = (if free s > 0 then sent 1 s else s)"

fun flow_run :: "(int \<Rightarrow> 's \<Rightarrow> 's) \<Rightarrow> (int \<Rightarrow> 's \<Rightarrow> 's) \<Rightarrow> ('s \<Rightarrow> int) \<Rightarrow> flow_event list \<Rightarrow> 's \<Rightarrow> 's" where
  "flow_run sent acks free [] s = s"
| "flow_run sent acks free (TrySend # es) s = flow_run sent acks free es (gated sent free s)"
| "flow_run sent acks free (AckArrived # es) s = flow_run sent acks free es (acks 1 s)"

locale flow_control =
  fixes sent acks :: "int \<Rightarrow> 's \<Rightarrow> 's" and free in_pipe window :: "'s \<Rightarrow> int"
  assumes sent_pipe: "in_pipe (sent i s) = in_pipe s + i"
    and sent_window: "window (sent i s) = window s"
    and acks_pipe: "0 \<le> in_pipe s \<Longrightarrow> 0 \<le> i \<Longrightarrow> in_pipe (acks i s) = max 0 (in_pipe s - i)"
    and acks_window: "window (acks i s) = window s"
    and free_iff: "0 \<le> in_pipe s \<Longrightarrow> 0 < free s \<longleftrightarrow> in_pipe s < window s"
begin

lemma gated_bounds:
  assumes "0 \<le> in_pipe s" and "in_pipe s \<le> w" and "window s \<le> w"
  shows "0 \<le> in_pipe (gated sent free s) \<and> in_pipe (gated sent free s) \<le> w
     \<and> window (gated sent free s) = window s"
  using assms free_iff [of s] by (auto simp: gated_def sent_pipe sent_window)

lemma acks_bounds:
  assumes "0 \<le> in_pipe s" and "in_pipe s \<le> w"
  shows "0 \<le> in_pipe (acks 1 s) \<and> in_pipe (acks 1 s) \<le> w"
  using assms by (simp add: acks_pipe)

text \<open>A gated sender never has more messages in the pipe than the window allows.\<close>

lemma flow_run_bounded:
  assumes "0 \<le> in_pipe s" and "in_pipe s \<le> window s"
  shows "0 \<le> in_pipe (flow_run sent acks free es s)
    \<and> in_pipe (flow_run sent acks free es s) \<le> window s"
  using assms
proof (induction es arbitrary: s)
  case (Cons e es)
  show ?case
  proof (cases e)
    case TrySend
    with Cons gated_bounds [of s "window s"] show ?thesis by fastforce
  next
    case AckArrived
    with Cons acks_bounds [of s "window s"] show ?thesis by (fastforce simp: acks_window)
  qed
qed simp

end

locale congestion_window = flow_control +
  fixes event :: "CaEvent \<Rightarrow> 's \<Rightarrow> 's"
  assumes event_pipe: "in_pipe (event ev s) = in_pipe s"
    and event_window: "0 \<le> window s \<Longrightarrow> window (event ev s) \<le> window s"
    and event_live: "1 \<le> window s \<Longrightarrow> 1 \<le> window (event ev s)"
begin

lemma event_bounds:
  assumes "1 \<le> window s" and "window s \<le> w"
  shows "1 \<le> window (event ev s) \<and> window (event ev s) \<le> w"
  using assms event_window [of s ev] event_live [of s ev] by auto

text \<open>After any events, a sender with an empty pipe may still send.\<close>

lemma event_never_stuck:
  assumes "1 \<le> window s" and "in_pipe s = 0"
  shows "0 < free (event ev s)"
  using assms event_live [of s ev] free_iff [of "event ev s"] by (simp add: event_pipe)

end

definition LockStep_window :: "LockStep \<Rightarrow> int" where
  "LockStep_window l = 1"

interpretation lock_step: flow_control LockStep_SentMessages LockStep_ReceivedAcks
    LockStep_NumFreeSend ls_pipe LockStep_window
  by unfold_locales
    (auto simp: LockStep_SentMessages_def LockStep_ReceivedAcks_def LockStep_NumFreeSend_def
      LockStep_window_def Let_def)

interpretation elastic: congestion_window SentMessages ReceivedAcks NumFreeSend pipe cwnd HandleEvent
  by unfold_locales (auto simp: NumFreeSend_def mulDecrease_le mulDecrease_ge1)

section \<open>Runs of the Elastic algorithm\<close>

text \<open>Any sequence of calls of the interface; a call that panics ends the run.\<close>

datatype elastic_op = OpSent int | OpAcks int | OpAvoid | OpRTT int | OpEvent CaEvent

fun elastic_step :: "int \<Rightarrow> elastic_op \<Rightarrow> Elastic \<Rightarrow> Elastic outcome" where
  "elastic_step nan (OpSent i) e = Ok (SentMessages i e)"
| "elastic_step nan (OpAcks i) e = Ok (ReceivedAcks i e)"
| "elastic_step nan OpAvoid e = CongAvoid nan e"
| "elastic_step nan (OpRTT r) e = Ok (UpdateRTT r e)"
| "elastic_step nan (OpEvent ev) e = Ok (HandleEvent ev e)"

fun elastic_run :: "int \<Rightarrow> elastic_op list \<Rightarrow> Elastic \<Rightarrow> Elastic outcome" where
  "elastic_run nan [] e = Ok e"
| "elastic_run nan (x # xs) e = bindO (elastic_step nan x e) (elastic_run nan xs)"

lemma CongAvoid_frame:
  "CongAvoid nan e = Ok e' \<Longrightarrow>
     rtt_max e' = rtt_max e \<and> max_cwnd e' = max_cwnd e \<and> pipe e' = pipe e"
  by (auto simp: CongAvoid_def Let_def split: if_splits)

lemma elastic_step_rtt_max:
  "elastic_step nan x e = Ok e' \<Longrightarrow> rtt_max e = 0 \<Longrightarrow> rtt_max e' = 0"
  by (cases x) (auto simp: CongAvoid_frame UpdateRTT_def Let_def)

lemma elastic_run_rtt_max:
  "elastic_run nan xs e = Ok e' \<Longrightarrow> rtt_max e = 0 \<Longrightarrow> rtt_max e' = 0"
  by (induction xs arbitrary: e) (auto dest: elastic_step_rtt_max)

text \<open>Without \<open>CongAvoid\<close> the window never grows, and never closes once it is open.\<close>

lemma elastic_step_window:
  assumes "elastic_step nan x e = Ok e'" and "x \<noteq> OpAvoid" and "1 \<le> cwnd e"
  shows "1 \<le> cwnd e' \<and> cwnd e' \<le> cwnd e"
  using assms elastic.event_bounds [of e "cwnd e"] by (cases x) auto

lemma elastic_run_window:
  assumes "elastic_run nan xs e = Ok e'" and "OpAvoid \<notin> set xs" and "1 \<le> cwnd e"
  shows "1 \<le> cwnd e' \<and> cwnd e' \<le> cwnd e"
  using assms
proof (induction xs arbitrary: e)
  case (Cons x xs)
  then obtain e1 where "elastic_step nan x e = Ok e1" "elastic_run nan xs e1 = Ok e'"
    by auto
  with Cons elastic_step_window [of nan x e e1] show ?case by fastforce
qed simp

text \<open>Past slow start the window grows by the quotient of the rounded root, which is 0 here.\<close>

lemma CongAvoid_no_growth:
  assumes "rtt_max e = 0" and "cwnd e < max_cwnd e" and "ssthresh e \<le> cwnd e"
    and "CongAvoid nan e = Ok e'"
  shows "e' = e"
  using assms by (auto simp: CongAvoid_def Let_def split: if_splits)

end
