(* ===== verification/Rtt.thy ===== *)
theory Rtt
  imports Go_Arith
begin

text \<open>
  btp/rtt.go: the smoothed round-trip time. Durations are nanoseconds. The estimates are
  computed in \<open>float32\<close>; all operands are non-negative and multiples of 1/8, so a value \<open>v\<close> is
  the natural \<open>8 * v\<close>, rounded to 24 significant bits after each operation.
\<close>

definition defaultInitialRTT :: int where
  "defaultInitialRTT = 500 * 1000000"

record RTTMeasurement =
  rtt_min :: int
  latest :: int
  srtt :: int
  rttvar :: int
  hasSample :: bool

definition NewRttMeasurement :: RTTMeasurement where
  "NewRttMeasurement = \<lparr>rtt_min = 0, latest = 0, srtt = 0, rttvar = 0, hasSample = False\<rparr>"

definition absDuration :: "int \<Rightarrow> int" where
  "absDuration a = (if a \<ge> 0 then a else - a)"

text \<open>\<open>float32(d)\<close>, and the weighted sums \<open>a / 8 * x + b / 8 * y\<close> truncated to a duration.\<close>

definition f32 :: "int \<Rightarrow> nat" where
  "f32 d = rnd_sig 24 (nat d)"

definition weighted :: "nat \<Rightarrow> nat \<Rightarrow> int \<Rightarrow> int \<Rightarrow> int" where
  "weighted a b x y =
     int (rnd_sig 24 (rnd_sig 24 (a * f32 x) + rnd_sig 24 (b * f32 y)) div 8)"

definition Update :: "int \<Rightarrow> int \<Rightarrow> RTTMeasurement \<Rightarrow> RTTMeasurement" where
  "Update sendTimestamp ackTimestamp r =
     (let delta = ackTimestamp - sendTimestamp in
      if delta < 0 then r
      else
        (let r1 =
           (if \<not> hasSample r
            then r\<lparr>hasSample := True, srtt := delta, rttvar := quo delta 2\<rparr>
            else let r' = r\<lparr>rttvar := weighted 6 2 (rttvar r) (absDuration (srtt r - delta))\<rparr>
                 in r'\<lparr>srtt := weighted 7 1 (srtt r') delta\<rparr>);
             r2 = r1\<lparr>latest := delta\<rparr>
         in if rtt_min r2 > delta then r2\<lparr>rtt_min := delta\<rparr> else r2))"

definition RTO :: "RTTMeasurement \<Rightarrow> int" where
  "RTO r =
     (if \<not> hasSample r then defaultInitialRTT * 2
      else let rto = srtt r + 4 * rttvar r in
        if rto < 400 * 1000000 then 400 * 1000000 else rto)"

definition RTT_Min :: "RTTMeasurement \<Rightarrow> int" where "RTT_Min r = rtt_min r"
definition RTT_Latest :: "RTTMeasurement \<Rightarrow> int" where "RTT_Latest r = latest r"
definition RTT_SRTT :: "RTTMeasurement \<Rightarrow> int" where "RTT_SRTT r = srtt r"
definition RTT_RTTVar :: "RTTMeasurement \<Rightarrow> int" where "RTT_RTTVar r = rttvar r"

section \<open>Bounds\<close>

lemma RTO_ge: "400 * 1000000 \<le> RTO r"
  by (simp add: RTO_def Let_def defaultInitialRTT_def)

lemma absDuration_abs [simp]: "absDuration a = \<bar>a\<bar>"
  by (simp add: absDuration_def)

lemma weighted_nonneg [simp]: "0 \<le> weighted a b x y"
  by (simp add: weighted_def)

lemma f32_bounds:
  "2 ^ 24 * nat d \<le> 2 ^ 24 * f32 d + nat d" "2 ^ 24 * f32 d \<le> 2 ^ 24 * nat d + nat d"
  using rnd_sig_error [of 24 "nat d"] by (simp_all add: f32_def)

text \<open>A weighted mean exceeds the larger operand by less than one part in \<open>2 ^ 22\<close>.\<close>

lemma weighted_le:
  assumes "a + b = 8" and "0 \<le> x" and "0 \<le> y"
  shows "2 ^ 22 * weighted a b x y \<le> (2 ^ 22 + 1) * max x y"
proof -
  define m where "m = nat (max x y)"
  define A B S where "A = rnd_sig 24 (a * f32 x)" and "B = rnd_sig 24 (b * f32 y)" and "S = rnd_sig 24 (A + B)"
  have xy: "nat x \<le> m" "nat y \<le> m" by (auto simp: m_def)
  have fx: "2 ^ 24 * f32 x \<le> (2 ^ 24 + 1) * m" using f32_bounds(2) [of x] xy by simp
  have fy: "2 ^ 24 * f32 y \<le> (2 ^ 24 + 1) * m" using f32_bounds(2) [of y] xy by simp
  have "2 ^ 24 * (a * f32 x + b * f32 y) = a * (2 ^ 24 * f32 x) + b * (2 ^ 24 * f32 y)"
    by (simp add: algebra_simps)
  also have "\<dots> \<le> a * ((2 ^ 24 + 1) * m) + b * ((2 ^ 24 + 1) * m)"
    by (intro add_mono mult_le_mono order_refl fx fy)
  also have "\<dots> = (a + b) * ((2 ^ 24 + 1) * m)" by (simp only: add_mult_distrib)
  finally have f: "2 ^ 24 * (a * f32 x + b * f32 y) \<le> 8 * ((2 ^ 24 + 1) * m)"
    using assms(1) by simp
  have "2 ^ 24 * (A + B) \<le> (2 ^ 24 + 1) * (a * f32 x + b * f32 y)"
    using rnd_sig_error(2) [of 24 "a * f32 x"] rnd_sig_error(2) [of 24 "b * f32 y"]
    by (simp add: A_def B_def)
  moreover have "2 ^ 24 * S \<le> (2 ^ 24 + 1) * (A + B)"
    using rnd_sig_error(2) [of 24 "A + B"] by (simp add: S_def)
  ultimately have "2 ^ 22 * (S div 8) \<le> (2 ^ 22 + 1) * m"
    using f by simp
  then have "int (2 ^ 22 * (S div 8)) \<le> int ((2 ^ 22 + 1) * m)"
    by (rule of_nat_mono)
  moreover have m: "int m = max x y" using assms by (simp add: m_def max_def)
  ultimately have "2 ^ 22 * int (S div 8) \<le> (2 ^ 22 + 1) * max x y"
    unfolding m [symmetric] by simp
  then show ?thesis
    by (simp add: weighted_def S_def A_def B_def)
qed

section \<open>Runs of updates\<close>

fun rtt_run :: "(int \<times> int) list \<Rightarrow> RTTMeasurement \<Rightarrow> RTTMeasurement" where
  "rtt_run [] r = r"
| "rtt_run ((s, a) # es) r = rtt_run es (Update s a r)"

definition rtt_ok :: "RTTMeasurement \<Rightarrow> bool" where
  "rtt_ok r \<longleftrightarrow> 0 \<le> srtt r \<and> 0 \<le> rttvar r \<and> rtt_min r = 0"

lemma rtt_ok_New: "rtt_ok NewRttMeasurement"
  by (simp add: rtt_ok_def NewRttMeasurement_def)

lemma rtt_ok_Update: "rtt_ok r \<Longrightarrow> rtt_ok (Update s a r)"
  by (simp add: rtt_ok_def Update_def Let_def quo_nonneg)

lemma rtt_ok_run: "rtt_ok r \<Longrightarrow> rtt_ok (rtt_run es r)"
  by (induction es arbitrary: r) (auto simp: rtt_ok_Update)

end
