(* ===== verification/Cryptobyte.thy ===== *)
theory Cryptobyte
  imports Prelude
begin

text \<open>
  The interface of golang.org/x/crypto/cryptobyte, which is not part of the repository. Its
  operations are the fields of a record that every definition using the package takes as
  an argument; the behaviour the package documents is the locale \<open>cryptobyte_laws\<close>. A fixed
  builder writes into a buffer of a given capacity and a write beyond it is an error that
  \<open>Bytes\<close> reports. The reference builder at the end meets the laws and is what the witnesses
  run.
\<close>

section \<open>The operations\<close>

record 'b cryptobyte =
  NewFixedBuilder :: "nat \<Rightarrow> 'b"
  AddUint8 :: "'b \<Rightarrow> byte \<Rightarrow> 'b"
  AddUint16 :: "'b \<Rightarrow> u16 \<Rightarrow> 'b"
  AddUint24 :: "'b \<Rightarrow> u32 \<Rightarrow> 'b"
  AddBytes :: "'b \<Rightarrow> byte list \<Rightarrow> 'b"
  AddUint8LengthPrefixed :: "'b \<Rightarrow> ('b \<Rightarrow> 'b) \<Rightarrow> 'b"
  Bytes :: "'b \<Rightarrow> byte list outcome"
  StrReadUint8 :: "byte list \<Rightarrow> (byte \<times> byte list) option"
  StrReadUint16 :: "byte list \<Rightarrow> (u16 \<times> byte list) option"
  StrReadBytes :: "byte list \<Rightarrow> nat \<Rightarrow> (byte list \<times> byte list) option"

text \<open>What a fixed builder holds: its capacity and the bytes so far, or \<open>None\<close> after an error.\<close>

type_synonym builder_view = "(nat \<times> byte list) option"

fun put :: "byte list \<Rightarrow> builder_view \<Rightarrow> builder_view" where
  "put bs None = None"
| "put bs (Some (n, xs)) = (if length xs + length bs \<le> n then Some (n, xs @ bs) else None)"

lemma put_put [wire]: "put cs (put bs v) = put (bs @ cs) v"
  by (cases v) auto

lemma put_Nil: "put [] (Some (n, xs)) = (if length xs \<le> n then Some (n, xs) else None)"
  by simp

lemma put_fits: "length bs \<le> n \<Longrightarrow> put bs (Some (n, [])) = Some (n, bs)"
  by simp

lemma put_overflow: "n < length bs \<Longrightarrow> put bs (Some (n, [])) = None"
  by simp

section \<open>The documented laws\<close>

locale cryptobyte_laws =
  fixes cb :: "'b cryptobyte"
    and view :: "'b \<Rightarrow> builder_view"
  assumes view_new: "view (NewFixedBuilder cb n) = Some (n, [])"
    and view_u8: "view (AddUint8 cb b w) = put [w] (view b)"
    and view_u16: "view (AddUint16 cb b v) = put (be16 v) (view b)"
    and view_u24: "view (AddUint24 cb b x) = put (be24 x) (view b)"
    and view_bytes: "view (AddBytes cb b bs) = put bs (view b)"
    and view_prefixed: "(\<And>c. view (f c) = put bs (view c)) \<Longrightarrow> length bs \<le> 255 \<Longrightarrow>
          view (AddUint8LengthPrefixed cb b f) = put (of_nat (length bs) # bs) (view b)"
    and bytes_ok: "view b = Some (n, xs) \<Longrightarrow> Bytes cb b = Ok xs"
    and bytes_err: "view b = None \<Longrightarrow> Bytes cb b = Err BuilderError"
    and str_u8: "StrReadUint8 cb s = (case s of [] \<Rightarrow> None | x # xs \<Rightarrow> Some (x, xs))"
    and str_u16: "StrReadUint16 cb s = (case s of
          x # y # xs \<Rightarrow> Some (push_bit 8 (ucast x) OR ucast y, xs) | _ \<Rightarrow> None)"
    and str_bytes: "StrReadBytes cb s k = (if k \<le> length s then Some (take k s, drop k s) else None)"
begin

lemmas view_simps = view_new view_u8 view_u16 view_u24 view_bytes put_put

lemma str_u8_Cons [simp]: "StrReadUint8 cb (w # s) = Some (w, s)"
  by (simp add: str_u8)

lemma str_u16_be16 [simp]: "StrReadUint16 cb (be16 v @ s) = Some (v, s)"
  by (simp add: str_u16 be16_def be16_join)

lemma str_u16_be16_Nil [simp]: "StrReadUint16 cb (be16 v) = Some (v, [])"
  using str_u16_be16 [of v "[]"] by simp

lemma str_bytes_append [simp]: "length xs = k \<Longrightarrow> StrReadBytes cb (xs @ s) k = Some (xs, s)"
  by (simp add: str_bytes)

lemma bytes_fits:
  assumes "view b = put xs (Some (n, []))" and "length xs \<le> n"
  shows "Bytes cb b = Ok xs"
  by (rule bytes_ok [of b n]) (use assms in simp)

lemma bytes_overflow:
  assumes "view b = put xs (Some (n, []))" and "n < length xs"
  shows "Bytes cb b = Err BuilderError"
  by (rule bytes_err) (use assms in simp)

lemma bytes_put:
  "view b = put xs (Some (n, [])) \<Longrightarrow>
     Bytes cb b = (if length xs \<le> n then Ok xs else Err BuilderError)"
  by (cases "length xs \<le> n") (auto simp: bytes_fits bytes_overflow not_le simp del: put.simps)

end

section \<open>A reference builder\<close>

text \<open>A builder that is its own view; the instance the witnesses evaluate.\<close>

definition ref_prefixed :: "builder_view \<Rightarrow> (builder_view \<Rightarrow> builder_view) \<Rightarrow> builder_view" where
  "ref_prefixed b f = (case b of None \<Rightarrow> None | Some (n, xs) \<Rightarrow>
     (case f (Some (n - length xs - 1, [])) of None \<Rightarrow> None | Some (_, bs) \<Rightarrow>
        if length bs \<le> 255 then put (of_nat (length bs) # bs) b else None))"

definition ref_cb :: "builder_view cryptobyte" where
  "ref_cb = \<lparr>
     NewFixedBuilder = (\<lambda>n. Some (n, [])),
     AddUint8 = (\<lambda>b w. put [w] b),
     AddUint16 = (\<lambda>b v. put (be16 v) b),
     AddUint24 = (\<lambda>b v. put (be24 v) b),
     AddBytes = (\<lambda>b bs. put bs b),
     AddUint8LengthPrefixed = ref_prefixed,
     Bytes = (\<lambda>b. case b of None \<Rightarrow> Err BuilderError | Some (_, xs) \<Rightarrow> Ok xs),
     StrReadUint8 = (\<lambda>s. case s of [] \<Rightarrow> None | x # xs \<Rightarrow> Some (x, xs)),
     StrReadUint16 = (\<lambda>s. case s of
        x # y # xs \<Rightarrow> Some (push_bit 8 (ucast x) OR ucast y, xs) | _ \<Rightarrow> None),
     StrReadBytes = (\<lambda>s k. if k \<le> length s then Some (take k s, drop k s) else None) \<rparr>"

lemma ref_prefixed_put:
  assumes "\<And>c. f c = put bs c" and "length bs \<le> 255"
  shows "ref_prefixed b f = put (of_nat (length bs) # bs) b"
  using assms by (auto simp: ref_prefixed_def split: option.splits if_splits)

lemma cryptobyte_laws_ref: "cryptobyte_laws ref_cb (\<lambda>b. b)"
  by unfold_locales (simp_all add: ref_cb_def ref_prefixed_put)

interpretation ref: cryptobyte_laws ref_cb "\<lambda>b. b"
  by (rule cryptobyte_laws_ref)

end
