(* ===== verification/Cyberbyte.thy ===== *)
theory Cyberbyte
  imports Prelude
begin

text \<open>
  cyberbyte/string.go: the \<open>String\<close> that decodes fixed-length and length-prefixed values
  from an \<open>io.Reader\<close>. The reader is an argument \<open>rd\<close>: \<open>rd r n\<close> is \<open>Read\<close> on a buffer of
  \<open>n\<close> bytes, the bytes it filled in and the reader after the call. What a decoder needs of
  the reader is the locale \<open>byte_source\<close>; \<open>stream_source\<close> adds that reading nothing always
  succeeds, which a byte stream promises and \<open>bytes.Reader\<close> at its end does not.
\<close>

type_synonym 'r reader = "'r \<Rightarrow> nat \<Rightarrow> byte list outcome \<times> 'r"

section \<open>The methods of String\<close>

definition cy_read :: "'r reader \<Rightarrow> nat \<Rightarrow> ('r, byte list) parser" where
  "cy_read rd n = bindM (\<lambda>r. rd r n)
     (\<lambda>buf. if length buf \<noteq> n then failM (ShortRead (length buf) n) else returnM buf)"

definition cy_Skip :: "'r reader \<Rightarrow> nat \<Rightarrow> ('r, unit) parser" where
  "cy_Skip rd n = bindM (cy_read rd n) (\<lambda>_. returnM ())"

text \<open>The indexed reads \<open>v[i]\<close> are in range because \<open>cy_read\<close> returns exactly \<open>n\<close> bytes.\<close>

definition cy_ReadUint8 :: "'r reader \<Rightarrow> ('r, byte) parser" where
  "cy_ReadUint8 rd = bindM (cy_read rd 1) (\<lambda>v. returnM (v ! 0))"

definition cy_ReadUint16 :: "'r reader \<Rightarrow> ('r, u16) parser" where
  "cy_ReadUint16 rd = bindM (cy_read rd 2)
     (\<lambda>v. returnM (push_bit 8 (ucast (v ! 0)) OR ucast (v ! 1)))"

definition cy_ReadUint24 :: "'r reader \<Rightarrow> ('r, u32) parser" where
  "cy_ReadUint24 rd = bindM (cy_read rd 3)
     (\<lambda>v. returnM (push_bit 16 (ucast (v ! 0)) OR push_bit 8 (ucast (v ! 1)) OR ucast (v ! 2)))"

definition cy_ReadUint32 :: "'r reader \<Rightarrow> ('r, u32) parser" where
  "cy_ReadUint32 rd = bindM (cy_read rd 4)
     (\<lambda>v. returnM (push_bit 24 (ucast (v ! 0)) OR push_bit 16 (ucast (v ! 1))
        OR push_bit 8 (ucast (v ! 2)) OR ucast (v ! 3)))"

definition cy_ReadUint64 :: "'r reader \<Rightarrow> ('r, u64) parser" where
  "cy_ReadUint64 rd = bindM (cy_read rd 8)
     (\<lambda>v. returnM (push_bit 56 (ucast (v ! 0)) OR push_bit 48 (ucast (v ! 1))
        OR push_bit 40 (ucast (v ! 2)) OR push_bit 32 (ucast (v ! 3))
        OR push_bit 24 (ucast (v ! 4)) OR push_bit 16 (ucast (v ! 5))
        OR push_bit 8 (ucast (v ! 6)) OR ucast (v ! 7)))"

fun prefix_length :: "u32 \<Rightarrow> byte list \<Rightarrow> u32" where
  "prefix_length len [] = len"
| "prefix_length len (b # bs) = prefix_length (push_bit 8 len OR ucast b) bs"

definition cy_readLengthPrefixed :: "'r reader \<Rightarrow> nat \<Rightarrow> ('r, byte list) parser" where
  "cy_readLengthPrefixed rd lenLen = bindM (cy_read rd lenLen)
     (\<lambda>lenBytes. cy_read rd (unat (prefix_length 0 lenBytes)))"

definition cy_ReadUint8LengthPrefixedBytes :: "'r reader \<Rightarrow> ('r, byte list) parser" where
  "cy_ReadUint8LengthPrefixedBytes rd = cy_readLengthPrefixed rd 1"

definition cy_ReadUint16LengthPrefixedBytes :: "'r reader \<Rightarrow> ('r, byte list) parser" where
  "cy_ReadUint16LengthPrefixedBytes rd = cy_readLengthPrefixed rd 2"

definition cy_ReadUint24LengthPrefixedBytes :: "'r reader \<Rightarrow> ('r, byte list) parser" where
  "cy_ReadUint24LengthPrefixedBytes rd = cy_readLengthPrefixed rd 3"

definition cy_ReadBytes :: "'r reader \<Rightarrow> nat \<Rightarrow> ('r, byte list) parser" where
  "cy_ReadBytes rd n = cy_read rd n"

text \<open>\<open>CopyBytes\<close> fills its argument; the new contents are the result.\<close>

definition cy_CopyBytes :: "'r reader \<Rightarrow> byte list \<Rightarrow> ('r, byte list) parser" where
  "cy_CopyBytes rd out = bindM (cy_read rd (length out))
     (\<lambda>v. if min (length out) (length v) \<noteq> length out then failM (New ''short copy'') else returnM v)"

section \<open>Sources of bytes\<close>

locale byte_source =
  fixes rd :: "'r reader" and avail :: "'r \<Rightarrow> byte list"
  assumes read_pos: "0 < n \<Longrightarrow> n \<le> length (avail r) \<Longrightarrow>
     \<exists>r'. rd r n = (Ok (take n (avail r)), r') \<and> avail r' = drop n (avail r)"
begin

lemma parses_read_pos: "xs \<noteq> [] \<Longrightarrow> parses avail (cy_read rd (length xs)) xs xs"
proof (rule parsesI)
  fix r rest assume "xs \<noteq> []" and "avail r = xs @ rest"
  then obtain r' where "rd r (length xs) = (Ok xs, r')" "avail r' = rest"
    using read_pos [of "length xs" r] by auto
  then show "\<exists>r'. cy_read rd (length xs) r = (Ok xs, r') \<and> avail r' = rest"
    by (simp add: cy_read_def bindM_def returnM_def)
qed

lemma parses_read_bind:
  assumes "length xs = n" and "0 < n" and "f xs = returnM y"
  shows "parses avail (bindM (cy_read rd n) f) xs y"
proof (rule parses_bind_eq)
  show "parses avail (cy_read rd n) xs xs"
    using parses_read_pos [of xs] assms(1,2) by auto
  show "parses avail (f xs) [] y" using assms(3) by (simp add: parses_return)
qed simp

lemma parses_u8 [parsing]: "parses avail (cy_ReadUint8 rd) [w] w"
  unfolding cy_ReadUint8_def by (rule parses_read_bind) simp_all

lemma parses_u16 [parsing]: "parses avail (cy_ReadUint16 rd) (be16 v) v"
  unfolding cy_ReadUint16_def by (rule parses_read_bind) (simp_all add: be16_def be16_join)

lemma parses_u24 [parsing]:
  "unat x < 2 ^ 24 \<Longrightarrow> parses avail (cy_ReadUint24 rd) (be24 x) x"
  unfolding cy_ReadUint24_def
  by (rule parses_read_bind) (simp_all add: be24_def be24_join or.assoc)

lemma parses_u64 [parsing]: "parses avail (cy_ReadUint64 rd) (be64 x) x"
  unfolding cy_ReadUint64_def
  by (rule parses_read_bind) (simp_all add: be64_def be64_join or.assoc)

lemma parses_bytes_pos: "length xs = n \<Longrightarrow> 0 < n \<Longrightarrow> parses avail (cy_ReadBytes rd n) xs xs"
  using parses_read_pos [of xs] by (auto simp: cy_ReadBytes_def)

end

locale stream_source = byte_source +
  assumes read_zero: "\<exists>r'. rd r 0 = (Ok [], r') \<and> avail r' = avail r"
begin

lemma parses_read [parsing]:
  assumes "length xs = n"
  shows "parses avail (cy_read rd n) xs xs"
proof (cases "xs = []")
  case True
  show ?thesis
  proof (rule parsesI)
    fix r rest assume "avail r = xs @ rest"
    with True read_zero [of r] assms show "\<exists>r'. cy_read rd n r = (Ok xs, r') \<and> avail r' = rest"
      by (auto simp: cy_read_def bindM_def returnM_def)
  qed
next
  case False
  then show ?thesis using parses_read_pos [of xs] assms by simp
qed

lemma parses_bytes [parsing]: "length xs = n \<Longrightarrow> parses avail (cy_ReadBytes rd n) xs xs"
  by (simp add: cy_ReadBytes_def parses_read)

lemma parses_u8_prefixed [parsing]:
  assumes "length xs \<le> 255"
  shows "parses avail (cy_ReadUint8LengthPrefixedBytes rd) (of_nat (length xs) # xs) xs"
  unfolding cy_ReadUint8LengthPrefixedBytes_def cy_readLengthPrefixed_def
proof (rule parses_bind_eq)
  show "parses avail (cy_read rd 1) [of_nat (length xs)] [of_nat (length xs)]"
    by (rule parses_read) simp
  have "unat (prefix_length 0 [of_nat (length xs)]) = length xs"
    using assms by (simp add: unat_of_nat unsigned_ucast_eq take_bit_nat_eq_self)
  then show "parses avail (cy_read rd (unat (prefix_length 0 [of_nat (length xs)]))) xs xs"
    by (simp add: parses_read)
qed simp

end

section \<open>bytes.Reader\<close>

text \<open>
  \<open>bytes.Reader\<close> of the standard library, as the bytes not read yet: at its end every
  \<open>Read\<close> is \<open>io.EOF\<close>, before it a \<open>Read\<close> returns at most the bytes that are left.
\<close>

definition bytesReader :: "byte list reader" where
  "bytesReader s n = (if s = [] then (Err EOF, s) else (Ok (take n s), drop n s))"

interpretation bytes_reader: byte_source bytesReader "\<lambda>s. s"
  by unfold_locales (auto simp: bytesReader_def)

definition cy_ReadUint8LengthPrefixed :: "'r reader \<Rightarrow> ('r, byte list) parser" where
  "cy_ReadUint8LengthPrefixed rd = bindM (cy_readLengthPrefixed rd 1) returnM"

definition cy_ReadUint16LengthPrefixed :: "'r reader \<Rightarrow> ('r, byte list) parser" where
  "cy_ReadUint16LengthPrefixed rd = bindM (cy_readLengthPrefixed rd 2) returnM"

definition cy_ReadUint24LengthPrefixed :: "'r reader \<Rightarrow> ('r, byte list) parser" where
  "cy_ReadUint24LengthPrefixed rd = bindM (cy_readLengthPrefixed rd 3) returnM"

end
