(* ===== verification/Btp_Messages.thy ===== *)
theory Btp_Messages
  imports Cryptobyte Cyberbyte
begin

text \<open>
  btp/messages: the packets of the transport layer, their sizes, \<open>Marshal\<close> and \<open>Unmarshal\<close>,
  and the decoding half of \<open>Conn.recv\<close>. \<open>btp_wire\<close> is the wire format as a plain function; the
  marshalling code produces it within the buffer \<open>Size\<close> computes, and decoding a received
  datagram gives the message back.
\<close>

section \<open>Constants and headers (messages.go)\<close>

definition ProtocolVersionBTPv0 :: byte where "ProtocolVersionBTPv0 = push_bit 5 (0 + 1)"
definition ProtocolVersionBTPv1 :: byte where "ProtocolVersionBTPv1 = push_bit 5 (1 + 1)"

definition MessageTypeConn :: byte where "MessageTypeConn = 0 + 1"
definition MessageTypeConnAck :: byte where "MessageTypeConnAck = 1 + 1"
definition MessageTypeAck :: byte where "MessageTypeAck = 2 + 1"
definition MessageTypeData :: byte where "MessageTypeData = 3 + 1"
definition MessageTypeClose :: byte where "MessageTypeClose = 4 + 1"

definition HeaderSize :: nat where "HeaderSize = 4"
definition AckSize :: nat where "AckSize = 2"
definition ConnSize :: nat where "ConnSize = 4"
definition ConnAckSize :: nat where "ConnAckSize = 8"
definition CloseSize :: nat where "CloseSize = 1"
definition DataSize :: nat where "DataSize = 2"
definition HeaderProtocolVersionMask :: byte where "HeaderProtocolVersionMask = 0xE0"
definition HeaderMessageTypeMask :: byte where "HeaderMessageTypeMask = 0x1F"

lemmas btp_sizes = HeaderSize_def AckSize_def ConnSize_def ConnAckSize_def CloseSize_def DataSize_def
lemmas btp_types = MessageTypeConn_def MessageTypeConnAck_def MessageTypeAck_def
  MessageTypeData_def MessageTypeClose_def
lemmas btp_consts = ProtocolVersionBTPv1_def HeaderProtocolVersionMask_def
  HeaderMessageTypeMask_def btp_types

definition MessageType_String :: "byte \<Rightarrow> string" where
  "MessageType_String m =
     (if m = MessageTypeAck then ''Ack''
      else if m = MessageTypeConn then ''Conn''
      else if m = MessageTypeConnAck then ''ConnAck''
      else if m = MessageTypeData then ''Data''
      else if m = MessageTypeClose then ''Close''
      else ''unknown'')"

record PacketHeader =
  ProtocolType :: byte
  MessageType :: byte
  SeqNr :: u16
  Flags :: byte

definition zeroHeader :: PacketHeader where
  "zeroHeader = \<lparr>ProtocolType = 0, MessageType = 0, SeqNr = 0, Flags = 0\<rparr>"

section \<open>The messages\<close>

record MsgAck =
  ack_Header :: PacketHeader

record MsgConn =
  conn_Header :: PacketHeader
  conn_MaxPacketSize :: u16
  conn_InitCwndSize :: byte
  conn_MaxCwndSize :: byte

record MsgConnAck =
  connack_Header :: PacketHeader
  ServerSeqNr :: u16
  ActualPacketSize :: u16
  ActualInitCwndSize :: byte
  ActualMaxCwndSize :: byte
  MigrationPort :: u16

record MsgData =
  data_Header :: PacketHeader
  Payload :: "byte list"

record MsgClose =
  close_Header :: PacketHeader
  Reason :: byte
  Raw :: "byte list"

definition CloseResonsDisconnect :: byte where "CloseResonsDisconnect = 0 + 1"
definition CloseReasonBadRequest :: byte where "CloseReasonBadRequest = 1 + 1"
definition CloseResonsTimeout :: byte where "CloseResonsTimeout = 2 + 1"

text \<open>The implementations of the interface \<open>Codable\<close>.\<close>

datatype Codable = MAck MsgAck | MConn MsgConn | MConnAck MsgConnAck | MData MsgData | MClose MsgClose

fun Size :: "Codable \<Rightarrow> nat" where
  "Size (MAck p) = HeaderSize + AckSize"
| "Size (MConn p) = HeaderSize + ConnSize"
| "Size (MConnAck p) = HeaderSize + ConnAckSize"
| "Size (MData p) = HeaderSize + DataSize + length (Payload p)"
| "Size (MClose p) = HeaderSize + CloseSize"

fun GetHeader :: "Codable \<Rightarrow> PacketHeader" where
  "GetHeader (MAck p) = ack_Header p"
| "GetHeader (MConn p) = conn_Header p"
| "GetHeader (MConnAck p) = connack_Header p"
| "GetHeader (MData p) = data_Header p"
| "GetHeader (MClose p) = close_Header p"

fun SetHeader :: "Codable \<Rightarrow> PacketHeader \<Rightarrow> Codable" where
  "SetHeader (MAck p) h = MAck (p\<lparr>ack_Header := h\<rparr>)"
| "SetHeader (MConn p) h = MConn (p\<lparr>conn_Header := h\<rparr>)"
| "SetHeader (MConnAck p) h = MConnAck (p\<lparr>connack_Header := h\<rparr>)"
| "SetHeader (MData p) h = MData (p\<lparr>data_Header := h\<rparr>)"
| "SetHeader (MClose p) h = MClose (p\<lparr>close_Header := h\<rparr>)"

definition SetSeqNr :: "Codable \<Rightarrow> u16 \<Rightarrow> Codable" where
  "SetSeqNr p n = SetHeader p ((GetHeader p)\<lparr>SeqNr := n\<rparr>)"

definition NewData :: "byte list \<Rightarrow> MsgData" where
  "NewData b = \<lparr>data_Header = zeroHeader\<lparr>ProtocolType := ProtocolVersionBTPv1,
     MessageType := MessageTypeData\<rparr>, Payload = b\<rparr>"

lemma GetHeader_SetHeader [simp]: "GetHeader (SetHeader p h) = h"
  by (cases p) simp_all

lemma Size_SetHeader [simp]: "Size (SetHeader p h) = Size p"
  by (cases p) simp_all

section \<open>Marshal\<close>

definition marshalHeader :: "'b cryptobyte \<Rightarrow> 'b \<Rightarrow> PacketHeader \<Rightarrow> 'b" where
  "marshalHeader cb b h =
     (let t = ProtocolType h OR MessageType h;
          b1 = AddUint8 cb b t;
          b2 = AddUint16 cb b1 (SeqNr h)
      in AddUint8 cb b2 (Flags h))"

definition createPacketBuilder :: "'b cryptobyte \<Rightarrow> Codable \<Rightarrow> 'b" where
  "createPacketBuilder cb p = marshalHeader cb (NewFixedBuilder cb (Size p)) (GetHeader p)"

definition Ack_Marshal :: "'b cryptobyte \<Rightarrow> MsgAck \<Rightarrow> byte list outcome" where
  "Ack_Marshal cb p = Bytes cb (createPacketBuilder cb (MAck p))"

definition Conn_Marshal :: "'b cryptobyte \<Rightarrow> MsgConn \<Rightarrow> byte list outcome" where
  "Conn_Marshal cb p =
     (let b = createPacketBuilder cb (MConn p);
          b = AddUint16 cb b (conn_MaxPacketSize p);
          b = AddUint8 cb b (conn_InitCwndSize p);
          b = AddUint8 cb b (conn_MaxCwndSize p)
      in Bytes cb b)"

definition ConnAck_Marshal :: "'b cryptobyte \<Rightarrow> MsgConnAck \<Rightarrow> byte list outcome" where
  "ConnAck_Marshal cb p =
     (let b = createPacketBuilder cb (MConnAck p);
          b = AddUint16 cb b (ServerSeqNr p);
          b = AddUint16 cb b (ActualPacketSize p);
          b = AddUint8 cb b (ActualInitCwndSize p);
          b = AddUint8 cb b (ActualMaxCwndSize p);
          b = AddUint16 cb b (MigrationPort p)
      in Bytes cb b)"

definition Data_Marshal :: "'b cryptobyte \<Rightarrow> MsgData \<Rightarrow> byte list outcome" where
  "Data_Marshal cb p =
     (let b = createPacketBuilder cb (MData p) in
      if length (Payload p) > 65535 then Err (EncodeError ''payload too large'')
      else
        (let b = AddUint16 cb b (of_nat (length (Payload p)));
             b = AddBytes cb b (Payload p)
         in Bytes cb b))"

definition Close_Marshal :: "'b cryptobyte \<Rightarrow> MsgClose \<Rightarrow> byte list outcome" where
  "Close_Marshal cb p =
     (let b = createPacketBuilder cb (MClose p);
          b = AddUint8 cb b (Reason p)
      in Bytes cb b)"

lemmas Marshal_defs = Ack_Marshal_def Conn_Marshal_def ConnAck_Marshal_def Data_Marshal_def Close_Marshal_def

text \<open>The method call on the interface \<open>Codable\<close>.\<close>

fun Marshal :: "'b cryptobyte \<Rightarrow> Codable \<Rightarrow> byte list outcome" where
  "Marshal cb (MAck p) = Ack_Marshal cb p"
| "Marshal cb (MConn p) = Conn_Marshal cb p"
| "Marshal cb (MConnAck p) = ConnAck_Marshal cb p"
| "Marshal cb (MData p) = Data_Marshal cb p"
| "Marshal cb (MClose p) = Close_Marshal cb p"

section \<open>Unmarshal\<close>

fun orDecodeError :: "string \<Rightarrow> 'a option \<Rightarrow> 'a outcome" where
  "orDecodeError f None = Err (DecodeError f)"
| "orDecodeError f (Some x) = Ok x"

text \<open>\<open>readPacketBuffer\<close> reads \<open>p.Size() - HeaderSize\<close> bytes; \<open>n\<close> is that number.\<close>

definition readPacketBuffer :: "nat \<Rightarrow> (byte list, byte list) parser" where
  "readPacketBuffer n = bindM (\<lambda>r. bytesReader r n)
     (\<lambda>buf. if length buf \<noteq> n then failM UnexpectedEOF else returnM buf)"

definition Ack_Unmarshal :: "PacketHeader \<Rightarrow> (byte list, MsgAck) parser" where
  "Ack_Unmarshal h = returnM \<lparr>ack_Header = h\<rparr>"

definition Conn_Unmarshal :: "'b cryptobyte \<Rightarrow> PacketHeader \<Rightarrow> (byte list, MsgConn) parser" where
  "Conn_Unmarshal cb h = bindM (readPacketBuffer ConnSize) (\<lambda>buf. liftO
     (bindO (orDecodeError ''MaxPacketSize'' (StrReadUint16 cb buf)) (\<lambda>(mps, b).
      bindO (orDecodeError ''InitCwndSize'' (StrReadUint8 cb b)) (\<lambda>(ics, b).
      bindO (orDecodeError ''MaxCwndSize'' (StrReadUint8 cb b)) (\<lambda>(mcs, b).
      Ok \<lparr>conn_Header = h, conn_MaxPacketSize = mps, conn_InitCwndSize = ics,
          conn_MaxCwndSize = mcs\<rparr>)))))"

definition ConnAck_Unmarshal :: "'b cryptobyte \<Rightarrow> PacketHeader \<Rightarrow> (byte list, MsgConnAck) parser" where
  "ConnAck_Unmarshal cb h = bindM (readPacketBuffer ConnAckSize) (\<lambda>buf. liftO
     (bindO (orDecodeError ''ServerSeqNr'' (StrReadUint16 cb buf)) (\<lambda>(ssn, b).
      bindO (orDecodeError ''ActualPacketSize'' (StrReadUint16 cb b)) (\<lambda>(aps, b).
      bindO (orDecodeError ''ActualInitCwndSize'' (StrReadUint8 cb b)) (\<lambda>(ais, b).
      bindO (orDecodeError ''ActualMaxCwndSize'' (StrReadUint8 cb b)) (\<lambda>(ams, b).
      bindO (orDecodeError ''MigrationPort'' (StrReadUint16 cb b)) (\<lambda>(mp, b).
      Ok \<lparr>connack_Header = h, ServerSeqNr = ssn, ActualPacketSize = aps,
          ActualInitCwndSize = ais, ActualMaxCwndSize = ams, MigrationPort = mp\<rparr>)))))))"

definition Data_Unmarshal :: "'b cryptobyte \<Rightarrow> PacketHeader \<Rightarrow> (byte list, MsgData) parser" where
  "Data_Unmarshal cb h = bindM (readPacketBuffer DataSize) (\<lambda>buf.
     bindM (liftO (orDecodeError ''length'' (StrReadUint16 cb buf))) (\<lambda>(len, _).
     if len = 0 then returnM \<lparr>data_Header = h, Payload = []\<rparr>
     else bindM (\<lambda>r. bytesReader r (unat len)) (\<lambda>payloadBuf.
       if length payloadBuf \<noteq> unat len then failM UnexpectedEOF
       else liftO (bindO (orDecodeError ''payload'' (StrReadBytes cb payloadBuf (unat len)))
         (\<lambda>(pl, _). Ok \<lparr>data_Header = h, Payload = pl\<rparr>)))))"

definition Close_Unmarshal :: "'b cryptobyte \<Rightarrow> PacketHeader \<Rightarrow> (byte list, MsgClose) parser" where
  "Close_Unmarshal cb h = bindM (readPacketBuffer CloseSize) (\<lambda>buf. liftO
     (bindO (orDecodeError ''Reason'' (StrReadUint8 cb buf)) (\<lambda>(r, b).
      Ok \<lparr>close_Header = h, Reason = r, Raw = buf\<rparr>)))"

definition ParseHeader :: "'b cryptobyte \<Rightarrow> byte list \<Rightarrow> PacketHeader outcome" where
  "ParseHeader cb buf =
     (case StrReadUint8 cb buf of None \<Rightarrow> Err (New ''failed to read protocol type'')
      | Some (t, s) \<Rightarrow>
        (let h = zeroHeader\<lparr>ProtocolType := t AND HeaderProtocolVersionMask,
                            MessageType := t AND HeaderMessageTypeMask\<rparr> in
         case StrReadUint16 cb s of None \<Rightarrow> Err (DecodeError ''sequence number'')
         | Some (n, _) \<Rightarrow>
           (let h = h\<lparr>SeqNr := n\<rparr> in
            if ProtocolType h \<noteq> ProtocolVersionBTPv1
            then Err (DecodeError ''protocol version missmatch'') else Ok h)))"

definition ReadHeader :: "'b cryptobyte \<Rightarrow> (byte list, PacketHeader) parser" where
  "ReadHeader cb = bindM (\<lambda>r. bytesReader r HeaderSize)
     (\<lambda>buf. if length buf \<noteq> HeaderSize then failM UnexpectedEOF else liftO (ParseHeader cb buf))"

definition mapM :: "('a \<Rightarrow> 'c) \<Rightarrow> ('r, 'a) parser \<Rightarrow> ('r, 'c) parser" where
  "mapM f m = bindM m (\<lambda>x. returnM (f x))"

text \<open>The switch on the header's type that \<open>Conn.recv\<close> makes, and the call of \<open>Unmarshal\<close>.\<close>

definition unmarshalAs :: "'b cryptobyte \<Rightarrow> PacketHeader \<Rightarrow> (byte list, Codable) parser" where
  "unmarshalAs cb h =
     (if MessageType h = MessageTypeAck then mapM MAck (Ack_Unmarshal h)
      else if MessageType h = MessageTypeConn then mapM MConn (Conn_Unmarshal cb h)
      else if MessageType h = MessageTypeConnAck then mapM MConnAck (ConnAck_Unmarshal cb h)
      else if MessageType h = MessageTypeData then mapM MData (Data_Unmarshal cb h)
      else if MessageType h = MessageTypeClose then mapM MClose (Close_Unmarshal cb h)
      else failM (New ''unexpected message type''))"

text \<open>
  What \<open>recv\<close> does with the result of the UDP read: the datagram is copied into a zeroed buffer
  of \<open>ReadBufferCap\<close> bytes (longer datagrams are cut), and the whole buffer is decoded.
\<close>

definition recvDecode :: "'b cryptobyte \<Rightarrow> nat \<Rightarrow> byte list \<Rightarrow> Codable outcome" where
  "recvDecode cb cap datagram =
     (let n = min (length datagram) cap;
          buf = take cap datagram @ replicate (cap - n) 0
      in if n < HeaderSize then Err UnexpectedEOF
         else bindO (ParseHeader cb buf)
           (\<lambda>h. fst (unmarshalAs cb h (drop HeaderSize buf))))"

section \<open>The wire format\<close>

definition header_wire :: "PacketHeader \<Rightarrow> byte list" where
  "header_wire h = (ProtocolType h OR MessageType h) # be16 (SeqNr h) @ [Flags h]"

fun body_wire :: "Codable \<Rightarrow> byte list" where
  "body_wire (MAck p) = []"
| "body_wire (MConn p) = be16 (conn_MaxPacketSize p) @ [conn_InitCwndSize p, conn_MaxCwndSize p]"
| "body_wire (MConnAck p) = be16 (ServerSeqNr p) @ be16 (ActualPacketSize p)
     @ [ActualInitCwndSize p, ActualMaxCwndSize p] @ be16 (MigrationPort p)"
| "body_wire (MData p) = be16 (of_nat (length (Payload p))) @ Payload p"
| "body_wire (MClose p) = [Reason p]"

definition btp_wire :: "Codable \<Rightarrow> byte list" where
  "btp_wire m = header_wire (GetHeader m) @ body_wire m"

lemma length_header_wire [simp, wire]: "length (header_wire h) = HeaderSize"
  by (simp add: header_wire_def HeaderSize_def)

lemma length_btp_wire [wire]:
  "length (btp_wire m) = (case m of MAck _ \<Rightarrow> HeaderSize | _ \<Rightarrow> Size m)"
  by (cases m) (simp_all add: btp_wire_def btp_sizes)

fun payload_fits :: "Codable \<Rightarrow> bool" where
  "payload_fits (MData p) = (length (Payload p) \<le> 65535)"
| "payload_fits _ = True"

context cryptobyte_laws
begin

lemma view_createPacketBuilder:
  "view (createPacketBuilder cb p) = put (header_wire (GetHeader p)) (Some (Size p, []))"
  by (simp add: createPacketBuilder_def marshalHeader_def Let_def view_simps header_wire_def
      del: put.simps)

lemma Marshal_wire: "payload_fits m \<Longrightarrow> Marshal cb m = Ok (btp_wire m)"
  by (cases m)
    (auto simp: Marshal_defs Let_def btp_wire_def btp_sizes view_createPacketBuilder view_simps
      intro!: bytes_fits simp del: put.simps)

lemma Marshal_too_large: "\<not> payload_fits m \<Longrightarrow> Marshal cb m = Err (EncodeError ''payload too large'')"
  by (cases m) (auto simp: Marshal_defs Let_def)

end

section \<open>Decoding what was marshalled\<close>

fun kind_ok :: "Codable \<Rightarrow> bool" where
  "kind_ok (MAck p) = (MessageType (ack_Header p) = MessageTypeAck)"
| "kind_ok (MConn p) = (MessageType (conn_Header p) = MessageTypeConn)"
| "kind_ok (MConnAck p) = (MessageType (connack_Header p) = MessageTypeConnAck)"
| "kind_ok (MData p) = (MessageType (data_Header p) = MessageTypeData)"
| "kind_ok (MClose p) = (MessageType (close_Header p) = MessageTypeClose)"

text \<open>A message the code builds: its header names its kind and version 1, its payload fits.\<close>

definition sendable :: "Codable \<Rightarrow> bool" where
  "sendable m \<longleftrightarrow> kind_ok m \<and> ProtocolType (GetHeader m) = ProtocolVersionBTPv1 \<and> payload_fits m"

text \<open>What the receiver sees: the reserved \<open>Flags\<close> are not parsed, \<open>Close\<close> keeps its raw bytes.\<close>

fun received :: "Codable \<Rightarrow> Codable" where
  "received (MClose p) = MClose (p\<lparr>close_Header := (close_Header p)\<lparr>Flags := 0\<rparr>, Raw := [Reason p]\<rparr>)"
| "received m = SetHeader m ((GetHeader m)\<lparr>Flags := 0\<rparr>)"

lemma header_mask:
  assumes "P = ProtocolVersionBTPv1" and "M \<in> {MessageTypeConn, MessageTypeConnAck, MessageTypeAck,
      MessageTypeData, MessageTypeClose}"
  shows "(P OR M) AND HeaderProtocolVersionMask = P \<and> (P OR M) AND HeaderMessageTypeMask = M"
  using assms by (auto simp: btp_consts)

lemma kind_ok_type: "kind_ok m \<Longrightarrow> MessageType (GetHeader m) \<in> {MessageTypeConn, MessageTypeConnAck,
    MessageTypeAck, MessageTypeData, MessageTypeClose}"
  by (cases m) simp_all

context cryptobyte_laws
begin

lemma ParseHeader_wire:
  assumes "sendable m"
  shows "ParseHeader cb (header_wire (GetHeader m) @ rest) = Ok ((GetHeader m)\<lparr>Flags := 0\<rparr>)"
proof -
  let ?h = "GetHeader m"
  have "(ProtocolType ?h OR MessageType ?h) AND HeaderProtocolVersionMask = ProtocolType ?h
      \<and> (ProtocolType ?h OR MessageType ?h) AND HeaderMessageTypeMask = MessageType ?h"
    using assms kind_ok_type header_mask unfolding sendable_def by metis
  with assms show ?thesis
    by (simp add: ParseHeader_def header_wire_def zeroHeader_def sendable_def)
qed

end

lemma parses_readPacketBuffer [parsing]:
  assumes "length xs = n" and "0 < n"
  shows "parses (\<lambda>s. s) (readPacketBuffer n) xs xs"
  using assms by (auto simp: parses_def readPacketBuffer_def bindM_def bytesReader_def returnM_def)

lemma parses_mapM [parsing]: "parses avail m bs x \<Longrightarrow> parses avail (mapM f m) bs (f x)"
  unfolding mapM_def by (rule parses_bind_eq) (auto intro: parses_return)

context cryptobyte_laws
begin

lemma parses_Conn:
  "parses (\<lambda>s. s) (Conn_Unmarshal cb h) (body_wire (MConn p)) (p\<lparr>conn_Header := h\<rparr>)"
  unfolding Conn_Unmarshal_def
  by (rule parses_bind_eq [OF parses_readPacketBuffer, where cs = "[]"])
    (auto simp: btp_sizes intro!: parses_return_eq MsgConn.equality)

lemma parses_ConnAck:
  "parses (\<lambda>s. s) (ConnAck_Unmarshal cb h) (body_wire (MConnAck p)) (p\<lparr>connack_Header := h\<rparr>)"
  unfolding ConnAck_Unmarshal_def
  by (rule parses_bind_eq [OF parses_readPacketBuffer, where cs = "[]"])
    (auto simp: btp_sizes intro!: parses_return_eq MsgConnAck.equality)

lemma parses_Close:
  "parses (\<lambda>s. s) (Close_Unmarshal cb h) (body_wire (MClose p))
     (p\<lparr>close_Header := h, Raw := [Reason p]\<rparr>)"
  unfolding Close_Unmarshal_def
  by (rule parses_bind_eq [OF parses_readPacketBuffer, where cs = "[]"])
    (auto simp: btp_sizes intro!: parses_return_eq MsgClose.equality)

lemma parses_payload:
  assumes "length pl \<le> 65535"
  shows "parses (\<lambda>s. s) (if (of_nat (length pl) :: u16) = 0 then returnM \<lparr>data_Header = h, Payload = []\<rparr>
     else bindM (\<lambda>r. bytesReader r (unat (of_nat (length pl) :: u16))) (\<lambda>payloadBuf.
       if length payloadBuf \<noteq> unat (of_nat (length pl) :: u16) then failM UnexpectedEOF
       else liftO (bindO (orDecodeError ''payload'' (StrReadBytes cb payloadBuf (unat (of_nat (length pl) :: u16))))
         (\<lambda>(pl, _). Ok \<lparr>data_Header = h, Payload = pl\<rparr>)))) pl \<lparr>data_Header = h, Payload = pl\<rparr>"
proof -
  have u: "unat (of_nat (length pl) :: u16) = length pl"
    using assms by (simp add: unat_of_nat take_bit_nat_eq_self)
  show ?thesis
  proof (cases "pl = []")
    case False
    then have "(of_nat (length pl) :: u16) \<noteq> 0"
      using u by (metis length_0_conv unat_0)
    with False show ?thesis
      unfolding u by (auto simp: parses_def bindM_def bytesReader_def returnM_def str_bytes)
  qed (simp add: parses_return)
qed

lemma parses_Data:
  assumes "length (Payload p) \<le> 65535"
  shows "parses (\<lambda>s. s) (Data_Unmarshal cb h) (body_wire (MData p)) (p\<lparr>data_Header := h\<rparr>)"
  unfolding Data_Unmarshal_def
proof (rule parses_bind_eq [OF parses_readPacketBuffer [of "be16 (of_nat (length (Payload p)))"]])
  have p: "p\<lparr>data_Header := h\<rparr> = \<lparr>data_Header = h, Payload = Payload p\<rparr>" by simp
  show "parses (\<lambda>s. s) (bindM (liftO (orDecodeError ''length'' (StrReadUint16 cb
        (be16 (of_nat (length (Payload p)))))))
      (\<lambda>(len, _). if len = 0 then returnM \<lparr>data_Header = h, Payload = []\<rparr>
       else bindM (\<lambda>r. bytesReader r (unat len)) (\<lambda>payloadBuf.
         if length payloadBuf \<noteq> unat len then failM UnexpectedEOF
         else liftO (bindO (orDecodeError ''payload'' (StrReadBytes cb payloadBuf (unat len)))
           (\<lambda>(pl, _). Ok \<lparr>data_Header = h, Payload = pl\<rparr>)))))
      (Payload p) (p\<lparr>data_Header := h\<rparr>)"
    unfolding p
    by (rule parses_bind_eq [where bs = "[]"])
      (use parses_payload [OF assms] in \<open>auto intro: parses_return\<close>)
qed (simp_all add: btp_sizes)

lemma parses_body:
  assumes "sendable m"
  shows "parses (\<lambda>s. s) (unmarshalAs cb ((GetHeader m)\<lparr>Flags := 0\<rparr>)) (body_wire m) (received m)"
  using assms
proof (cases m)
  case (MAck p)
  with assms show ?thesis
    by (simp add: unmarshalAs_def sendable_def Ack_Unmarshal_def mapM_def bindM_def returnM_def parses_def)
next
  case (MConn p)
  with assms parses_mapM [where f = MConn, OF parses_Conn [of "(GetHeader m)\<lparr>Flags := 0\<rparr>" p]] show ?thesis
    by (simp add: unmarshalAs_def sendable_def btp_types)
next
  case (MConnAck p)
  with assms parses_mapM [where f = MConnAck, OF parses_ConnAck [of "(GetHeader m)\<lparr>Flags := 0\<rparr>" p]] show ?thesis
    by (simp add: unmarshalAs_def sendable_def btp_types)
next
  case (MData p)
  with assms parses_mapM [where f = MData, OF parses_Data [of p "(GetHeader m)\<lparr>Flags := 0\<rparr>"]] show ?thesis
    by (simp add: unmarshalAs_def sendable_def btp_types)
next
  case (MClose p)
  with assms parses_mapM [where f = MClose, OF parses_Close [of "(GetHeader m)\<lparr>Flags := 0\<rparr>" p]] show ?thesis
    by (simp add: unmarshalAs_def sendable_def btp_types)
qed

text \<open>A datagram that fits the receive buffer decodes to the message that was marshalled.\<close>

lemma recvDecode_wire:
  assumes "sendable m" and "length (btp_wire m) \<le> cap"
  shows "recvDecode cb cap (btp_wire m) = Ok (received m)"
proof -
  let ?pad = "replicate (cap - length (btp_wire m)) 0"
  have "HeaderSize \<le> length (btp_wire m)" by (simp add: btp_wire_def)
  moreover obtain s where "unmarshalAs cb ((GetHeader m)\<lparr>Flags := 0\<rparr>) (body_wire m @ ?pad) = (Ok (received m), s)"
    using parses_body [OF assms(1)] unfolding parses_def by blast
  moreover have "ParseHeader cb (btp_wire m @ ?pad) = Ok ((GetHeader m)\<lparr>Flags := 0\<rparr>)"
    using ParseHeader_wire [OF assms(1)] by (simp add: btp_wire_def)
  moreover have "drop HeaderSize (btp_wire m @ ?pad) = body_wire m @ ?pad"
    by (simp add: btp_wire_def drop_append_exact)
  ultimately show ?thesis
    using assms(2) by (simp add: recvDecode_def Let_def)
qed

end

text \<open>Two sendable messages with the same bytes are received as the same message.\<close>

lemma btp_wire_inject:
  assumes "sendable m" and "sendable m'" and "btp_wire m = btp_wire m'"
  shows "received m = received m'"
  using ref.recvDecode_wire [OF assms(1) order_refl] ref.recvDecode_wire [OF assms(2) order_refl]
    assms(3) by simp

end
