(* ===== verification/Packet_Number.thy ===== *)
theory Packet_Number
  imports Prelude
begin

text \<open>
  btp/packet_number.go: 16-bit packet numbers. The Go interface \<open>packetNumberGenerator\<close> is the
  locale \<open>packet_numbers\<close>; \<open>sequentialNumberGenerator\<close> implements it.
\<close>

record sequentialNumberGenerator =
  gen_next :: u16

definition Gen_Next :: "sequentialNumberGenerator \<Rightarrow> u16 \<times> sequentialNumberGenerator" where
  "Gen_Next s = (let n = gen_next s in (n, s\<lparr>gen_next := gen_next s + 1\<rparr>))"

definition Gen_Peek :: "sequentialNumberGenerator \<Rightarrow> u16" where
  "Gen_Peek s = gen_next s"

text \<open>The two random bytes are the result of \<open>rand.Read\<close>; they are read little-endian.\<close>

definition seedSeqNumber :: "(byte \<times> byte) outcome \<Rightarrow> u16 outcome" where
  "seedSeqNumber rnd = bindO rnd (\<lambda>(b0, b1). Ok (ucast b0 OR push_bit 8 (ucast b1)))"

definition NewRandomNumberGenerator :: "(byte \<times> byte) outcome \<Rightarrow> sequentialNumberGenerator outcome" where
  "NewRandomNumberGenerator rnd = bindO (seedSeqNumber rnd) (\<lambda>i. Ok \<lparr>gen_next = i\<rparr>)"

fun draw :: "('s \<Rightarrow> u16 \<times> 's) \<Rightarrow> nat \<Rightarrow> 's \<Rightarrow> u16 list" where
  "draw nxt 0 s = []"
| "draw nxt (Suc k) s = (case nxt s of (n, s') \<Rightarrow> n # draw nxt k s')"

text \<open>The \<open>k\<close> numbers that follow \<open>s\<close>, wrapping around at 65536.\<close>

fun seqs :: "u16 \<Rightarrow> nat \<Rightarrow> u16 list" where
  "seqs s 0 = []"
| "seqs s (Suc k) = s # seqs (s + 1) k"

lemma length_seqs [simp]: "length (seqs s k) = k"
  by (induction k arbitrary: s) simp_all

lemma nth_seqs: "i < k \<Longrightarrow> seqs s k ! i = s + of_nat i"
proof (induction k arbitrary: s i)
  case (Suc k)
  then show ?case by (cases i) (simp_all add: add.assoc)
qed simp

lemma set_seqs: "x \<in> set (seqs s k) \<longleftrightarrow> (\<exists>i < k. x = s + of_nat i)"
  by (auto simp: in_set_conv_nth nth_seqs)

lemma seqs_append: "seqs s (j + k) = seqs s j @ seqs (s + of_nat j) k"
  by (induction j arbitrary: s) (simp_all add: add.assoc)

lemma seqs_snoc: "seqs s (Suc k) = seqs s k @ [s + of_nat k]"
  using seqs_append [of s k 1] by simp

lemma offset_of_nat: "i < 2 ^ 16 \<Longrightarrow> unat (of_nat i :: u16) = i"
  by (simp add: unat_of_nat take_bit_nat_eq_self)

lemma unat_offset: "i < 2 ^ 16 \<Longrightarrow> unat (s + of_nat i - s :: u16) = i"
  by (simp add: offset_of_nat)

lemma distinct_seqs: "k \<le> 2 ^ 16 \<Longrightarrow> distinct (seqs s k)"
  by (metis (no_types, lifting) add_diff_cancel_left' distinct_conv_nth length_seqs nth_seqs
      offset_of_nat order_less_le_trans)

lemma set_seqs_offset: "k \<le> 2 ^ 16 \<Longrightarrow> x \<in> set (seqs s k) \<longleftrightarrow> unat (x - s) < k"
proof
  assume k: "k \<le> 2 ^ 16"
  show "x \<in> set (seqs s k) \<Longrightarrow> unat (x - s) < k"
    using k by (auto simp: set_seqs offset_of_nat)
  assume "unat (x - s) < k"
  then show "x \<in> set (seqs s k)"
    unfolding set_seqs by (intro exI [of _ "unat (x - s)"]) simp
qed

locale packet_numbers =
  fixes nxt :: "'s \<Rightarrow> u16 \<times> 's" and peek :: "'s \<Rightarrow> u16"
  assumes next_is_peek: "fst (nxt s) = peek s"
    and peek_advances: "peek (snd (nxt s)) = peek s + 1"
begin

lemma draw_seqs: "draw nxt k s = seqs (peek s) k"
proof (induction k arbitrary: s)
  case (Suc k)
  then show ?case
    using next_is_peek [of s] peek_advances [of s] by (cases "nxt s") simp
qed simp

lemma draw_distinct: "k \<le> 2 ^ 16 \<Longrightarrow> distinct (draw nxt k s)"
  by (simp add: draw_seqs distinct_seqs)

end

interpretation gen: packet_numbers Gen_Next Gen_Peek
  by unfold_locales (simp_all add: Gen_Next_def Gen_Peek_def Let_def)

end
