(* ===== verification/Data_Reader.thy ===== *)
theory Data_Reader
  imports Btp_Messages Packet_Number "HOL-Library.Multiset"
begin

text \<open>
  btp/data_reader.go: the \<open>sequentialDataReader\<close> that puts data packets back into order. The
  channel is the list of what was sent on it (\<open>None\<close> for a nil pointer), the reorder buffer
  is a list of slots indexed by the sequence number modulo its length. The lemmas show when
  \<open>Next\<close> returns the packet it is asked for: as long as every packet that is pending lies
  within a window ahead of \<open>nextSeqNr\<close> that the buffer can hold, and no packet is there twice.
\<close>

section \<open>The reader\<close>

record sequentialDataReader =
  chanCap :: nat
  dataChan :: "MsgData option list"
  chanClosed :: bool
  nextSeqNr :: u16
  rd_buf :: "MsgData option list"

definition NewDataReader :: "nat \<Rightarrow> nat \<Rightarrow> sequentialDataReader" where
  "NewDataReader chanCapacity bufCapacity =
     \<lparr>chanCap = chanCapacity, dataChan = [], chanClosed = False, nextSeqNr = 0,
      rd_buf = replicate bufCapacity None\<rparr>"

abbreviation seqOf :: "MsgData \<Rightarrow> u16" where
  "seqOf d \<equiv> SeqNr (data_Header d)"

text \<open>A send on a closed channel panics, on a full one it waits.\<close>

definition Push :: "MsgData option \<Rightarrow> sequentialDataReader \<Rightarrow> unit outcome \<times> sequentialDataReader" where
  "Push data s =
     (if chanClosed s then (Panic ''send on closed channel'', s)
      else if length (dataChan s) \<ge> chanCap s then (Block, s)
      else (Ok (), s\<lparr>dataChan := dataChan s @ [data]\<rparr>))"

definition Reader_Close :: "sequentialDataReader \<Rightarrow> unit outcome \<times> sequentialDataReader" where
  "Reader_Close s =
     (if chanClosed s then (Panic ''close of closed channel'', s)
      else (Ok (), s\<lparr>chanClosed := True\<rparr>))"

definition slot :: "sequentialDataReader \<Rightarrow> u16 \<Rightarrow> nat" where
  "slot s n = unat n mod length (rd_buf s)"

text \<open>The receive loop of \<open>Next\<close> over the values \<open>ch\<close> that are in the channel.\<close>

fun recvLoop :: "MsgData option list \<Rightarrow> sequentialDataReader \<Rightarrow> MsgData outcome \<times> sequentialDataReader" where
  "recvLoop [] s = ((if chanClosed s then Err EOF else Block), s\<lparr>dataChan := []\<rparr>)"
| "recvLoop (None # ch) s = recvLoop ch s"
| "recvLoop (Some d # ch) s =
     (if nextSeqNr s = seqOf d
      then (Ok d, s\<lparr>dataChan := ch, nextSeqNr := nextSeqNr s + 1\<rparr>)
      else recvLoop ch (s\<lparr>rd_buf := (rd_buf s)[slot s (seqOf d) := Some d]\<rparr>))"

definition Next :: "sequentialDataReader \<Rightarrow> MsgData outcome \<times> sequentialDataReader" where
  "Next s =
     (if rd_buf s = [] then (Panic ''integer divide by zero'', s)
      else let nextIdx = slot s (nextSeqNr s) in
        case rd_buf s ! nextIdx of
          Some item \<Rightarrow> (Ok item, s\<lparr>rd_buf := (rd_buf s)[nextIdx := None], nextSeqNr := nextSeqNr s + 1\<rparr>)
        | None \<Rightarrow> recvLoop (dataChan s) s)"

section \<open>Pending packets\<close>

fun somes :: "'a option list \<Rightarrow> 'a list" where
  "somes [] = []"
| "somes (None # xs) = somes xs"
| "somes (Some x # xs) = x # somes xs"

lemma somes_append [simp]: "somes (xs @ ys) = somes xs @ somes ys"
  by (induction xs rule: somes.induct) simp_all

lemma somes_replicate_None [simp]: "somes (replicate n None) = []"
  by (induction n) simp_all

lemma somes_map_Some [simp]: "somes (map Some xs) = xs"
  by (induction xs) simp_all

lemma set_somes: "x \<in> set (somes xs) \<longleftrightarrow> Some x \<in> set xs"
  by (induction xs rule: somes.induct) auto

lemma somes_set_slot:
  "i < length xs \<Longrightarrow> xs ! i = None \<Longrightarrow> mset (somes (xs[i := Some x])) = add_mset x (mset (somes xs))"
  by (induction xs arbitrary: i rule: somes.induct) (auto simp: nth_Cons split: nat.splits)

lemma somes_clear_slot:
  "i < length xs \<Longrightarrow> xs ! i = Some x \<Longrightarrow> mset (somes xs) = add_mset x (mset (somes (xs[i := None])))"
  by (induction xs arbitrary: i rule: somes.induct) (auto simp: nth_Cons split: nat.splits)

lemma length_somes_update: "length (somes (xs[i := Some x])) \<le> Suc (length (somes xs))"
proof (induction xs arbitrary: i rule: somes.induct)
  case (2 xs)
  then show ?case by (cases i) auto
next
  case (3 x xs)
  then show ?case by (cases i) auto
qed simp

definition pend :: "sequentialDataReader \<Rightarrow> MsgData list" where
  "pend s = somes (dataChan s) @ somes (rd_buf s)"

text \<open>Every packet \<open>Next\<close> returns was pending: a bound on how often it can return.\<close>

definition rsize :: "sequentialDataReader \<Rightarrow> nat" where
  "rsize s = length (dataChan s) + length (somes (rd_buf s))"

lemma recvLoop_size:
  "recvLoop ch s = (Ok d, s') \<Longrightarrow> rsize s' < length ch + length (somes (rd_buf s))"
proof (induction ch s rule: recvLoop.induct)
  case (3 d ch s)
  show ?case
  proof (cases "nextSeqNr s = seqOf d")
    case False
    with 3 have "rsize s' < length ch + length (somes ((rd_buf s)[slot s (seqOf d) := Some d]))"
      by simp
    then show ?thesis using length_somes_update [of "rd_buf s" "slot s (seqOf d)" d] by simp
  qed (use 3 in \<open>auto simp: rsize_def\<close>)
qed (auto split: if_splits)

lemma Next_size: "Next s = (Ok d, s') \<Longrightarrow> rsize s' < rsize s"
proof -
  assume N: "Next s = (Ok d, s')"
  let ?i = "slot s (nextSeqNr s)"
  from N have ne: "rd_buf s \<noteq> []" by (auto simp: Next_def)
  then have i: "?i < length (rd_buf s)" by (simp add: slot_def)
  show ?thesis
  proof (cases "rd_buf s ! ?i")
    case None
    with N ne show ?thesis using recvLoop_size by (fastforce simp: Next_def Let_def rsize_def)
  next
    case (Some x)
    with i have "length (somes (rd_buf s)) = Suc (length (somes ((rd_buf s)[?i := None])))"
      using somes_clear_slot [of ?i "rd_buf s" x] by (metis size_add_mset size_mset)
    with Some N ne show ?thesis by (auto simp: Next_def Let_def rsize_def)
  qed
qed

section \<open>Slots within a window are different\<close>

text \<open>
  The slot of a number is its value modulo the buffer length \<open>L\<close>. Within \<open>W\<close> consecutive
  numbers no slot repeats if \<open>W\<close> is at most \<open>2 ^ 16 mod L\<close>: across the wrap-around the slots
  shift by that amount. For the buffer of 50 slots it is 36.
\<close>

lemma same_slot_in_window:
  fixes x y b :: u16
  assumes L: "W \<le> 2 ^ 16 mod L" and x: "unat (x - b) < W" and y: "unat (y - b) < W"
    and eq: "unat x mod L = unat y mod L"
  shows "x = y"
proof (cases "L = 0")
  case True
  with eq show ?thesis by (simp add: word_unat_eq_iff)
next
  case False
  have aux: "x = y"
    if le: "unat (x - b) \<le> unat (y - b)" and y: "unat (y - b) < W"
      and eq: "unat x mod L = unat y mod L" for x y :: u16
  proof -
    define d where "d = unat (y - b) - unat (x - b)"
    have "y = x + of_nat d"
      using le by (simp add: d_def of_nat_diff)
    then have uy: "unat y = (unat x + d) mod 2 ^ 16"
      by (simp add: unat_word_ariths unat_of_nat take_bit_eq_mod mod_add_right_eq)
    have dW: "d < W" using y by (simp add: d_def)
    have gL: "2 ^ 16 mod L < L" using False by simp
    have d16: "d < 2 ^ 16" using dW L by (meson less_le_trans mod_less_eq_dividend order_le_less_trans)
    have ux: "unat x < 2 ^ 16" using unsigned_less [of x, where 'a = nat] by simp
    have "d = 0"
    proof (cases "unat x + d < 2 ^ 16")
      case True
      with uy eq have "(unat x + d) mod L = (unat x + 0) mod L" by simp
      then have "d mod L = 0 mod L" by (rule mod_add_cancel)
      moreover have "d < L" using dW L gL by linarith
      ultimately show ?thesis by simp
    next
      case False
      moreover have "unat x + d - 2 ^ 16 < 2 ^ 16" using ux d16 by linarith
      ultimately have "unat y = unat x + d - 2 ^ 16"
        unfolding uy by (metis le_mod_geq mod_less not_less)
      with False have "unat y + 2 ^ 16 = unat x + d" by simp
      then have "(unat x + d) mod L = (unat x + 2 ^ 16) mod L"
        using eq by (metis mod_add_left_eq)
      then have "d mod L = 2 ^ 16 mod L"
        by (rule mod_add_cancel)
      moreover have "d < 2 ^ 16 mod L" using dW L by linarith
      ultimately show ?thesis using gL by simp
    qed
    with \<open>y = x + of_nat d\<close> show ?thesis by simp
  qed
  show ?thesis
    using aux [of x y] aux [of y x] x y eq by (metis nle_le)
qed

section \<open>The reader's invariant\<close>

definition placed :: "MsgData option list \<Rightarrow> bool" where
  "placed buf \<longleftrightarrow> (\<forall>i < length buf. \<forall>d. buf ! i = Some d \<longrightarrow> unat (seqOf d) mod length buf = i)"

definition in_window :: "nat \<Rightarrow> u16 \<Rightarrow> MsgData list \<Rightarrow> bool" where
  "in_window W n ds \<longleftrightarrow> distinct (map seqOf ds) \<and> (\<forall>d \<in> set ds. unat (seqOf d - n) < W)"

definition reader_inv :: "nat \<Rightarrow> sequentialDataReader \<Rightarrow> bool" where
  "reader_inv W s \<longleftrightarrow> rd_buf s \<noteq> [] \<and> W \<le> 2 ^ 16 mod length (rd_buf s) \<and> placed (rd_buf s)
     \<and> in_window W (nextSeqNr s) (pend s)"

lemma in_window_mset: "mset ds = mset es \<Longrightarrow> in_window W n ds \<longleftrightarrow> in_window W n es"
  unfolding in_window_def
  by (metis mset_eq_imp_distinct_iff mset_eq_setD mset_map)

lemma offset_advance:
  fixes x n :: u16
  assumes "unat (x - n) < W" and "x \<noteq> n"
  shows "unat (x - (n + 1)) < W"
proof -
  have "x - n \<noteq> 0" using assms(2) by simp
  then have "unat (x - n - 1) < unat (x - n)" by (simp add: unat_minus_one unat_gt_0)
  with assms(1) show ?thesis by (simp add: diff_diff_eq [symmetric])
qed

lemma in_window_take:
  assumes "in_window W n ds" and "mset ds = add_mset d (mset es)" and "seqOf d = n"
  shows "in_window W (n + 1) es"
proof -
  have w: "in_window W n (d # es)"
    using assms(1,2) in_window_mset [of ds "d # es"] by simp
  then have "seqOf d \<notin> seqOf ` set es" by (simp add: in_window_def)
  then have "seqOf e \<noteq> n" if "e \<in> set es" for e
    using that assms(3) by (metis imageI)
  with w show ?thesis
    by (auto simp: in_window_def intro!: offset_advance)
qed

lemma placed_set:
  "placed buf \<Longrightarrow> i = unat (seqOf d) mod length buf \<Longrightarrow> placed (buf[i := Some d])"
  unfolding placed_def
  by (metis length_list_update nth_list_update_eq nth_list_update_neq option.inject)

lemma placed_clear: "placed buf \<Longrightarrow> placed (buf[i := None])"
  unfolding placed_def
  by (metis length_list_update nth_list_update_eq nth_list_update_neq option.distinct(1))

text \<open>The slot of a packet in the window is free, or holds that packet.\<close>

lemma slot_unique:
  assumes "W \<le> 2 ^ 16 mod length buf" and "placed buf" and "buf \<noteq> []"
    and "buf ! (unat x mod length buf) = Some d" and "unat (seqOf d - n) < W" and "unat (x - n) < W"
  shows "seqOf d = x"
proof -
  have "unat x mod length buf < length buf" using assms(3) by simp
  with assms(2,4) have "unat (seqOf d) mod length buf = unat x mod length buf"
    by (auto simp: placed_def)
  with assms(1,5,6) show ?thesis by (rule same_slot_in_window)
qed

lemma nth_somes: "i < length xs \<Longrightarrow> xs ! i = Some x \<Longrightarrow> x \<in> set (somes xs)"
  by (metis nth_mem set_somes)

lemma recvLoop_frame:
  "recvLoop ch s = (res, s') \<Longrightarrow>
     chanClosed s' = chanClosed s \<and> chanCap s' = chanCap s \<and> length (rd_buf s') = length (rd_buf s)"
  by (induction ch s rule: recvLoop.induct) (auto split: if_splits)

lemma Next_frame:
  "Next s = (res, s') \<Longrightarrow>
     chanClosed s' = chanClosed s \<and> chanCap s' = chanCap s \<and> length (rd_buf s') = length (rd_buf s)"
  using recvLoop_frame by (fastforce simp: Next_def Let_def split: if_splits option.splits)

definition next_found :: "nat \<Rightarrow> sequentialDataReader \<Rightarrow> MsgData list \<Rightarrow> MsgData outcome \<Rightarrow> sequentialDataReader \<Rightarrow> bool" where
  "next_found W s ds res s' \<longleftrightarrow> (\<exists>d. res = Ok d \<and> seqOf d = nextSeqNr s
     \<and> mset ds = add_mset d (mset (pend s'))) \<and> nextSeqNr s' = nextSeqNr s + 1 \<and> reader_inv W s'"

definition next_missing :: "nat \<Rightarrow> sequentialDataReader \<Rightarrow> MsgData list \<Rightarrow> MsgData outcome \<Rightarrow> sequentialDataReader \<Rightarrow> bool" where
  "next_missing W s ds res s' \<longleftrightarrow> res = (if chanClosed s then Err EOF else Block)
     \<and> mset ds = mset (pend s') \<and> nextSeqNr s' = nextSeqNr s \<and> reader_inv W s' \<and> dataChan s' = []"

lemma recvLoop_correct:
  assumes "reader_inv W (s\<lparr>dataChan := ch\<rparr>)"
    and "rd_buf s ! slot s (nextSeqNr s) = None"
    and "recvLoop ch s = (res, s')"
  shows "if nextSeqNr s \<in> seqOf ` set (somes ch)
    then next_found W s (somes ch @ somes (rd_buf s)) res s'
    else next_missing W s (somes ch @ somes (rd_buf s)) res s'"
  using assms
proof (induction ch s rule: recvLoop.induct)
  case (1 s)
  then show ?case by (auto simp: next_missing_def pend_def)
next
  case (2 ch s)
  then show ?case by (simp add: reader_inv_def pend_def)
next
  case (3 d ch s)
  let ?n = "nextSeqNr s" and ?i = "slot s (seqOf d)"
  let ?t = "s\<lparr>rd_buf := (rd_buf s)[?i := Some d]\<rparr>"
  from "3.prems"(1) have buf: "rd_buf s \<noteq> []" "W \<le> 2 ^ 16 mod length (rd_buf s)" "placed (rd_buf s)"
    and win: "in_window W ?n (d # somes ch @ somes (rd_buf s))"
    by (simp_all add: reader_inv_def pend_def)
  have i: "?i < length (rd_buf s)" using buf(1) by (simp add: slot_def)
  show ?case
  proof (cases "?n = seqOf d")
    case True
    with "3.prems"(3) have res: "res = Ok d" "s' = s\<lparr>dataChan := ch, nextSeqNr := ?n + 1\<rparr>" by auto
    moreover have "in_window W (?n + 1) (somes ch @ somes (rd_buf s))"
      by (rule in_window_take [OF win]) (simp_all add: True)
    ultimately show ?thesis
      using True buf by (auto simp: next_found_def reader_inv_def pend_def)
  next
    case False
    have dW: "unat (seqOf d - ?n) < W" using win by (simp add: in_window_def)
    have free: "rd_buf s ! ?i = None"
    proof (cases "rd_buf s ! ?i")
      case (Some x)
      then have x: "x \<in> set (somes (rd_buf s))" using i nth_somes by metis
      with win have "unat (seqOf x - ?n) < W" by (simp add: in_window_def)
      with slot_unique [OF buf(2,3,1)] Some dW have "seqOf x = seqOf d"
        unfolding slot_def by blast
      moreover have "seqOf d \<notin> seqOf ` set (somes (rd_buf s))"
        using win by (simp add: in_window_def image_Un)
      ultimately show ?thesis using x by (metis imageI)
    qed
    have "slot s ?n \<noteq> ?i"
      using same_slot_in_window [OF buf(2), of ?n ?n "seqOf d"] dW False
      by (auto simp: slot_def)
    then have none: "rd_buf ?t ! slot ?t (nextSeqNr ?t) = None"
      using "3.prems"(2) by (simp add: slot_def)
    have ms: "mset (somes (rd_buf ?t)) = add_mset d (mset (somes (rd_buf s)))"
      using somes_set_slot [OF i free] by simp
    have inv: "reader_inv W (?t\<lparr>dataChan := ch\<rparr>)"
      using buf win in_window_mset [of "somes ch @ somes (rd_buf ?t)" "d # somes ch @ somes (rd_buf s)"] ms
      by (auto simp: reader_inv_def pend_def slot_def intro!: placed_set)
    from "3.prems"(3) False have "recvLoop ch ?t = (res, s')" by simp
    from "3.IH" [OF False inv none this] show ?thesis
      using False ms by (auto simp: next_found_def next_missing_def)
  qed
qed

text \<open>
  \<open>Next\<close> under the invariant: the packet with the number asked for if it is pending, and
  otherwise nothing is lost and the call waits (or reports the end of a closed channel).
\<close>

lemma Next_correct:
  assumes inv: "reader_inv W s" and N: "Next s = (res, s')"
  shows "if nextSeqNr s \<in> seqOf ` set (pend s) then next_found W s (pend s) res s'
    else next_missing W s (pend s) res s'"
proof -
  let ?n = "nextSeqNr s" and ?i = "slot s (nextSeqNr s)"
  from inv have buf: "rd_buf s \<noteq> []" "W \<le> 2 ^ 16 mod length (rd_buf s)" "placed (rd_buf s)"
    and win: "in_window W ?n (somes (dataChan s) @ somes (rd_buf s))"
    by (simp_all add: reader_inv_def pend_def)
  have i: "?i < length (rd_buf s)" using buf(1) by (simp add: slot_def)
  show ?thesis
  proof (cases "rd_buf s ! ?i")
    case (Some d)
    then have d: "d \<in> set (somes (rd_buf s))" using i nth_somes by metis
    then have dW: "unat (seqOf d - ?n) < W" using win by (simp add: in_window_def)
    then have "seqOf d = ?n"
      using slot_unique [OF buf(2,3,1), of ?n d ?n] Some by (simp add: slot_def)
    moreover have res: "res = Ok d"
        "s' = s\<lparr>rd_buf := (rd_buf s)[?i := None], nextSeqNr := ?n + 1\<rparr>"
      using N Some buf(1) by (auto simp: Next_def Let_def)
    moreover have ms: "mset (pend s) = add_mset d (mset (pend s'))"
      using somes_clear_slot [OF i Some] res by (simp add: pend_def)
    moreover have "in_window W (?n + 1) (pend s')"
      by (rule in_window_take [OF _ ms]) (use win \<open>seqOf d = ?n\<close> in \<open>simp_all add: pend_def\<close>)
    moreover have "?n \<in> seqOf ` set (pend s)"
      using d \<open>seqOf d = ?n\<close> by (force simp: pend_def)
    ultimately show ?thesis
      using buf placed_clear [of "rd_buf s" ?i] by (auto simp: next_found_def reader_inv_def)
  next
    case None
    have notbuf: "?n \<notin> seqOf ` set (somes (rd_buf s))"
    proof
      assume "?n \<in> seqOf ` set (somes (rd_buf s))"
      then obtain d where "Some d \<in> set (rd_buf s)" "seqOf d = ?n"
        using set_somes by fastforce
      then obtain j where "j < length (rd_buf s)" "rd_buf s ! j = Some d" "seqOf d = ?n"
        by (auto simp: in_set_conv_nth)
      with buf(3) None show False by (auto simp: placed_def slot_def)
    qed
    have "recvLoop (dataChan s) s = (res, s')"
      using N None buf(1) by (simp add: Next_def Let_def)
    with recvLoop_correct [where W = W and s = s and ch = "dataChan s"] inv None notbuf show ?thesis
      by (auto simp: pend_def image_Un)
  qed
qed

section \<open>Reading several packets\<close>

fun take_data :: "nat \<Rightarrow> sequentialDataReader \<Rightarrow> MsgData list \<times> sequentialDataReader" where
  "take_data 0 s = ([], s)"
| "take_data (Suc k) s = (case Next s of
      (Ok d, s') \<Rightarrow> (case take_data k s' of (ds, s'') \<Rightarrow> (d # ds, s''))
    | (_, s') \<Rightarrow> ([], s'))"

lemma Next_found:
  assumes "reader_inv W s" and "nextSeqNr s \<in> seqOf ` set (pend s)"
  obtains d s' where "Next s = (Ok d, s')" and "seqOf d = nextSeqNr s"
    and "mset (pend s) = add_mset d (mset (pend s'))" and "nextSeqNr s' = nextSeqNr s + 1"
    and "reader_inv W s'"
proof -
  obtain res s' where N: "Next s = (res, s')" by (cases "Next s")
  with Next_correct [OF assms(1) N] assms(2) that show ?thesis
    by (auto simp: next_found_def)
qed

lemma take_data_correct:
  assumes "reader_inv W s" and "set (seqs (nextSeqNr s) k) \<subseteq> seqOf ` set (pend s)" and "k \<le> 2 ^ 16"
  shows "\<exists>ds s'. take_data k s = (ds, s') \<and> map seqOf ds = seqs (nextSeqNr s) k
    \<and> mset (pend s) = mset ds + mset (pend s') \<and> nextSeqNr s' = nextSeqNr s + of_nat k
    \<and> reader_inv W s'"
  using assms
proof (induction k arbitrary: s)
  case (Suc k)
  let ?n = "nextSeqNr s"
  from Suc.prems(2) have "?n \<in> seqOf ` set (pend s)" by auto
  with Suc.prems(1) obtain d t where N: "Next s = (Ok d, t)" "seqOf d = ?n"
      "mset (pend s) = add_mset d (mset (pend t))" "nextSeqNr t = ?n + 1" "reader_inv W t"
    by (rule Next_found)
  have "?n \<notin> set (seqs (?n + 1) k)"
    using distinct_seqs [of "Suc k" ?n] Suc.prems(3) by simp
  moreover have "set (pend s) = insert d (set (pend t))"
    using arg_cong [OF N(3), of set_mset] by simp
  ultimately have "set (seqs (nextSeqNr t) k) \<subseteq> seqOf ` set (pend t)"
    using Suc.prems(2) N(2,4) by auto
  with Suc.IH [of t] N(5) Suc.prems(3) obtain ds s' where "take_data k t = (ds, s')"
      "map seqOf ds = seqs (nextSeqNr t) k" "mset (pend t) = mset ds + mset (pend s')"
      "nextSeqNr s' = nextSeqNr t + of_nat k" "reader_inv W s'"
    by auto
  with N show ?case by (auto simp: add.assoc)
qed auto

lemma same_by_key:
  assumes "mset xs = mset ys" and "map f xs = map f ys" and "distinct (map f ys)"
  shows "xs = ys"
proof (rule map_inj_on [OF assms(2)])
  have "set xs = set ys" using assms(1) by (metis mset_eq_setD)
  then show "inj_on f (set xs \<union> set ys)" using assms(3) by (simp add: distinct_map)
qed

lemma take_data_reorders:
  assumes inv: "reader_inv W s" and "mset (pend s) = mset ps"
    and ps: "map seqOf ps = seqs (nextSeqNr s) (length ps)" and "length ps \<le> 2 ^ 16"
  shows "\<exists>s'. take_data (length ps) s = (ps, s') \<and> pend s' = []
    \<and> nextSeqNr s' = nextSeqNr s + of_nat (length ps) \<and> reader_inv W s'"
proof -
  have "seqOf ` set (pend s) = set (seqs (nextSeqNr s) (length ps))"
    by (metis assms(2) mset_eq_setD ps set_map)
  with take_data_correct [OF inv, of "length ps"] assms(4) obtain ds s'
    where t: "take_data (length ps) s = (ds, s')" "map seqOf ds = seqs (nextSeqNr s) (length ps)"
      "mset (pend s) = mset ds + mset (pend s')" "nextSeqNr s' = nextSeqNr s + of_nat (length ps)"
      "reader_inv W s'"
    by auto
  have "length ds = length ps" using arg_cong [OF t(2), of length] by simp
  moreover have "length (pend s) = length ds + length (pend s')"
    using arg_cong [OF t(3), of size] by simp
  moreover have "length (pend s) = length ps"
    using arg_cong [OF assms(2), of size] by simp
  ultimately have e: "pend s' = []" by simp
  have "ds = ps"
    by (rule same_by_key [where f = seqOf])
      (use t e assms(2) ps distinct_seqs [OF assms(4)] in auto)
  with t e show ?thesis by blast
qed

lemma take_data_add:
  "take_data j s = (xs, t) \<Longrightarrow> length xs = j \<Longrightarrow> take_data (j + k) s = (case take_data k t of (ys, u) \<Rightarrow> (xs @ ys, u))"
  by (induction j arbitrary: s xs) (auto split: prod.splits outcome.splits)

text \<open>Packets that come in order pass the buffer by while their slots are empty.\<close>

lemma take_data_straight:
  assumes "rd_buf s \<noteq> []" and "\<forall>i < k. rd_buf s ! slot s (m + of_nat i) = None"
    and "dataChan s = map Some (map f (seqs m k)) @ rest" and "\<And>i. seqOf (f i) = i" and "nextSeqNr s = m"
  shows "take_data k s = (map f (seqs m k), s\<lparr>dataChan := rest, nextSeqNr := m + of_nat k\<rparr>)"
  using assms(1-3,5)
proof (induction k arbitrary: s m)
  case (Suc k)
  let ?t = "s\<lparr>dataChan := map Some (map f (seqs (m + 1) k)) @ rest, nextSeqNr := m + 1\<rparr>"
  have "rd_buf s ! slot s m = None" using Suc.prems(2) [rule_format, of 0] by simp
  then have N: "Next s = (Ok (f m), ?t)"
    using Suc.prems by (simp add: Next_def assms(4) Let_def)
  have "\<forall>i < k. rd_buf ?t ! slot ?t (m + 1 + of_nat i) = None"
  proof (intro allI impI)
    fix i assume "i < k"
    with Suc.prems(2) have "rd_buf s ! slot s (m + of_nat (Suc i)) = None" by blast
    then show "rd_buf ?t ! slot ?t (m + 1 + of_nat i) = None" by (simp add: slot_def add.assoc)
  qed
  with Suc.IH [of ?t "m + 1"] Suc.prems(1) N show ?case by (simp add: add.assoc)
qed simp

lemma unat_add_small:
  fixes n :: u16
  assumes "unat n + k < 2 ^ 16"
  shows "unat (n + of_nat k) = unat n + k"
proof -
  have "unat (of_nat k :: u16) = k" using assms by (intro offset_of_nat) linarith
  with assms show ?thesis by (simp add: unat_word_ariths)
qed

text \<open>
  A packet that arrives again after it was delivered stays in its slot, and is handed out in
  place of the packet with the number 50 higher.
\<close>

lemma take_data_duplicate:
  fixes n :: u16
  assumes n: "unat n + 50 < 2 ^ 16" and f: "\<And>i. seqOf (f i) = i" and d: "seqOf d = n"
  shows "fst (take_data 50 ((NewDataReader 100 50)\<lparr>nextSeqNr := n + 1,
      dataChan := Some d # map Some (map f (seqs (n + 1) 50))\<rparr>)) = map f (seqs (n + 1) 49) @ [d]"
proof -
  let ?r = "(NewDataReader 100 50)\<lparr>nextSeqNr := n + 1, dataChan := Some d # map Some (map f (seqs (n + 1) 50))\<rparr>"
  let ?j = "unat n mod 50"
  let ?buf = "(replicate 50 None)[?j := Some d]"
  let ?r1 = "?r\<lparr>nextSeqNr := n + 2, rd_buf := ?buf, dataChan := map Some (map f (seqs (n + 2) 49))\<rparr>"
  have "Next ?r = (Ok (f (n + 1)), ?r1)"
  proof -
    have "seqs (n + 1) 50 = (n + 1) # seqs (n + 2) 49" by (simp add: numeral_eq_Suc)
    then show ?thesis
      by (simp add: Next_def NewDataReader_def slot_def Let_def f d del: seqs.simps)
  qed
  then have 1: "take_data 1 ?r = ([f (n + 1)], ?r1)" by simp
  have u: "unat (n + 2 + of_nat i) = unat n + 2 + i" if "i < 49" for i
  proof -
    have "unat (n + of_nat (2 + i)) = unat n + (2 + i)"
      by (rule unat_add_small) (use n that in simp)
    then show ?thesis by (simp add: add.assoc)
  qed
  have free: "\<forall>i < 48. rd_buf ?r1 ! slot ?r1 (n + 2 + of_nat i) = None"
  proof (intro allI impI)
    fix i :: nat assume i: "i < 48"
    have "(unat n + (2 + i)) mod 50 \<noteq> unat n mod 50"
    proof
      assume "(unat n + (2 + i)) mod 50 = unat n mod 50"
      then have "(unat n + (2 + i)) mod 50 = (unat n + 0) mod 50" by simp
      then have "(2 + i) mod 50 = 0 mod 50" by (rule mod_add_cancel)
      with i show False by simp
    qed
    with u [of i] i show "rd_buf ?r1 ! slot ?r1 (n + 2 + of_nat i) = None"
      by (simp add: slot_def nth_list_update add.assoc)
  qed
  have s49: "seqs (n + 2) 49 = seqs (n + 2) 48 @ [n + 50]"
    using seqs_snoc [of "n + 2" 48] by (simp del: seqs.simps)
  let ?r2 = "?r1\<lparr>dataChan := [Some (f (n + 50))], nextSeqNr := n + 50\<rparr>"
  have 2: "take_data 48 ?r1 = (map f (seqs (n + 2) 48), ?r2)"
    using take_data_straight [OF _ free, of f "[Some (f (n + 50))]"] f by (simp add: s49)
  have "unat (n + 50) mod 50 = ?j" using unat_add_small [OF n] by simp
  then have "Next ?r2 = (Ok d, ?r2\<lparr>rd_buf := ?buf[?j := None], nextSeqNr := n + 50 + 1\<rparr>)"
    by (simp add: Next_def slot_def Let_def)
  then have 3: "fst (take_data 1 ?r2) = [d]" by simp
  have "seqs (n + 1) 49 = (n + 1) # seqs (n + 2) 48" by (simp add: numeral_eq_Suc)
  moreover obtain z where z: "take_data 1 ?r2 = ([d], z)" using 3 by (metis prod.collapse)
  have "take_data (48 + 1) ?r1 = (map f (seqs (n + 2) 48) @ [d], z)"
    by (subst take_data_add [OF 2]) (simp_all only: z prod.case length_map length_seqs)
  with 1 have "take_data (1 + (48 + 1)) ?r = ([f (n + 1)] @ map f (seqs (n + 2) 48) @ [d], z)"
    by (subst take_data_add [OF 1]) (simp_all only: prod.case, simp_all)
  ultimately show ?thesis by simp
qed

section \<open>Arrivals and reads interleaved\<close>

text \<open>
  A run of the reader: packets arrive, in any order, at most \<open>W\<close> ahead of the next number and
  each once; the application reads. The configuration records what arrived and what was read.
\<close>

type_synonym reader_conf = "sequentialDataReader \<times> MsgData list \<times> MsgData list"

inductive reader_step :: "nat \<Rightarrow> reader_conf \<Rightarrow> reader_conf \<Rightarrow> bool" for W where
  arrive: "unat (seqOf d - nextSeqNr s) < W \<Longrightarrow> seqOf d \<notin> seqOf ` set (pend s) \<Longrightarrow>
     Push (Some d) s = (Ok (), s') \<Longrightarrow> reader_step W (s, arr, out) (s', arr @ [d], out)"
| consume: "Next s = (Ok d, s') \<Longrightarrow> reader_step W (s, arr, out) (s', arr, out @ [d])"
| wait: "Next s = (Block, s') \<Longrightarrow> reader_step W (s, arr, out) (s', arr, out)"

inductive_cases reader_stepE: "reader_step W (s, arr, out) c"

definition reader_conf_inv :: "nat \<Rightarrow> u16 \<Rightarrow> reader_conf \<Rightarrow> bool" where
  "reader_conf_inv W n0 c \<longleftrightarrow> (case c of (s, arr, out) \<Rightarrow>
     reader_inv W s \<and> map seqOf out = seqs n0 (length out)
     \<and> nextSeqNr s = n0 + of_nat (length out) \<and> mset arr = mset out + mset (pend s))"

lemma Push_inv:
  assumes "reader_inv W s" and "unat (seqOf d - nextSeqNr s) < W" and "seqOf d \<notin> seqOf ` set (pend s)"
    and "Push (Some d) s = (Ok (), s')"
  shows "reader_inv W s' \<and> nextSeqNr s' = nextSeqNr s \<and> mset (pend s') = add_mset d (mset (pend s))"
proof -
  from assms(4) have s': "s' = s\<lparr>dataChan := dataChan s @ [Some d]\<rparr>"
    by (auto simp: Push_def split: if_splits)
  then have m: "mset (pend s') = mset (d # pend s)" by (simp add: pend_def)
  have "in_window W (nextSeqNr s) (d # pend s)"
    using assms(1-3) by (simp add: in_window_def reader_inv_def)
  with m s' assms(1) show ?thesis
    using in_window_mset [OF m] by (simp add: reader_inv_def)
qed

lemma Next_Ok_inv:
  assumes "reader_inv W s" and "Next s = (Ok d, s')"
  shows "seqOf d = nextSeqNr s \<and> mset (pend s) = add_mset d (mset (pend s'))
    \<and> nextSeqNr s' = nextSeqNr s + 1 \<and> reader_inv W s'"
  using Next_correct [OF assms]
  by (auto simp: next_found_def next_missing_def split: if_splits)

lemma Next_Block_inv:
  assumes "reader_inv W s" and "Next s = (Block, s')"
  shows "mset (pend s) = mset (pend s') \<and> nextSeqNr s' = nextSeqNr s \<and> reader_inv W s'"
  using Next_correct [OF assms]
  by (auto simp: next_found_def next_missing_def split: if_splits)

lemma reader_step_inv:
  assumes "reader_step W c c'" and "reader_conf_inv W n0 c"
  shows "reader_conf_inv W n0 c'"
  using assms
proof (induction rule: reader_step.induct)
  case (arrive d s s' arr out)
  then have I: "reader_inv W s" by (simp add: reader_conf_inv_def)
  from Push_inv [OF this arrive(1-3)] arrive(4) show ?case
    by (simp add: reader_conf_inv_def)
next
  case (consume s d s' arr out)
  then have I: "reader_inv W s" by (simp add: reader_conf_inv_def)
  from Next_Ok_inv [OF this consume(1)] consume(2) show ?case
    using seqs_snoc [of n0 "length out"] by (simp add: reader_conf_inv_def add.assoc)
next
  case (wait s s' arr out)
  then have I: "reader_inv W s" by (simp add: reader_conf_inv_def)
  from Next_Block_inv [OF this wait(1)] wait(2) show ?case
    by (simp add: reader_conf_inv_def)
qed

lemma reader_run_inv:
  "(reader_step W)\<^sup>*\<^sup>* c c' \<Longrightarrow> reader_conf_inv W n0 c \<Longrightarrow> reader_conf_inv W n0 c'"
  by (induction rule: rtranclp_induct) (auto intro: reader_step_inv)

lemma reader_inv_fresh:
  assumes "0 < L" and "W \<le> 2 ^ 16 mod L"
  shows "reader_inv W ((NewDataReader cap L)\<lparr>nextSeqNr := n0\<rparr>)"
  using assms by (simp add: reader_inv_def NewDataReader_def placed_def in_window_def pend_def)

end
