(* ===== verification/Btp_Conn.thy ===== *)
theory Btp_Conn
  imports Congestion_Control Rtt Data_Reader
begin

text \<open>
  btp/conn.go and btp/conn_client.go: the state of a connection and every operation on it.
  What the connection gets from outside is an argument: the clock \<open>now\<close> (nanoseconds), the
  result of a UDP write \<open>wr\<close>, of a UDP read and of \<open>DialUDP\<close>, and the order \<open>ks\<close> in which the
  runtime iterates over the map of packets in flight. A Go channel is the list of the values
  sent and not received; a send on a full channel waits, and the list grows when it is done.
  \<open>wire_out\<close> records the datagrams handed to the socket.
\<close>

section \<open>State\<close>

record ConnOptions =
  Network :: string
  Version :: byte
  MaxPacketSize :: u16
  MaxCwndSize :: byte
  InitCwndSize :: byte
  CC :: Elastic
  IdleReadTimeout :: int
  ReadBufferCap :: nat
  MaxRetransmits :: nat

definition ConnOptions_Clone :: "ConnOptions \<Rightarrow> ConnOptions" where
  "ConnOptions_Clone c = \<lparr>Network = Network c, Version = Version c, MaxPacketSize = MaxPacketSize c,
     MaxCwndSize = MaxCwndSize c, InitCwndSize = InitCwndSize c,
     CC = NewElasticTcpAlgorithm (uint (InitCwndSize c)) (uint (MaxCwndSize c)),
     IdleReadTimeout = IdleReadTimeout c, ReadBufferCap = ReadBufferCap c,
     MaxRetransmits = MaxRetransmits c\<rparr>"

definition NewDefaultOptions :: ConnOptions where
  "NewDefaultOptions =
     (let initCwndSize = 1; maxCwndSize = 25 in
      \<lparr>Network = ''udp'', Version = ProtocolVersionBTPv1, MaxPacketSize = 1024,
       MaxCwndSize = word_of_int maxCwndSize, InitCwndSize = word_of_int initCwndSize,
       CC = NewElasticTcpAlgorithm initCwndSize maxCwndSize,
       IdleReadTimeout = 2 * 60 * 1000000000, ReadBufferCap = 2048, MaxRetransmits = 20\<rparr>)"

record packet =
  transmissionTime :: int
  pkt_seqNr :: u16
  pkt_payload :: "byte list"
  rtoDuration :: int
  retransmits :: nat

record Conn =
  Options :: ConnOptions
  remotePort :: u16
  readBuf :: "byte list"
  isConnOpen :: bool
  closeChan :: "go_error option list"
  openChan :: "go_error option list"
  chansClosed :: bool
  isServerConnection :: bool
  isRunLoopRunning :: bool
  rttMeasurement :: RTTMeasurement
  txChan :: "Codable list"
  txPrioChan :: "Codable list"
  dataReader :: sequentialDataReader
  pushing :: "MsgData list"
  packetNumberGenerator :: sequentialNumberGenerator
  inflightPackets :: "u16 \<rightharpoonup> packet"
  currentReadTimeout :: int
  wire_out :: "byte list list"

definition set_CC :: "(Elastic \<Rightarrow> Elastic) \<Rightarrow> Conn \<Rightarrow> Conn" where
  "set_CC f c = c\<lparr>Options := (Options c)\<lparr>CC := f (CC (Options c))\<rparr>\<rparr>"

abbreviation cc_of :: "Conn \<Rightarrow> Elastic" where
  "cc_of c \<equiv> CC (Options c)"

abbreviation peekSeq :: "Conn \<Rightarrow> u16" where
  "peekSeq c \<equiv> Gen_Peek (packetNumberGenerator c)"

text \<open>\<open>rnd\<close> is what the random source returns for the initial sequence number.\<close>

definition newConn :: "(byte \<times> byte) outcome \<Rightarrow> u16 \<Rightarrow> ConnOptions \<Rightarrow> Conn outcome" where
  "newConn rnd rport options =
     (case NewRandomNumberGenerator rnd of
        Ok gen \<Rightarrow> Ok \<lparr>Options = options, remotePort = rport, readBuf = [], isConnOpen = False,
          closeChan = [], openChan = [], chansClosed = False,
          isServerConnection = False, isRunLoopRunning = False,
          rttMeasurement = NewRttMeasurement, txChan = [], txPrioChan = [],
          dataReader = NewDataReader 100 50, pushing = [],
          packetNumberGenerator = gen, inflightPackets = Map.empty,
          currentReadTimeout = IdleReadTimeout options, wire_out = []\<rparr>
      | _ \<Rightarrow> Panic ''could not create initial sequence number'')"

definition Conn_start :: "Conn \<Rightarrow> unit outcome \<times> Conn" where
  "Conn_start c =
     (if isRunLoopRunning c then (Err (New ''connection run loop already running''), c)
      else (Ok (), c\<lparr>isRunLoopRunning := True\<rparr>))"

section \<open>Sending\<close>

text \<open>A send on one of the transmit channels; \<open>teardown\<close> closes \<open>txChan\<close>, not \<open>txPrioChan\<close>.\<close>

definition send :: "Codable \<Rightarrow> Conn \<Rightarrow> nat outcome \<times> Conn" where
  "send msg c =
     (if chansClosed c then (Panic ''send on closed channel'', c)
      else (Ok (Size msg), c\<lparr>txChan := txChan c @ [msg]\<rparr>))"

definition send_prio :: "Codable \<Rightarrow> Conn \<Rightarrow> nat outcome \<times> Conn" where
  "send_prio msg c = (Ok (Size msg), c\<lparr>txPrioChan := txPrioChan c @ [msg]\<rparr>)"

text \<open>
  The loop of \<open>Write\<close>: the payloads of the messages it sends, in order. It sends full packets
  until less than a packet is left, and then the rest; it does not return when the packet
  size is 0.
\<close>

partial_function (option) write_loop :: "nat \<Rightarrow> byte list \<Rightarrow> byte list list \<Rightarrow> byte list list option" where
  "write_loop maxSize payload sent =
     (if length payload < maxSize then Some (sent @ [payload])
      else write_loop maxSize (drop maxSize payload) (sent @ [take maxSize payload]))"

fun send_all :: "byte list list \<Rightarrow> Conn \<Rightarrow> nat outcome \<times> Conn" where
  "send_all [] c = (Ok 0, c)"
| "send_all [b] c = send (MData (NewData b)) c"
| "send_all (b # bs) c = (case send (MData (NewData b)) c of
      (Ok _, c') \<Rightarrow> send_all bs c' | (r, c') \<Rightarrow> (r, c'))"

text \<open>\<open>None\<close> when the call does not return. The last \<open>send\<close> supplies the returned count.\<close>

definition Conn_Write :: "byte list \<Rightarrow> Conn \<Rightarrow> (nat outcome \<times> Conn) option" where
  "Conn_Write b c =
     (if \<not> isConnOpen c then Some (Err ErrConnectionNotReady, c)
      else if b = [] then Some (Ok 0, c)
      else case write_loop (unat (MaxPacketSize (Options c))) b [] of
        None \<Rightarrow> None
      | Some chunks \<Rightarrow> Some (send_all chunks c))"

definition isAckElicitingPacket :: "Codable \<Rightarrow> bool" where
  "isAckElicitingPacket msg =
     (let t = MessageType (GetHeader msg) in
      if t = MessageTypeAck then False
      else if t \<in> {MessageTypeConn, MessageTypeConnAck, MessageTypeData, MessageTypeClose} then True
      else False)"

type_synonym udp_write = "byte list \<Rightarrow> nat \<times> go_error option"

definition transmit :: "'b cryptobyte \<Rightarrow> udp_write \<Rightarrow> int \<Rightarrow> Codable \<Rightarrow> Conn \<Rightarrow> nat outcome \<times> Conn" where
  "transmit cb wr now msg c =
     (let requiresAck = isAckElicitingPacket msg;
          p = \<lparr>transmissionTime = now, pkt_seqNr = peekSeq c, pkt_payload = [],
               rtoDuration = RTO (rttMeasurement c), retransmits = 0\<rparr>;
          msg = (if requiresAck then SetSeqNr msg (pkt_seqNr p) else msg)
      in case Marshal cb msg of
           Err e \<Rightarrow> (Err e, c) | Block \<Rightarrow> (Block, c) | Panic s \<Rightarrow> (Panic s, c)
         | Ok buf \<Rightarrow>
           (let c1 = (if requiresAck
                then set_CC (SentMessages 1) (c\<lparr>inflightPackets :=
                       (inflightPackets c)(pkt_seqNr p \<mapsto> p\<lparr>pkt_payload := buf\<rparr>)\<rparr>)
                else c)
            in case wr buf of
                 (n, Some e) \<Rightarrow> (Err e, c1)
               | (n, None) \<Rightarrow>
                 (let c2 = c1\<lparr>wire_out := wire_out c1 @ [buf]\<rparr>;
                      c3 = (if requiresAck then c2\<lparr>packetNumberGenerator :=
                               snd (Gen_Next (packetNumberGenerator c2))\<rparr> else c2)
                  in if n \<noteq> length buf then (Err ShortWrite, c3) else (Ok n, c3))))"

definition retransmit :: "udp_write \<Rightarrow> int \<Rightarrow> u16 \<Rightarrow> packet \<Rightarrow> Conn \<Rightarrow> nat outcome \<times> Conn" where
  "retransmit wr now k p c =
     (let c1 = set_CC (HandleEvent Loss) c;
          p1 = p\<lparr>transmissionTime := now, retransmits := retransmits p + 1\<rparr>;
          c2 = c1\<lparr>inflightPackets := (inflightPackets c1)(k \<mapsto> p1)\<rparr>
      in case wr (pkt_payload p) of
           (n, Some e) \<Rightarrow> (Err e, c2)
         | (n, None) \<Rightarrow> (Ok n, c2\<lparr>wire_out := wire_out c2 @ [pkt_payload p]\<rparr>))"

text \<open>\<open>ks\<close>: the keys of \<open>inflightPackets\<close> in the order of the iteration.\<close>

fun proccessRetransmission :: "udp_write \<Rightarrow> int \<Rightarrow> u16 list \<Rightarrow> Conn \<Rightarrow> unit outcome \<times> Conn" where
  "proccessRetransmission wr now [] c = (Ok (), c)"
| "proccessRetransmission wr now (k # ks) c = (case inflightPackets c k of
      None \<Rightarrow> proccessRetransmission wr now ks c
    | Some p \<Rightarrow>
        if now - transmissionTime p \<le> rtoDuration p then proccessRetransmission wr now ks c
        else (case retransmit wr now k p c of (_, c1) \<Rightarrow>
          if retransmits p + 1 > MaxRetransmits (Options c1)
          then (Err (New ''connection broken: too many retransmitts''), c1)
          else proccessRetransmission wr now ks c1))"

definition processAck :: "int \<Rightarrow> PacketHeader \<Rightarrow> Conn \<Rightarrow> Conn" where
  "processAck now h c = (case inflightPackets c (SeqNr h) of
      Some p \<Rightarrow>
        (let c1 = c\<lparr>inflightPackets := (inflightPackets c)(SeqNr h := None)\<rparr>;
             c2 = c1\<lparr>rttMeasurement := Update (transmissionTime p) now (rttMeasurement c1)\<rparr>;
             c3 = set_CC (ReceivedAcks 1) c2
         in if retransmits p = 0 then set_CC (UpdateRTT (srtt (rttMeasurement c3))) c3 else c3)
    | None \<Rightarrow> set_CC (HandleEvent Duplicate) c)"

definition closeMessage :: "byte \<Rightarrow> Conn \<Rightarrow> Codable" where
  "closeMessage reason c = MClose \<lparr>close_Header = zeroHeader\<lparr>ProtocolType := Version (Options c),
     MessageType := MessageTypeClose\<rparr>, Reason = reason, Raw = []\<rparr>"

text \<open>The package-internal \<open>close\<close>, and \<open>Close\<close> for the layer above.\<close>

definition closeWith :: "'b cryptobyte \<Rightarrow> udp_write \<Rightarrow> int \<Rightarrow> byte \<Rightarrow> Conn \<Rightarrow> unit outcome \<times> Conn" where
  "closeWith cb wr now reason c = (case transmit cb wr now (closeMessage reason c) c of
      (Ok _, c') \<Rightarrow> if chansClosed c' then (Panic ''send on closed channel'', c')
        else (Ok (), c'\<lparr>closeChan := closeChan c' @ [None]\<rparr>)
    | (Err e, c') \<Rightarrow> (Err e, c') | (Block, c') \<Rightarrow> (Block, c') | (Panic s, c') \<Rightarrow> (Panic s, c'))"

definition Conn_Close :: "'b cryptobyte \<Rightarrow> udp_write \<Rightarrow> int \<Rightarrow> Conn \<Rightarrow> unit outcome \<times> Conn" where
  "Conn_Close cb wr now c = closeWith cb wr now CloseResonsDisconnect c"

definition createConnReq :: "Conn \<Rightarrow> MsgConn" where
  "createConnReq c = \<lparr>conn_Header = zeroHeader\<lparr>ProtocolType := Version (Options c),
     MessageType := MessageTypeConn\<rparr>, conn_MaxPacketSize = MaxPacketSize (Options c),
     conn_InitCwndSize = InitCwndSize (Options c), conn_MaxCwndSize = MaxCwndSize (Options c)\<rparr>"

definition ackMessage :: "u16 \<Rightarrow> Conn \<Rightarrow> Codable" where
  "ackMessage seqNr c = MAck \<lparr>ack_Header = zeroHeader\<lparr>ProtocolType := Version (Options c),
     MessageType := MessageTypeAck, SeqNr := seqNr\<rparr>\<rparr>"

definition sendAck :: "u16 \<Rightarrow> Conn \<Rightarrow> Conn" where
  "sendAck seqNr c = snd (send_prio (ackMessage seqNr c) c)"

definition SetReadTimeout :: "int \<Rightarrow> Conn \<Rightarrow> Conn" where
  "SetReadTimeout t c = c\<lparr>currentReadTimeout := t\<rparr>"

definition ResetReadTimeout :: "Conn \<Rightarrow> Conn" where
  "ResetReadTimeout c = c\<lparr>currentReadTimeout := IdleReadTimeout (Options c)\<rparr>"

end
