(* ===== verification/Btp_Stream.thy ===== *)
theory Btp_Stream
  imports Btp_Conn
begin

text \<open>
  \<open>Conn.Write\<close> and \<open>Conn.Read\<close> (btp/conn.go) as the two ends of a byte stream: how \<open>Write\<close>
  cuts its argument into packets, and \<open>Read\<close> as the \<open>stream_source\<close> the layer above decodes
  from. \<open>drain\<close> is what repeated calls of \<open>Next\<close> would still deliver.
\<close>

section \<open>The chunks of Write\<close>

definition chunk_list :: "nat \<Rightarrow> byte list list \<Rightarrow> bool" where
  "chunk_list m cs \<longleftrightarrow> cs \<noteq> [] \<and> (\<forall>c \<in> set (butlast cs). length c = m) \<and> length (last cs) < m"

lemma chunk_list_Cons: "length c = m \<Longrightarrow> chunk_list m cs \<Longrightarrow> chunk_list m (c # cs)"
  by (simp add: chunk_list_def)

lemma chunk_list_le: "chunk_list m cs \<Longrightarrow> c \<in> set cs \<Longrightarrow> length c \<le> m"
  unfolding chunk_list_def
  by (metis append_butlast_last_id in_set_conv_decomp less_imp_le order_refl rotate1.simps(2)
      set_ConsD set_rotate1)

lemma write_loop_chunks:
  assumes "0 < m"
  shows "\<exists>cs. write_loop m b sent = Some (sent @ cs) \<and> concat cs = b \<and> chunk_list m cs
    \<and> length cs = length b div m + 1"
proof (induction b arbitrary: sent rule: measure_induct_rule [where f = length])
  case (less b)
  show ?case
  proof (cases "length b < m")
    case True
    then show ?thesis
      by (intro exI [of _ "[b]"]) (simp add: write_loop.simps chunk_list_def)
  next
    case False
    with assms have "length (drop m b) < length b" by simp
    from less [OF this, of "sent @ [take m b]"] obtain cs
      where cs: "write_loop m (drop m b) (sent @ [take m b]) = Some (sent @ take m b # cs)"
        "concat cs = drop m b" "chunk_list m cs" "length cs = length (drop m b) div m + 1"
      by auto
    have "length b div m = (length b - m) div m + 1"
      using False assms by (simp add: le_div_geq)
    with cs False show ?thesis
      by (intro exI [of _ "take m b # cs"]) (simp add: write_loop.simps [of m b] chunk_list_Cons)
  qed
qed

text \<open>With a packet size of 0 the loop does not end.\<close>

lemma write_loop_zero: "write_loop 0 b sent = None"
proof -
  have "m \<noteq> 0" if "write_loop m b sent = Some r" for m b sent r
    by (rule write_loop.raw_induct [of "\<lambda>m b sent r. m \<noteq> 0", OF _ that])
      (auto split: if_splits)
  then show ?thesis by (cases "write_loop 0 b sent") auto
qed

lemma send_all_open:
  assumes "\<not> chansClosed c" and "bs \<noteq> []"
  shows "send_all bs c = (Ok (Size (MData (NewData (last bs)))),
    c\<lparr>txChan := txChan c @ map (\<lambda>b. MData (NewData b)) bs\<rparr>)"
  using assms by (induction bs c rule: send_all.induct) (auto simp: send_def)

lemma Conn_Write_queues:
  assumes "isConnOpen c" and "\<not> chansClosed c" and "b \<noteq> []" and "0 < MaxPacketSize (Options c)"
  shows "\<exists>cs. Conn_Write b c = Some (Ok (Size (MData (NewData (last cs)))),
      c\<lparr>txChan := txChan c @ map (\<lambda>b. MData (NewData b)) cs\<rparr>)
    \<and> concat cs = b \<and> chunk_list (unat (MaxPacketSize (Options c))) cs
    \<and> length cs = length b div unat (MaxPacketSize (Options c)) + 1"
proof -
  have "0 < unat (MaxPacketSize (Options c))" using assms(4) by (simp add: unat_gt_0)
  from write_loop_chunks [OF this, of b "[]"] obtain cs
    where cs: "write_loop (unat (MaxPacketSize (Options c))) b [] = Some cs" "concat cs = b"
      "chunk_list (unat (MaxPacketSize (Options c))) cs"
      "length cs = length b div unat (MaxPacketSize (Options c)) + 1" by auto
  moreover from cs(3) have "cs \<noteq> []" by (simp add: chunk_list_def)
  ultimately show ?thesis
    using assms by (auto simp: Conn_Write_def send_all_open)
qed

section \<open>Read\<close>

text \<open>The loop that fills \<open>readBuf\<close> until the request can be met.\<close>

function (sequential) fillBuf :: "nat \<Rightarrow> byte list \<Rightarrow> sequentialDataReader
    \<Rightarrow> unit outcome \<times> byte list \<times> sequentialDataReader" where
  "fillBuf n b s =
     (if length b < n then
        (case Next s of
           (Ok inPacket, s') \<Rightarrow> fillBuf n (b @ Payload inPacket) s'
         | (Err e, s') \<Rightarrow> (Err e, b, s')
         | (Block, s') \<Rightarrow> (Block, b, s')
         | (Panic p, s') \<Rightarrow> (Panic p, b, s'))
      else (Ok (), b, s))"
  by pat_completeness auto
termination
  by (relation "measure (\<lambda>(n, b, s). rsize s)") (auto intro: Next_size [OF sym])

declare fillBuf.simps [simp del]

text \<open>After the loop \<open>bytes.Buffer.Read\<close> hands out the first \<open>n\<close> bytes.\<close>

definition Conn_Read :: "Conn reader" where
  "Conn_Read c n = (case fillBuf n (readBuf c) (dataReader c) of
      (Ok _, b, s) \<Rightarrow> (Ok (take n b), c\<lparr>readBuf := drop n b, dataReader := s\<rparr>)
    | (Err e, b, s) \<Rightarrow> (Err e, c\<lparr>readBuf := b, dataReader := s\<rparr>)
    | (Block, b, s) \<Rightarrow> (Block, c\<lparr>readBuf := b, dataReader := s\<rparr>)
    | (Panic p, b, s) \<Rightarrow> (Panic p, c\<lparr>readBuf := b, dataReader := s\<rparr>))"

function (sequential) drain :: "sequentialDataReader \<Rightarrow> byte list" where
  "drain s = (case Next s of (Ok d, s') \<Rightarrow> Payload d @ drain s' | _ \<Rightarrow> [])"
  by pat_completeness auto
termination
  by (relation "measure rsize") (auto intro: Next_size [OF sym])

declare drain.simps [simp del]

lemma drain_Ok: "Next s = (Ok d, s') \<Longrightarrow> drain s = Payload d @ drain s'"
  by (simp add: drain.simps [of s])

definition unread :: "Conn \<Rightarrow> byte list" where
  "unread c = readBuf c @ drain (dataReader c)"

lemma fillBuf_enough:
  assumes "n \<le> length (b @ drain s)"
  shows "\<exists>b' s'. fillBuf n b s = (Ok (), b', s') \<and> n \<le> length b' \<and> b' @ drain s' = b @ drain s"
  using assms
proof (induction n b s rule: fillBuf.induct)
  case (1 n b s)
  show ?case
  proof (cases "length b < n")
    case True
    then have "drain s \<noteq> []" using "1.prems" by auto
    then obtain d s' where N: "Next s = (Ok d, s')"
      by (subst (asm) drain.simps) (auto split: prod.splits outcome.splits)
    with "1.IH" [OF True N [symmetric]] "1.prems" True show ?thesis
      by (simp add: drain_Ok fillBuf.simps [of n b s])
  qed (simp add: fillBuf.simps)
qed

text \<open>On a closed channel the loop ends, with an error when there are not enough bytes.\<close>

lemma recvLoop_closed: "chanClosed s \<Longrightarrow> recvLoop ch s = (r, s') \<Longrightarrow> r = Err EOF \<or> (\<exists>d. r = Ok d)"
  by (induction ch s rule: recvLoop.induct) (auto split: if_splits)

lemma Next_closed:
  "chanClosed s \<Longrightarrow> rd_buf s \<noteq> [] \<Longrightarrow> Next s = (r, s') \<Longrightarrow> r = Err EOF \<or> (\<exists>d. r = Ok d)"
  using recvLoop_closed by (fastforce simp: Next_def Let_def split: option.splits)

lemma fillBuf_closed:
  assumes "chanClosed s" and "rd_buf s \<noteq> []" and "length (b @ drain s) < n"
  shows "\<exists>b' s'. fillBuf n b s = (Err EOF, b', s')"
  using assms
proof (induction n b s rule: fillBuf.induct)
  case (1 n b s)
  obtain r s' where N: "Next s = (r, s')" by (cases "Next s")
  from Next_closed [OF "1.prems"(1,2) N] show ?case
  proof
    assume "r = Err EOF"
    with N "1.prems"(3) show ?thesis by (simp add: fillBuf.simps [of n b s])
  next
    assume "\<exists>d. r = Ok d"
    then obtain d where d: "r = Ok d" by blast
    have "chanClosed s'" "rd_buf s' \<noteq> []" using Next_frame [OF N] "1.prems" by auto
    with "1.IH" [OF _ N [unfolded d, symmetric]] "1.prems"(3) N d show ?thesis
      by (simp add: fillBuf.simps [of n b s] drain_Ok)
  qed
qed

interpretation conn_reader: stream_source Conn_Read unread
proof unfold_locales
  fix n c
  assume "n \<le> length (unread c)"
  then obtain b s where f: "fillBuf n (readBuf c) (dataReader c) = (Ok (), b, s)"
      "n \<le> length b" "b @ drain s = unread c"
    using fillBuf_enough [of n "readBuf c" "dataReader c"] by (auto simp: unread_def)
  have "take n b = take n (unread c)" "drop n b @ drain s = drop n (unread c)"
    using f(2) unfolding f(3) [symmetric] by simp_all
  with f show "\<exists>r'. Conn_Read c n = (Ok (take n (unread c)), r') \<and> unread r' = drop n (unread c)"
    by (simp add: Conn_Read_def unread_def)
next
  fix c
  show "\<exists>r'. Conn_Read c 0 = (Ok [], r') \<and> unread r' = unread c"
    by (simp add: Conn_Read_def unread_def fillBuf.simps)
qed

text \<open>What the reader delivers when the pending packets are a run of consecutive numbers.\<close>

lemma drain_take_data:
  "take_data k s = (ds, s') \<Longrightarrow> length ds = k \<Longrightarrow> drain s = concat (map Payload ds) @ drain s'"
proof (induction k arbitrary: s ds)
  case (Suc k)
  obtain res t where N: "Next s = (res, t)" by (cases "Next s")
  show ?case
  proof (cases res)
    case (Ok d)
    obtain es u where tk: "take_data k t = (es, u)" by (cases "take_data k t")
    with Suc.prems Ok N have "ds = d # es" "u = s'" "length es = k" by auto
    with Suc.IH [of t es] tk N Ok show ?thesis by (simp add: drain_Ok)
  qed (use Suc.prems N in auto)
qed auto

lemma drain_reorders:
  assumes "reader_inv W s" and "mset (pend s) = mset ps"
    and "map seqOf ps = seqs (nextSeqNr s) (length ps)" and "length ps \<le> 2 ^ 16"
  shows "drain s = concat (map Payload ps)"
proof -
  from take_data_reorders [OF assms] obtain s'
    where t: "take_data (length ps) s = (ps, s')" "pend s' = []" "reader_inv W s'" by blast
  obtain r u where N: "Next s' = (r, u)" by (cases "Next s'")
  with Next_correct [OF t(3) N] t(2) have "r = (if chanClosed s' then Err EOF else Block)"
    by (auto simp: next_missing_def)
  with N have "drain s' = []" by (simp add: drain.simps)
  with drain_take_data [OF t(1)] show ?thesis by simp
qed

end
