(* ===== verification/Btp_Handshake.thy ===== *)
theory Btp_Handshake
  imports Btp_Stream
begin

text \<open>
  Receiving (btp/conn.go \<open>recv\<close>, \<open>onMessage\<close>) and the handshake: the client's half in
  btp/conn_client.go and \<open>Dial\<close>, the server's in btp/listener.go. Calls that wait for the
  other side are cut there: \<open>Dial_begin\<close> and \<open>serverHandshake_begin\<close> run up to the receive on
  \<open>openChan\<close>, \<open>recvOpen\<close> is that receive.
\<close>

section \<open>Channels that report to the caller and to the run loop\<close>

definition sendOpen :: "go_error option \<Rightarrow> Conn \<Rightarrow> unit outcome \<times> Conn" where
  "sendOpen e c =
     (if chansClosed c then (Panic ''send on closed channel'', c)
      else (Ok (), c\<lparr>openChan := openChan c @ [e]\<rparr>))"

definition sendClose :: "go_error option \<Rightarrow> Conn \<Rightarrow> unit outcome \<times> Conn" where
  "sendClose e c =
     (if chansClosed c then (Panic ''send on closed channel'', c)
      else (Ok (), c\<lparr>closeChan := closeChan c @ [e]\<rparr>))"

text \<open>A receive on a closed channel returns the zero value nil.\<close>

definition recvOpen :: "Conn \<Rightarrow> go_error option outcome \<times> Conn" where
  "recvOpen c = (case openChan c of
      e # es \<Rightarrow> (Ok e, c\<lparr>openChan := es\<rparr>)
    | [] \<Rightarrow> ((if chansClosed c then Ok None else Block), c))"

section \<open>The client\<close>

definition initiateClientHandshake :: "Conn \<Rightarrow> unit outcome \<times> Conn" where
  "initiateClientHandshake c =
     (if isConnOpen c then (Err (New ''connection already open''), c)
      else (case send (MConn (createConnReq c)) c of
          (Ok _, c') \<Rightarrow> (Ok (), c') | (Err e, c') \<Rightarrow> (Err e, c')
        | (Block, c') \<Rightarrow> (Block, c') | (Panic s, c') \<Rightarrow> (Panic s, c')))"

text \<open>\<open>dial\<close>: the result of \<open>net.DialUDP\<close>. The port is written through the shared address.\<close>

definition completeClientHandshake :: "unit outcome \<Rightarrow> MsgConnAck \<Rightarrow> Conn \<Rightarrow> unit outcome \<times> Conn" where
  "completeClientHandshake dial resp c =
     (if ActualInitCwndSize resp > InitCwndSize (Options c)
      then (Err (ErrInvalidHandshakeOption ''ActualInitCwndSize''), c)
      else if ActualMaxCwndSize resp > MaxCwndSize (Options c)
      then (Err (ErrInvalidHandshakeOption ''ActualMaxCwndSize''), c)
      else
        (let c1 = c\<lparr>Options := (Options c)\<lparr>MaxCwndSize := ActualMaxCwndSize resp,
                      InitCwndSize := ActualInitCwndSize resp,
                      MaxPacketSize := ActualPacketSize resp\<rparr>,
                    remotePort := MigrationPort resp\<rparr>
         in case dial of
              Ok _ \<Rightarrow> (Ok (), sendAck (ServerSeqNr resp) c1)
            | e \<Rightarrow> (e, c1)))"

definition Dial_begin :: "'b cryptobyte \<Rightarrow> udp_write \<Rightarrow> int \<Rightarrow> unit outcome \<Rightarrow> (byte \<times> byte) outcome
    \<Rightarrow> u16 \<Rightarrow> ConnOptions \<Rightarrow> Conn outcome" where
  "Dial_begin cb wr now dial rnd rport options = bindO dial (\<lambda>_. bindO (newConn rnd rport options)
     (\<lambda>c. case initiateClientHandshake c of
         (Ok _, c1) \<Rightarrow> Ok (snd (Conn_start c1))
       | (Err e, c1) \<Rightarrow> (case closeWith cb wr now CloseReasonBadRequest c1 of
            (Panic s, _) \<Rightarrow> Panic s | _ \<Rightarrow> Err e)
       | (Block, _) \<Rightarrow> Block | (Panic s, _) \<Rightarrow> Panic s))"

text \<open>The end of \<open>Dial\<close> and of \<open>doServerHandshake\<close>: wait for the outcome of the handshake.\<close>

definition awaitOpen :: "Conn \<Rightarrow> Conn outcome" where
  "awaitOpen c = (case recvOpen c of
      (Ok None, c') \<Rightarrow> Ok c' | (Ok (Some e), c') \<Rightarrow> Err e
    | (Err e, c') \<Rightarrow> Err e | (Block, c') \<Rightarrow> Block | (Panic s, c') \<Rightarrow> Panic s)"

section \<open>Incoming messages\<close>

text \<open>\<open>netread\<close>: what \<open>Read\<close> on the UDP socket returned, the datagram or an error.\<close>

definition recv :: "'b cryptobyte \<Rightarrow> byte list outcome \<Rightarrow> Conn \<Rightarrow> Codable outcome" where
  "recv cb netread c = bindO netread (recvDecode cb (ReadBufferCap (Options c)))"

definition onAck :: "int \<Rightarrow> Codable \<Rightarrow> Conn \<Rightarrow> unit outcome \<times> Conn" where
  "onAck now msg c =
     (let h = GetHeader msg in
      if isServerConnection c \<and> \<not> isConnOpen c then
        (case msg of
           MAck ack \<Rightarrow>
             if SeqNr (ack_Header ack) \<noteq> peekSeq c
             then (case sendOpen (Some ErrInvalidClientResp) c of
                 (Ok _, c') \<Rightarrow> (Err ErrInvalidSeqNr, c') | r \<Rightarrow> r)
             else sendOpen None (c\<lparr>isConnOpen := True\<rparr>)
         | _ \<Rightarrow> (Panic ''interface conversion'', c))
      else (Ok (), processAck now h c))"

definition onConnAck :: "int \<Rightarrow> unit outcome \<Rightarrow> Codable \<Rightarrow> Conn \<Rightarrow> unit outcome \<times> Conn" where
  "onConnAck now dial msg c =
     (if isServerConnection c then (Ok (), c)
      else if isConnOpen c then (Ok (), c)
      else
        (let c1 = processAck now (GetHeader msg) c in
         case msg of
           MConnAck resp \<Rightarrow>
             (case completeClientHandshake dial resp c1 of
                (Ok _, c2) \<Rightarrow> sendOpen None (c2\<lparr>dataReader := (dataReader c2)\<lparr>nextSeqNr := ServerSeqNr resp\<rparr>,
                                                 isConnOpen := True\<rparr>)
              | (Err e, c2) \<Rightarrow> (case sendOpen (Some e) c2 of (Ok _, c3) \<Rightarrow> (Err e, c3) | r \<Rightarrow> r)
              | r \<Rightarrow> r)
         | _ \<Rightarrow> (Panic ''interface conversion'', c1)))"

text \<open>\<open>go c.sequentialDataReader.Push(...)\<close> adds a sender to \<open>pushing\<close>; \<open>runPush\<close> is its step.\<close>

definition onData :: "Codable \<Rightarrow> Conn \<Rightarrow> unit outcome \<times> Conn" where
  "onData msg c =
     (if \<not> isConnOpen c then (Err ErrConnectionNotReady, c)
      else (let c1 = sendAck (SeqNr (GetHeader msg)) c in
        case msg of MData d \<Rightarrow> (Ok (), c1\<lparr>pushing := pushing c1 @ [d]\<rparr>)
        | _ \<Rightarrow> (Panic ''interface conversion'', c1)))"

definition onClose :: "Codable \<Rightarrow> Conn \<Rightarrow> unit outcome \<times> Conn" where
  "onClose msg c =
     (if \<not> isConnOpen c then (Err ErrConnectionNotReady, c)
      else sendClose None (sendAck (SeqNr (GetHeader msg)) c))"

definition onMessage :: "int \<Rightarrow> unit outcome \<Rightarrow> Codable \<Rightarrow> Conn \<Rightarrow> unit outcome \<times> Conn" where
  "onMessage now dial msg c =
     (let t = MessageType (GetHeader msg) in
      if t = MessageTypeAck then onAck now msg c
      else if t = MessageTypeConnAck then onConnAck now dial msg c
      else if t = MessageTypeConn then (Ok (), c)
      else if t = MessageTypeData then onData msg c
      else if t = MessageTypeClose then onClose msg c
      else (Ok (), c))"

definition runPush :: "nat \<Rightarrow> Conn \<Rightarrow> unit outcome \<times> Conn" where
  "runPush i c =
     (if i < length (pushing c) then
        (case Push (Some (pushing c ! i)) (dataReader c) of
           (Ok _, r) \<Rightarrow> (Ok (), c\<lparr>dataReader := r, pushing := take i (pushing c) @ drop (Suc i) (pushing c)\<rparr>)
         | (e, r) \<Rightarrow> (e, c))
      else (Ok (), c))"

section \<open>The server\<close>

text \<open>The request is read into a buffer of the size of a \<open>Conn\<close> message.\<close>

definition recvConnFrom :: "'b cryptobyte \<Rightarrow> byte list outcome \<Rightarrow> MsgConn outcome" where
  "recvConnFrom cb netread = bindO netread (\<lambda>datagram.
     (let buf = take (HeaderSize + ConnSize) datagram in
      if length buf \<noteq> HeaderSize + ConnSize then Err UnexpectedEOF
      else bindO (ParseHeader cb buf) (\<lambda>h. fst (Conn_Unmarshal cb h (drop HeaderSize buf)))))"

definition createConnResp :: "ConnOptions \<Rightarrow> u16 \<Rightarrow> MsgConn \<Rightarrow> MsgConnAck" where
  "createConnResp options localPort req =
     (let resp = \<lparr>connack_Header = \<lparr>ProtocolType = Version options, MessageType = MessageTypeConnAck,
                    SeqNr = SeqNr (conn_Header req), Flags = 2\<rparr>,
                  ServerSeqNr = 0, ActualPacketSize = conn_MaxPacketSize req,
                  ActualInitCwndSize = conn_InitCwndSize req,
                  ActualMaxCwndSize = conn_MaxCwndSize req, MigrationPort = localPort\<rparr>;
          resp = (if conn_InitCwndSize req > InitCwndSize options
                  then resp\<lparr>ActualInitCwndSize := InitCwndSize options\<rparr> else resp);
          resp = (if conn_MaxCwndSize req > MaxCwndSize options
                  then resp\<lparr>ActualMaxCwndSize := MaxCwndSize options\<rparr> else resp)
      in if conn_MaxPacketSize req > MaxPacketSize options
         then resp\<lparr>ActualPacketSize := MaxPacketSize options\<rparr> else resp)"

definition dialMigratedConn :: "unit outcome \<Rightarrow> (byte \<times> byte) outcome \<Rightarrow> u16 \<Rightarrow> ConnOptions \<Rightarrow> Conn outcome" where
  "dialMigratedConn dial rnd rport options = bindO dial (\<lambda>_.
     bindO (newConn rnd rport (ConnOptions_Clone options)) (\<lambda>c. Ok (c\<lparr>isServerConnection := True\<rparr>)))"

text \<open>
  \<open>localPort\<close> is the port of the new socket, \<open>wr i\<close> the error of the \<open>i\<close>-th of the three
  \<open>WriteToUDP\<close> calls on the listening socket. The result: the connection, which waits for the
  client, and the datagrams that were sent.
\<close>

definition serverHandshake_begin :: "'b cryptobyte \<Rightarrow> byte list outcome \<Rightarrow> u16 \<Rightarrow> unit outcome
    \<Rightarrow> (byte \<times> byte) outcome \<Rightarrow> u16 \<Rightarrow> (nat \<Rightarrow> go_error option) \<Rightarrow> ConnOptions
    \<Rightarrow> (Conn \<times> byte list list) outcome" where
  "serverHandshake_begin cb netread rport dial rnd localPort wr options =
     bindO (recvConnFrom cb netread) (\<lambda>req.
     bindO (dialMigratedConn dial rnd rport options) (\<lambda>c.
     (let resp = (createConnResp options localPort req)\<lparr>ServerSeqNr := peekSeq c\<rparr>;
          c = c\<lparr>dataReader := (dataReader c)\<lparr>nextSeqNr := SeqNr (conn_Header req) + 1\<rparr>\<rparr>
      in bindO (Marshal cb (MConnAck resp)) (\<lambda>buf.
         case wr 0 of Some e \<Rightarrow> Err e | None \<Rightarrow>
         case wr 1 of Some e \<Rightarrow> Err e | None \<Rightarrow>
         case wr 2 of Some e \<Rightarrow> Err e | None \<Rightarrow>
         bindO (fst (Conn_start c)) (\<lambda>_. Ok (snd (Conn_start c), [buf, buf, buf]))))))"

section \<open>What the negotiation agrees on\<close>

text \<open>Each option becomes the minimum of what the two sides offer.\<close>

lemma createConnResp_min:
  "ActualInitCwndSize (createConnResp o2 p req) = min (conn_InitCwndSize req) (InitCwndSize o2)"
  "ActualMaxCwndSize (createConnResp o2 p req) = min (conn_MaxCwndSize req) (MaxCwndSize o2)"
  "ActualPacketSize (createConnResp o2 p req) = min (conn_MaxPacketSize req) (MaxPacketSize o2)"
  "MigrationPort (createConnResp o2 p req) = p"
  "connack_Header (createConnResp o2 p req) = \<lparr>ProtocolType = Version o2, MessageType = MessageTypeConnAck,
     SeqNr = SeqNr (conn_Header req), Flags = 2\<rparr>"
  by (auto simp: createConnResp_def Let_def min_def not_less)

end
