(* ===== verification/Btp_Run.thy ===== *)
theory Btp_Run
  imports Btp_Handshake
begin

text \<open>
  The two goroutines of \<open>Conn.run\<close> (btp/conn.go) and \<open>teardown\<close>: one pass of each loop is a
  function of the clock, of what the socket returned and of the choices the runtime makes. The
  step relation \<open>conn_step\<close> interleaves them with the calls of the layer above, and the
  invariant bounds the packets in flight.
\<close>

section \<open>The run loop\<close>

record RunLoop =
  closeErr :: "go_error option"
  shouldTerminate :: bool
  terminateAt :: int

definition newRunLoop :: RunLoop where
  "newRunLoop = \<lparr>closeErr = None, shouldTerminate = False, terminateAt = 0\<rparr>"

text \<open>
  What one pass of the loop gets from outside: the clock where the code reads it, which ready
  case \<open>select\<close> takes when both are ready, and the iteration order of the map.
\<close>

record tick =
  now_close :: int
  now_prio :: int
  now_term :: int
  now_tx :: int
  now_rtx :: int
  pick_close :: bool
  iter_order :: "u16 list"

datatype loop_result = Continue | Terminate | Broken go_error

definition run_prio :: "'b cryptobyte \<Rightarrow> udp_write \<Rightarrow> int \<Rightarrow> Conn \<Rightarrow> Conn" where
  "run_prio cb wr now c = (case txPrioChan c of
      [] \<Rightarrow> c | m # ms \<Rightarrow> snd (transmit cb wr now m (c\<lparr>txPrioChan := ms\<rparr>)))"

definition run_tx :: "'b cryptobyte \<Rightarrow> udp_write \<Rightarrow> int \<Rightarrow> Conn \<Rightarrow> Conn" where
  "run_tx cb wr now c =
     (if NumFreeSend (cc_of c) > 0 then
        (case txChan c of
           [] \<Rightarrow> c | m # ms \<Rightarrow> snd (transmit cb wr now m (c\<lparr>txChan := ms\<rparr>)))
      else c)"

definition run_select :: "'b cryptobyte \<Rightarrow> udp_write \<Rightarrow> tick \<Rightarrow> RunLoop \<Rightarrow> Conn \<Rightarrow> RunLoop \<times> Conn" where
  "run_select cb wr t r c =
     (if closeChan c \<noteq> [] \<and> (pick_close t \<or> txPrioChan c = [])
      then (r\<lparr>closeErr := hd (closeChan c), shouldTerminate := True,
               terminateAt := now_close t + 5 * 1000000000\<rparr>,
            c\<lparr>closeChan := tl (closeChan c)\<rparr>)
      else (r, run_prio cb wr (now_prio t) c))"

definition runIter :: "'b cryptobyte \<Rightarrow> udp_write \<Rightarrow> tick \<Rightarrow> RunLoop \<Rightarrow> Conn
    \<Rightarrow> loop_result \<times> RunLoop \<times> Conn" where
  "runIter cb wr t r c = (case run_select cb wr t r c of (r1, c1) \<Rightarrow>
     if shouldTerminate r1 \<and> (now_term t \<ge> terminateAt r1 \<or> txPrioChan c1 = [] \<and> txChan c1 = [])
     then (Terminate, r1, c1)
     else (case proccessRetransmission wr (now_rtx t) (iter_order t) (run_tx cb wr (now_tx t) c1) of
         (Err e, c2) \<Rightarrow> (Broken e, r1, c2)
       | (_, c2) \<Rightarrow> (Continue, r1, c2)))"

text \<open>\<open>teardown\<close>: the data channel is closed first; closing a closed channel panics.\<close>

definition teardown :: "Conn \<Rightarrow> unit outcome \<times> Conn" where
  "teardown c = (case Reader_Close (dataReader c) of
      (Ok _, r) \<Rightarrow>
        if chansClosed c then (Panic ''close of closed channel'', c\<lparr>dataReader := r\<rparr>)
        else (Ok (), c\<lparr>dataReader := r, chansClosed := True\<rparr>)
    | (e, r) \<Rightarrow> (e, c))"

text \<open>What \<open>run\<close> does after its loop, and the error it returns; \<open>None\<close> while it goes on.\<close>

definition runExit :: "loop_result \<times> RunLoop \<times> Conn \<Rightarrow> (go_error option outcome \<times> Conn) option" where
  "runExit res = (case res of
      (Continue, r, c) \<Rightarrow> None
    | (Broken e, r, c) \<Rightarrow> Some (Ok (Some e), c)
    | (Terminate, r, c) \<Rightarrow> (case teardown c of
        (Ok _, c') \<Rightarrow> Some (Ok (closeErr r), c') | (Err e, c') \<Rightarrow> Some (Err e, c')
      | (Block, c') \<Rightarrow> Some (Block, c') | (Panic s, c') \<Rightarrow> Some (Panic s, c')))"

text \<open>One pass of the receive loop; the result is whether it goes on.\<close>

definition recvIter :: "'b cryptobyte \<Rightarrow> int \<Rightarrow> unit outcome \<Rightarrow> bool \<Rightarrow> byte list outcome \<Rightarrow> RunLoop \<Rightarrow> Conn
    \<Rightarrow> bool outcome \<times> RunLoop \<times> Conn" where
  "recvIter cb now dial ctxDone netread r c =
     (if ctxDone then (Ok False, r, c\<lparr>isRunLoopRunning := False\<rparr>)
      else case recv cb netread c of
        Err e \<Rightarrow>
          if e = DeadlineExceeded
          then (case sendClose (Some e) c of
              (Ok _, c') \<Rightarrow> (Ok True, r\<lparr>closeErr := Some e\<rparr>, c')
            | (Err e', c') \<Rightarrow> (Err e', r\<lparr>closeErr := Some e\<rparr>, c')
            | (Block, c') \<Rightarrow> (Block, r\<lparr>closeErr := Some e\<rparr>, c')
            | (Panic s, c') \<Rightarrow> (Panic s, r\<lparr>closeErr := Some e\<rparr>, c'))
          else (Ok True, r, c)
      | Block \<Rightarrow> (Block, r, c)
      | Panic s \<Rightarrow> (Panic s, r, c)
      | Ok msg \<Rightarrow> (case onMessage now dial msg c of
            (Panic s, c') \<Rightarrow> (Panic s, r, c') | (Block, c') \<Rightarrow> (Block, r, c')
          | (_, c') \<Rightarrow> (Ok True, r, c')))"

section \<open>The packets in flight\<close>

definition flight_ok :: "int \<Rightarrow> int \<Rightarrow> Conn \<Rightarrow> bool" where
  "flight_ok w p c \<longleftrightarrow> finite (dom (inflightPackets c))
     \<and> int (card (dom (inflightPackets c))) \<le> pipe (cc_of c) \<and> pipe (cc_of c) \<le> p
     \<and> 1 \<le> cwnd (cc_of c) \<and> cwnd (cc_of c) \<le> w
     \<and> (\<forall>m \<in> set (txPrioChan c). \<not> isAckElicitingPacket m)"

lemma flight_ok_frame:
  assumes "flight_ok w p c" and "inflightPackets c' = inflightPackets c" and "cc_of c' = cc_of c"
    and "set (txPrioChan c') \<subseteq> set (txPrioChan c)"
  shows "flight_ok w p c'"
  using assms by (auto simp: flight_ok_def)

lemma flight_ok_mono: "flight_ok w p c \<Longrightarrow> p \<le> q \<Longrightarrow> flight_ok w q c"
  by (auto simp: flight_ok_def)

lemma set_CC_simps [simp]:
  "inflightPackets (set_CC f c) = inflightPackets c" "cc_of (set_CC f c) = f (cc_of c)"
  "txPrioChan (set_CC f c) = txPrioChan c" "txChan (set_CC f c) = txChan c"
  "MaxRetransmits (Options (set_CC f c)) = MaxRetransmits (Options c)"
  "packetNumberGenerator (set_CC f c) = packetNumberGenerator c" "wire_out (set_CC f c) = wire_out c"
  "dataReader (set_CC f c) = dataReader c" "isConnOpen (set_CC f c) = isConnOpen c"
  "rttMeasurement (set_CC f c) = rttMeasurement c" "chansClosed (set_CC f c) = chansClosed c"
  "openChan (set_CC f c) = openChan c" "isServerConnection (set_CC f c) = isServerConnection c"
  "remotePort (set_CC f c) = remotePort c" "readBuf (set_CC f c) = readBuf c"
  "pushing (set_CC f c) = pushing c" "closeChan (set_CC f c) = closeChan c"
  "MaxCwndSize (Options (set_CC f c)) = MaxCwndSize (Options c)"
  "InitCwndSize (Options (set_CC f c)) = InitCwndSize (Options c)"
  "MaxPacketSize (Options (set_CC f c)) = MaxPacketSize (Options c)"
  "Version (Options (set_CC f c)) = Version (Options c)"
  "ReadBufferCap (Options (set_CC f c)) = ReadBufferCap (Options c)"
  by (simp_all add: set_CC_def)

text \<open>Putting a packet into flight costs one place in the pipe, also when its number is in use.\<close>

lemma card_dom_update: "finite (dom m) \<Longrightarrow> card (dom (m(k \<mapsto> v))) \<le> Suc (card (dom m))"
  by (simp add: card_insert_if)

lemma transmit_state:
  "transmit cb wr now m c = (res, c') \<Longrightarrow>
     txPrioChan c' = txPrioChan c \<and>
     (inflightPackets c' = inflightPackets c \<and> cc_of c' = cc_of c \<or>
      isAckElicitingPacket m \<and> cc_of c' = SentMessages 1 (cc_of c) \<and>
      (\<exists>p. inflightPackets c' = (inflightPackets c)(peekSeq c \<mapsto> p)))"
  by (auto simp: transmit_def Let_def split: outcome.splits prod.splits option.splits if_splits)

lemma transmit_flight:
  assumes "flight_ok w p c" and "transmit cb wr now m c = (res, c')"
    and "isAckElicitingPacket m \<Longrightarrow> pipe (cc_of c) + 1 \<le> q" and "p \<le> q"
  shows "flight_ok w q c'"
  using transmit_state [OF assms(2)]
proof (elim conjE disjE exE)
  fix pk
  assume tx: "isAckElicitingPacket m" "cc_of c' = SentMessages 1 (cc_of c)"
      "inflightPackets c' = (inflightPackets c)(peekSeq c \<mapsto> pk)" "txPrioChan c' = txPrioChan c"
  have "finite (dom (inflightPackets c))" using assms(1) by (simp add: flight_ok_def)
  from card_dom_update [OF this, of "peekSeq c" pk] tx assms show ?thesis
    by (simp add: flight_ok_def)
next
  assume "inflightPackets c' = inflightPackets c" "cc_of c' = cc_of c" "txPrioChan c' = txPrioChan c"
  with assms(1,4) show ?thesis by (auto simp: flight_ok_def)
qed

lemma run_prio_flight: "flight_ok w p c \<Longrightarrow> flight_ok w p (run_prio cb wr now c)"
proof (cases "txPrioChan c")
  case (Cons m ms)
  assume ok: "flight_ok w p c"
  with Cons have m: "\<not> isAckElicitingPacket m" by (simp add: flight_ok_def)
  obtain r c' where t: "transmit cb wr now m (c\<lparr>txPrioChan := ms\<rparr>) = (r, c')" by fastforce
  have "flight_ok w p (c\<lparr>txPrioChan := ms\<rparr>)"
    by (rule flight_ok_frame [OF ok]) (use Cons in auto)
  from transmit_flight [OF this t, of p] m t Cons show ?thesis
    by (simp add: run_prio_def)
qed (simp add: run_prio_def)

lemma run_tx_flight:
  assumes ok: "flight_ok w p c" and "w \<le> p"
  shows "flight_ok w p (run_tx cb wr now c)"
proof (cases "NumFreeSend (cc_of c) > 0 \<and> txChan c \<noteq> []")
  case True
  then obtain m ms where m: "txChan c = m # ms" by (cases "txChan c") auto
  obtain r c' where t: "transmit cb wr now m (c\<lparr>txChan := ms\<rparr>) = (r, c')" by fastforce
  have "flight_ok w p (c\<lparr>txChan := ms\<rparr>)" by (rule flight_ok_frame [OF ok]) simp_all
  moreover have "pipe (cc_of c) + 1 \<le> p"
    using True assms elastic.free_iff [of "cc_of c"] by (auto simp: flight_ok_def)
  ultimately show ?thesis
    using transmit_flight [of w p _ cb wr now m r c' p] t True m by (simp add: run_tx_def)
qed (use ok in \<open>auto simp: run_tx_def split: list.splits\<close>)

lemma retransmit_flight:
  assumes "flight_ok w p c" and "k \<in> dom (inflightPackets c)"
  shows "flight_ok w p (snd (retransmit wr now k pk c))"
  using assms elastic.event_bounds [of "cc_of c" w Loss]
  by (auto simp: flight_ok_def retransmit_def Let_def insert_absorb domI split: prod.splits option.splits)

lemma proccessRetransmission_flight:
  "flight_ok w p c \<Longrightarrow> flight_ok w p (snd (proccessRetransmission wr now ks c))"
proof (induction ks arbitrary: c)
  case (Cons k ks)
  show ?case
  proof (cases "inflightPackets c k")
    case (Some pk)
    obtain r c1 where t: "retransmit wr now k pk c = (r, c1)" by fastforce
    with retransmit_flight [OF Cons.prems, of k wr now pk] Some have "flight_ok w p c1" by auto
    with Cons Some t show ?thesis by simp
  qed (use Cons in simp)
qed simp

lemma processAck_flight:
  assumes "flight_ok w p c" and "0 \<le> p"
  shows "flight_ok w p (processAck now h c)"
proof (cases "inflightPackets c (SeqNr h)")
  case None
  with assms elastic.event_bounds [of "cc_of c" w Duplicate] show ?thesis
    by (simp add: flight_ok_def processAck_def)
next
  case (Some pk)
  then have "SeqNr h \<in> dom (inflightPackets c)" by auto
  moreover have "finite (dom (inflightPackets c))" using assms by (simp add: flight_ok_def)
  ultimately have "card (dom (inflightPackets c)) = Suc (card (dom (inflightPackets c) - {SeqNr h}))"
    by (metis card_Suc_Diff1)
  with assms Some show ?thesis
    by (simp add: flight_ok_def processAck_def Let_def)
qed


section \<open>Times and retransmissions\<close>

text \<open>
  While the loop runs: no packet in flight has used up its retransmissions, every timeout is
  at least 400 milliseconds, the RTT estimates are not negative, and \<open>rtt_max\<close> is 0.
\<close>

definition timing_ok :: "Conn \<Rightarrow> bool" where
  "timing_ok c \<longleftrightarrow> rtt_ok (rttMeasurement c) \<and> rtt_max (cc_of c) = 0
     \<and> (\<forall>p \<in> ran (inflightPackets c). retransmits p \<le> MaxRetransmits (Options c)
          \<and> 400 * 1000000 \<le> rtoDuration p)"

lemma timing_ok_frame:
  assumes "timing_ok c" and "inflightPackets c' = inflightPackets c" and "cc_of c' = cc_of c"
    and "rttMeasurement c' = rttMeasurement c" and "MaxRetransmits (Options c') = MaxRetransmits (Options c)"
  shows "timing_ok c'"
  using assms by (simp add: timing_ok_def)

lemma ran_update: "q \<in> ran (m(k \<mapsto> v)) \<Longrightarrow> q = v \<or> q \<in> ran m"
  by (auto simp: ran_def split: if_splits)

lemma ran_remove: "q \<in> ran (m(k := None)) \<Longrightarrow> q \<in> ran m"
  by (auto simp: ran_def split: if_splits)

lemma transmit_packet:
  "transmit cb wr now m c = (res, c') \<Longrightarrow>
     rttMeasurement c' = rttMeasurement c \<and> MaxRetransmits (Options c') = MaxRetransmits (Options c)
     \<and> rtt_max (cc_of c') = rtt_max (cc_of c) \<and>
     (inflightPackets c' = inflightPackets c \<or>
      (\<exists>p. inflightPackets c' = (inflightPackets c)(peekSeq c \<mapsto> p) \<and> retransmits p = 0
         \<and> rtoDuration p = RTO (rttMeasurement c)))"
  by (auto simp: transmit_def Let_def split: outcome.splits prod.splits option.splits if_splits)

lemma transmit_timing:
  assumes "timing_ok c" and "transmit cb wr now m c = (res, c')"
  shows "timing_ok c'"
  using transmit_packet [OF assms(2)] assms(1) RTO_ge [of "rttMeasurement c"]
  by (auto simp: timing_ok_def dest!: ran_update)

lemma run_prio_timing: "timing_ok c \<Longrightarrow> timing_ok (run_prio cb wr now c)"
  unfolding run_prio_def
  by (auto split: list.split simp del: not_less intro!: transmit_timing [OF timing_ok_frame prod.collapse [symmetric]])

lemma run_tx_timing: "timing_ok c \<Longrightarrow> timing_ok (run_tx cb wr now c)"
  unfolding run_tx_def
  by (auto split: list.split intro!: transmit_timing [OF timing_ok_frame prod.collapse [symmetric]])

lemma retransmit_simps:
  assumes "retransmit wr now k p c = (res, c')"
  shows "inflightPackets c' = (inflightPackets c)(k \<mapsto> p\<lparr>transmissionTime := now, retransmits := retransmits p + 1\<rparr>)"
    and "rttMeasurement c' = rttMeasurement c" and "cc_of c' = HandleEvent Loss (cc_of c)"
    and "MaxRetransmits (Options c') = MaxRetransmits (Options c)"
  using assms by (auto simp: retransmit_def Let_def split: prod.splits option.splits)

lemma proccessRetransmission_timing:
  "timing_ok c \<Longrightarrow> proccessRetransmission wr now ks c = (Ok (), c') \<Longrightarrow> timing_ok c'"
proof (induction ks arbitrary: c)
  case (Cons k ks)
  show ?case
  proof (cases "inflightPackets c k")
    case (Some pk)
    obtain r c1 where t: "retransmit wr now k pk c = (r, c1)" by fastforce
    show ?thesis
    proof (cases "now - transmissionTime pk \<le> rtoDuration pk")
      case False
      with Cons.prems(2) Some t have lim: "retransmits pk + 1 \<le> MaxRetransmits (Options c1)"
        and go: "proccessRetransmission wr now ks c1 = (Ok (), c')"
        by (auto split: if_splits)
      have "pk \<in> ran (inflightPackets c)" using Some by (rule ranI)
      with Cons.prems(1) lim have "timing_ok c1"
        by (auto simp: timing_ok_def retransmit_simps [OF t] dest!: ran_update)
      with go show ?thesis by (rule Cons.IH [rotated])
    qed (use Cons Some in auto)
  qed (use Cons in auto)
qed auto

lemma proccessRetransmission_outcome:
  "proccessRetransmission wr now ks c = (x, c') \<Longrightarrow>
     x = Ok () \<or> x = Err (New ''connection broken: too many retransmitts'')"
  by (induction ks arbitrary: c) (auto split: option.splits if_splits prod.splits)

lemma processAck_timing: "timing_ok c \<Longrightarrow> timing_ok (processAck now h c)"
  by (auto simp: timing_ok_def processAck_def Let_def UpdateRTT_def rtt_ok_Update
      split: option.splits dest: ran_remove)

section \<open>Packets that are not acknowledged\<close>

text \<open>One pass over the map leaves a packet alone that is not overdue.\<close>

lemma proccessRetransmission_keeps:
  assumes "proccessRetransmission wr now ks c = (Ok (), c')" and "inflightPackets c k = Some p"
    and "now - transmissionTime p \<le> rtoDuration p"
  shows "inflightPackets c' k = Some p"
  using assms
proof (induction ks arbitrary: c)
  case (Cons j ks)
  show ?case
  proof (cases "inflightPackets c j")
    case (Some q)
    obtain r c1 where t: "retransmit wr now j q c = (r, c1)" by fastforce
    show ?thesis
    proof (cases "now - transmissionTime q \<le> rtoDuration q")
      case False
      with Cons.prems(2,3) Some have "j \<noteq> k" by auto
      with Cons.prems(2) have "inflightPackets c1 k = Some p" by (simp add: retransmit_simps(1) [OF t])
      moreover have "proccessRetransmission wr now ks c1 = (Ok (), c')"
        using Cons.prems(1) Some t False by (auto split: if_splits)
      ultimately show ?thesis using Cons.IH Cons.prems(3) by blast
    qed (use Cons Some in auto)
  qed (use Cons in auto)
qed auto

text \<open>An overdue packet is sent again, or the pass reports that the connection is broken.\<close>

lemma proccessRetransmission_resends:
  assumes "proccessRetransmission wr now ks c = (Ok (), c')" and "inflightPackets c k = Some p"
    and "rtoDuration p < now - transmissionTime p" and "k \<in> set ks" and "0 \<le> rtoDuration p"
  shows "inflightPackets c' k = Some (p\<lparr>transmissionTime := now, retransmits := retransmits p + 1\<rparr>)
    \<and> retransmits p + 1 \<le> MaxRetransmits (Options c) \<and> MaxRetransmits (Options c') = MaxRetransmits (Options c)"
  using assms
proof (induction ks arbitrary: c)
  case (Cons j ks)
  have mr: "MaxRetransmits (Options c') = MaxRetransmits (Options c)"
    if "proccessRetransmission wr now ks c = (Ok (), c')" for ks c
    using that
  proof (induction ks arbitrary: c)
    case (Cons i ks)
    then show ?case
      by (auto split: option.splits if_splits prod.splits dest: retransmit_simps(4))
  qed auto
  show ?case
  proof (cases "inflightPackets c j")
    case (Some q)
    obtain r c1 where t: "retransmit wr now j q c = (r, c1)" by fastforce
    show ?thesis
    proof (cases "now - transmissionTime q \<le> rtoDuration q")
      case False
      with Cons.prems(1) Some t have lim: "retransmits q + 1 \<le> MaxRetransmits (Options c)"
        and go: "proccessRetransmission wr now ks c1 = (Ok (), c')"
        by (auto split: if_splits simp: retransmit_simps(4) [OF t])
      show ?thesis
      proof (cases "j = k")
        case True
        let ?p = "p\<lparr>transmissionTime := now, retransmits := retransmits p + 1\<rparr>"
        have "inflightPackets c1 k = Some ?p"
          using True Some Cons.prems(2) by (simp add: retransmit_simps(1) [OF t])
        then have "inflightPackets c' k = Some ?p"
          by (rule proccessRetransmission_keeps [OF go]) (use Cons.prems(5) in simp)
        with lim True Some Cons.prems(2) mr [OF go] show ?thesis by (simp add: retransmit_simps(4) [OF t])
      next
        case neq: False
        with Cons.prems(2) have "inflightPackets c1 k = Some p" by (simp add: retransmit_simps(1) [OF t])
        with Cons.IH [OF go _ Cons.prems(3)] Cons.prems(4,5) neq show ?thesis
          by (auto simp: retransmit_simps(4) [OF t])
      qed
    qed (use Cons Some in auto)
  qed (use Cons in auto)
qed auto

text \<open>The passes of the loop that look at the packets in flight, until one reports an error.\<close>

fun rtx_rounds :: "udp_write \<Rightarrow> (int \<times> u16 list) list \<Rightarrow> Conn \<Rightarrow> unit outcome \<times> Conn" where
  "rtx_rounds wr [] c = (Ok (), c)"
| "rtx_rounds wr ((now, ks) # rs) c = (case proccessRetransmission wr now ks c of
      (Ok _, c') \<Rightarrow> rtx_rounds wr rs c' | (e, c') \<Rightarrow> (e, c'))"

fun spaced :: "int \<Rightarrow> int \<Rightarrow> int list \<Rightarrow> bool" where
  "spaced d t [] = True"
| "spaced d t (u # us) = (d < u - t \<and> spaced d u us)"

lemma rtx_rounds_break:
  assumes "inflightPackets c k = Some p" and "0 \<le> rtoDuration p"
    and "spaced (rtoDuration p) (transmissionTime p) (map fst rs)"
    and "\<forall>(now, ks) \<in> set rs. k \<in> set ks"
    and "MaxRetransmits (Options c) < retransmits p + length rs"
    and "retransmits p \<le> MaxRetransmits (Options c)"
  shows "\<exists>c'. rtx_rounds wr rs c = (Err (New ''connection broken: too many retransmitts''), c')"
  using assms
proof (induction rs arbitrary: c p)
  case (Cons x rs)
  obtain now ks where x: "x = (now, ks)" by fastforce
  obtain r c1 where p: "proccessRetransmission wr now ks c = (r, c1)" by fastforce
  show ?case
  proof (cases "r = Ok ()")
    case True
    with p have ok: "proccessRetransmission wr now ks c = (Ok (), c1)" by simp
    have "rtoDuration p < now - transmissionTime p" "k \<in> set ks" using Cons.prems(3,4) x by auto
    from proccessRetransmission_resends [OF ok Cons.prems(1) this Cons.prems(2)] Cons.IH [of c1] Cons.prems x ok
    show ?thesis by simp
  qed (use proccessRetransmission_outcome [OF p] p x in auto)
qed simp

text \<open>Acknowledgements take exactly their packets out of flight.\<close>

lemma processAck_dom: "dom (inflightPackets (processAck now h c)) = dom (inflightPackets c) - {SeqNr h}"
  by (auto simp: processAck_def Let_def split: option.splits)

lemma acks_dom:
  "dom (inflightPackets (fold (\<lambda>(t, h). processAck t h) hs c)) =
     dom (inflightPackets c) - (\<lambda>(t, h). SeqNr h) ` set hs"
  by (induction hs arbitrary: c) (auto simp: processAck_dom split: prod.splits)

section \<open>Every step keeps the bounds\<close>

definition conn_ok :: "int \<Rightarrow> int \<Rightarrow> Conn \<Rightarrow> bool" where
  "conn_ok w p c \<longleftrightarrow> flight_ok w p c \<and> timing_ok c"

lemma conn_ok_frame:
  assumes "conn_ok w p c" and "inflightPackets c' = inflightPackets c" and "cc_of c' = cc_of c"
    and "set (txPrioChan c') \<subseteq> set (txPrioChan c)" and "rttMeasurement c' = rttMeasurement c"
    and "MaxRetransmits (Options c') = MaxRetransmits (Options c)"
  shows "conn_ok w p c'"
  using assms flight_ok_frame [of w p c c'] timing_ok_frame [of c c'] by (simp add: conn_ok_def)

lemma ack_not_eliciting [simp]: "\<not> isAckElicitingPacket (ackMessage n c)"
  by (simp add: isAckElicitingPacket_def ackMessage_def)

lemma sendAck_ok: "conn_ok w p c \<Longrightarrow> conn_ok w p (sendAck n c)"
  by (simp add: conn_ok_def flight_ok_def timing_ok_def sendAck_def send_prio_def)

lemma processAck_ok: "conn_ok w p c \<Longrightarrow> 0 \<le> p \<Longrightarrow> conn_ok w p (processAck now h c)"
  by (simp add: conn_ok_def processAck_flight processAck_timing)

lemma sendOpen_ok: "conn_ok w p c \<Longrightarrow> sendOpen e c = (r, c') \<Longrightarrow> conn_ok w p c'"
  by (auto simp: sendOpen_def split: if_splits elim!: conn_ok_frame)

lemma sendClose_ok: "conn_ok w p c \<Longrightarrow> sendClose e c = (r, c') \<Longrightarrow> conn_ok w p c'"
  by (auto simp: sendClose_def split: if_splits elim!: conn_ok_frame)

lemma completeClientHandshake_ok:
  assumes "conn_ok w p c" and "completeClientHandshake dial resp c = (r, c')"
  shows "conn_ok w p c'"
proof -
  let ?c1 = "c\<lparr>Options := (Options c)\<lparr>MaxCwndSize := ActualMaxCwndSize resp,
     InitCwndSize := ActualInitCwndSize resp, MaxPacketSize := ActualPacketSize resp\<rparr>,
     remotePort := MigrationPort resp\<rparr>"
  have "conn_ok w p ?c1" by (rule conn_ok_frame [OF assms(1)]) simp_all
  then have "conn_ok w p ?c1" "conn_ok w p (sendAck (ServerSeqNr resp) ?c1)" by (simp_all add: sendAck_ok)
  with assms show ?thesis
    by (auto simp: completeClientHandshake_def Let_def split: if_splits outcome.splits)
qed

lemma onAck_ok:
  assumes "conn_ok w p c" and "0 \<le> p" and "onAck now msg c = (r, c')"
  shows "conn_ok w p c'"
proof -
  have "conn_ok w p (c\<lparr>isConnOpen := True\<rparr>)" by (rule conn_ok_frame [OF assms(1)]) simp_all
  with assms processAck_ok [OF assms(1,2)] show ?thesis
    by (auto simp: onAck_def Let_def split: if_splits Codable.splits prod.splits outcome.splits
        intro: sendOpen_ok)
qed

lemma onConnAck_ok:
  assumes "conn_ok w p c" and "0 \<le> p" and "onConnAck now dial msg c = (r, c')"
  shows "conn_ok w p c'"
proof -
  let ?c1 = "processAck now (GetHeader msg) c"
  have c1: "conn_ok w p ?c1" by (rule processAck_ok [OF assms(1,2)])
  show ?thesis
  proof (cases msg)
    case (MConnAck resp)
    obtain x c2 where h: "completeClientHandshake dial resp ?c1 = (x, c2)" by fastforce
    from completeClientHandshake_ok [OF c1 h] have c2: "conn_ok w p c2" .
    have "conn_ok w p (c2\<lparr>dataReader := (dataReader c2)\<lparr>nextSeqNr := ServerSeqNr resp\<rparr>, isConnOpen := True\<rparr>)"
      by (rule conn_ok_frame [OF c2]) simp_all
    with assms(1,3) c2 h MConnAck show ?thesis
      by (auto simp: onConnAck_def Let_def split: if_splits outcome.splits prod.splits intro: sendOpen_ok)
  qed (use assms c1 in \<open>auto simp: onConnAck_def Let_def split: if_splits\<close>)
qed

lemma onData_ok:
  assumes "conn_ok w p c" and "onData msg c = (r, c')"
  shows "conn_ok w p c'"
  using assms(2) sendAck_ok [OF assms(1), of "SeqNr (GetHeader msg)"] assms(1)
  by (auto simp: onData_def Let_def split: if_splits Codable.splits elim: conn_ok_frame)

lemma onMessage_ok:
  assumes "conn_ok w p c" and "0 \<le> p" and "onMessage now dial msg c = (r, c')"
  shows "conn_ok w p c'"
  using assms(3) onAck_ok [OF assms(1,2)] onConnAck_ok [OF assms(1,2)] onData_ok [OF assms(1)]
    sendClose_ok [OF sendAck_ok [OF assms(1)]] assms(1)
  by (auto simp: onMessage_def onClose_def Let_def split: if_splits)

lemma recvIter_ok:
  assumes "conn_ok w p c" and "0 \<le> p" and "recvIter cb now dial d netread r c = (x, r', c')"
  shows "conn_ok w p c'"
proof -
  have "conn_ok w p (c\<lparr>isRunLoopRunning := False\<rparr>)" by (rule conn_ok_frame [OF assms(1)]) simp_all
  with assms(3) onMessage_ok [OF assms(1,2)] sendClose_ok [OF assms(1)] assms(1) show ?thesis
    by (auto simp: recvIter_def split: if_splits outcome.splits prod.splits)
qed

lemma run_select_ok:
  assumes "conn_ok w p c" and "run_select cb wr t r c = (r', c')"
  shows "conn_ok w p c'"
proof -
  have "conn_ok w p (c\<lparr>closeChan := tl (closeChan c)\<rparr>)" by (rule conn_ok_frame [OF assms(1)]) simp_all
  with assms show ?thesis
    by (auto simp: run_select_def conn_ok_def run_prio_flight run_prio_timing split: if_splits)
qed

lemma runIter_ok:
  assumes "conn_ok w p c" and "w \<le> p" and "runIter cb wr t r c = (Continue, r', c')"
  shows "conn_ok w p c'"
proof -
  obtain r1 c1 where s: "run_select cb wr t r c = (r1, c1)" by fastforce
  let ?c2 = "run_tx cb wr (now_tx t) c1"
  from run_select_ok [OF assms(1) s] have c2: "flight_ok w p ?c2" "timing_ok ?c2"
    using assms(2) by (simp_all add: conn_ok_def run_tx_flight run_tx_timing)
  obtain x c3 where x: "proccessRetransmission wr (now_rtx t) (iter_order t) ?c2 = (x, c3)" by fastforce
  with proccessRetransmission_outcome [OF x] x s assms(3) have "x = Ok ()" "c3 = c'"
    by (auto simp: runIter_def split: if_splits)
  with x c2 proccessRetransmission_flight [OF c2(1)] proccessRetransmission_timing [OF c2(2)]
  show ?thesis by (metis conn_ok_def snd_conv)
qed

lemma closeWith_ok:
  assumes "conn_ok w p c" and "closeWith cb wr now reason c = (r, c')" and "w \<le> p"
  shows "conn_ok w (p + 1) c'"
proof -
  obtain x c1 where t: "transmit cb wr now (closeMessage reason c) c = (x, c1)" by fastforce
  have c1: "conn_ok w (p + 1) c1"
    using transmit_flight [OF _ t, of w p "p + 1"] transmit_timing [OF _ t] assms(1)
    by (auto simp: conn_ok_def flight_ok_def)
  have "conn_ok w (p + 1) (c1\<lparr>closeChan := closeChan c1 @ [None]\<rparr>)"
    by (rule conn_ok_frame [OF c1]) simp_all
  with c1 t assms(2) show ?thesis
    by (auto simp: closeWith_def split: outcome.splits if_splits)
qed

lemma send_all_frame:
  "send_all bs c = (r, c') \<Longrightarrow> inflightPackets c' = inflightPackets c \<and> Options c' = Options c
     \<and> txPrioChan c' = txPrioChan c \<and> rttMeasurement c' = rttMeasurement c"
  by (induction bs c rule: send_all.induct) (fastforce simp: send_def split: if_splits)+

lemma Conn_Write_ok:
  "conn_ok w p c \<Longrightarrow> Conn_Write b c = Some (r, c') \<Longrightarrow> conn_ok w p c'"
  by (auto simp: Conn_Write_def split: if_splits option.splits dest!: send_all_frame elim!: conn_ok_frame)

lemma Conn_Read_ok: "conn_ok w p c \<Longrightarrow> Conn_Read c n = (r, c') \<Longrightarrow> conn_ok w p c'"
  by (auto simp: Conn_Read_def split: prod.splits outcome.splits elim!: conn_ok_frame)

section \<open>Interleaved runs of a connection\<close>

text \<open>
  The layer above writes, reads, closes and sets timeouts; the two loops make their passes;
  pushed packets reach the data reader. The last component counts the calls of \<open>Close\<close>,
  whose message is sent without asking for a free slot.
\<close>

type_synonym conn_conf = "RunLoop \<times> Conn \<times> int"

inductive conn_step :: "'b cryptobyte \<Rightarrow> conn_conf \<Rightarrow> conn_conf \<Rightarrow> bool" for cb where
  call_write: "Conn_Write b c = Some (x, c') \<Longrightarrow> conn_step cb (r, c, k) (r, c', k)"
| call_send: "send m c = (x, c') \<Longrightarrow> conn_step cb (r, c, k) (r, c', k)"
| call_start: "Conn_start c = (x, c') \<Longrightarrow> conn_step cb (r, c, k) (r, c', k)"
| call_read: "Conn_Read c n = (x, c') \<Longrightarrow> conn_step cb (r, c, k) (r, c', k)"
| call_close: "closeWith cb wr now reason c = (x, c') \<Longrightarrow> conn_step cb (r, c, k) (r, c', k + 1)"
| call_opened: "recvOpen c = (x, c') \<Longrightarrow> conn_step cb (r, c, k) (r, c', k)"
| setTimeout: "conn_step cb (r, c, k) (r, SetReadTimeout t c, k)"
| resetTimeout: "conn_step cb (r, c, k) (r, ResetReadTimeout c, k)"
| loop_run: "runIter cb wr t r c = (Continue, r', c') \<Longrightarrow> conn_step cb (r, c, k) (r', c', k)"
| loop_receive: "recvIter cb now dial d netread r c = (Ok b, r', c') \<Longrightarrow> conn_step cb (r, c, k) (r', c', k)"
| data_push: "runPush i c = (Ok (), c') \<Longrightarrow> conn_step cb (r, c, k) (r, c', k)"

inductive_cases conn_stepE: "conn_step cb (r, c, k) d"

definition conn_conf_ok :: "int \<Rightarrow> conn_conf \<Rightarrow> bool" where
  "conn_conf_ok w d \<longleftrightarrow> (case d of (r, c, k) \<Rightarrow> conn_ok w (w + k) c \<and> 0 \<le> k)"

lemma conn_ok_nonneg: "conn_ok w p c \<Longrightarrow> 0 \<le> p"
  by (auto simp: conn_ok_def flight_ok_def)

lemma conn_step_ok: "conn_step cb d d' \<Longrightarrow> conn_conf_ok w d \<Longrightarrow> conn_conf_ok w d'"
proof (induction rule: conn_step.induct)
  case (call_close wr now reason c x c' r k)
  then have "conn_ok w (w + k) c" "w \<le> w + k" "0 \<le> k" by (auto simp: conn_conf_ok_def)
  moreover from this(1) have "conn_ok w (w + k + 1) c'"
    by (rule closeWith_ok [OF _ call_close(1)]) (use \<open>w \<le> w + k\<close> in simp)
  ultimately show ?case by (simp add: conn_conf_ok_def add.assoc)
next
  case (call_opened c x c' r k)
  then show ?case
    by (auto simp: conn_conf_ok_def recvOpen_def split: list.splits elim!: conn_ok_frame)
next
  case (data_push i c c' r k)
  then show ?case
    by (auto simp: conn_conf_ok_def runPush_def split: if_splits prod.splits outcome.splits elim!: conn_ok_frame)
next
  case (loop_run wr t r c r' c' k)
  then show ?case by (auto simp: conn_conf_ok_def intro: runIter_ok)
next
  case (loop_receive now dial d netread r c b r' c' k)
  then show ?case using conn_ok_nonneg by (auto simp: conn_conf_ok_def intro: recvIter_ok)
next
  case (call_write b c x c' r k)
  then show ?case by (auto simp: conn_conf_ok_def intro: Conn_Write_ok)
next
  case (call_send m c x c' r k)
  then show ?case by (auto simp: conn_conf_ok_def send_def split: if_splits elim!: conn_ok_frame)
next
  case (call_start c x c' r k)
  then show ?case by (auto simp: conn_conf_ok_def Conn_start_def split: if_splits elim!: conn_ok_frame)
next
  case (call_read c n x c' r k)
  then show ?case by (auto simp: conn_conf_ok_def intro: Conn_Read_ok)
qed (auto simp: conn_conf_ok_def SetReadTimeout_def ResetReadTimeout_def elim!: conn_ok_frame)

lemma conn_run_ok: "(conn_step cb)\<^sup>*\<^sup>* d d' \<Longrightarrow> conn_conf_ok w d \<Longrightarrow> conn_conf_ok w d'"
  by (induction rule: rtranclp_induct) (auto intro: conn_step_ok)

lemma newConn_ok:
  assumes "newConn rnd rport opts = Ok c" and "1 \<le> cwnd (CC opts)" and "pipe (CC opts) = 0"
    and "rtt_max (CC opts) = 0"
  shows "conn_conf_ok (cwnd (CC opts)) (newRunLoop, c, 0)"
  using assms
  by (auto simp: newConn_def conn_conf_ok_def conn_ok_def flight_ok_def timing_ok_def rtt_ok_New
      split: outcome.splits)

end
