(* ===== verification/Btp_Session.thy ===== *)
theory Btp_Session
  imports Btp_Run
begin

text \<open>
  Two connections together: the handshake of a client and a listener, and the transfer of the
  bytes of one \<open>Write\<close> through the packets, the datagrams and the reorder buffer to \<open>Read\<close> on
  the other side. The definitions here only compose the operations of the other theories in
  the order in which the goroutines and the network run them.
\<close>

section \<open>A transmission that the socket accepts\<close>

definition full_write :: udp_write where
  "full_write buf = (length buf, None)"

text \<open>The datagram of a message, and the state after its first transmission.\<close>

definition datagram :: "u16 \<Rightarrow> Codable \<Rightarrow> byte list" where
  "datagram n m = btp_wire (SetSeqNr m n)"

definition sent_state :: "int \<Rightarrow> Codable \<Rightarrow> Conn \<Rightarrow> Conn" where
  "sent_state now m c = (set_CC (SentMessages 1) c)\<lparr>
     inflightPackets := (inflightPackets c)(peekSeq c \<mapsto> \<lparr>transmissionTime = now, pkt_seqNr = peekSeq c,
       pkt_payload = datagram (peekSeq c) m, rtoDuration = RTO (rttMeasurement c), retransmits = 0\<rparr>),
     wire_out := wire_out c @ [datagram (peekSeq c) m],
     packetNumberGenerator := snd (Gen_Next (packetNumberGenerator c))\<rparr>"

lemma payload_fits_SetHeader [simp]: "payload_fits (SetHeader m h) = payload_fits m"
  by (cases m) simp_all

lemma kind_ok_SetHeader [simp]:
  "MessageType h = MessageType (GetHeader m) \<Longrightarrow> kind_ok (SetHeader m h) = kind_ok m"
  by (cases m) simp_all

lemma sendable_SetSeqNr [simp]: "sendable (SetSeqNr m n) = sendable m"
  by (simp add: sendable_def SetSeqNr_def)

lemma peek_Next [simp]: "Gen_Peek (snd (Gen_Next g)) = Gen_Peek g + 1"
  by (rule gen.peek_advances)

lemma sent_state_simps [simp]:
  "peekSeq (sent_state now m c) = peekSeq c + 1" "txChan (sent_state now m c) = txChan c"
  "wire_out (sent_state now m c) = wire_out c @ [datagram (peekSeq c) m]"
  "isConnOpen (sent_state now m c) = isConnOpen c" "isServerConnection (sent_state now m c) = isServerConnection c"
  "txPrioChan (sent_state now m c) = txPrioChan c" "chansClosed (sent_state now m c) = chansClosed c"
  "dataReader (sent_state now m c) = dataReader c" "openChan (sent_state now m c) = openChan c"
  "Version (Options (sent_state now m c)) = Version (Options c)"
  "ReadBufferCap (Options (sent_state now m c)) = ReadBufferCap (Options c)"
  "dom (inflightPackets (sent_state now m c)) = insert (peekSeq c) (dom (inflightPackets c))"
  by (simp_all add: sent_state_def)

context cryptobyte_laws
begin

lemma transmit_full:
  assumes "isAckElicitingPacket m" and "payload_fits m"
  shows "transmit cb full_write now m c = (Ok (length (datagram (peekSeq c) m)), sent_state now m c)"
proof -
  have "Marshal cb (SetSeqNr m (peekSeq c)) = Ok (datagram (peekSeq c) m)"
    using assms(2) by (simp add: Marshal_wire SetSeqNr_def datagram_def)
  with assms(1) show ?thesis
    by (simp add: transmit_def Let_def full_write_def sent_state_def set_CC_def)
qed

lemma transmit_ack_full:
  "transmit cb full_write now (ackMessage n c') c =
     (Ok 4, c\<lparr>wire_out := wire_out c @ [btp_wire (ackMessage n c')]\<rparr>)"
proof -
  have "Marshal cb (ackMessage n c') = Ok (btp_wire (ackMessage n c'))"
    by (rule Marshal_wire) (simp add: ackMessage_def)
  moreover have "length (btp_wire (ackMessage n c')) = 4"
    by (simp add: ackMessage_def length_btp_wire HeaderSize_def)
  ultimately show ?thesis by (simp add: transmit_def Let_def full_write_def)
qed

end

lemma processAck_simps [simp]:
  "txChan (processAck now h c) = txChan c" "wire_out (processAck now h c) = wire_out c"
  "packetNumberGenerator (processAck now h c) = packetNumberGenerator c"
  "isConnOpen (processAck now h c) = isConnOpen c" "chansClosed (processAck now h c) = chansClosed c"
  "dataReader (processAck now h c) = dataReader c" "openChan (processAck now h c) = openChan c"
  "isServerConnection (processAck now h c) = isServerConnection c"
  "txPrioChan (processAck now h c) = txPrioChan c" "readBuf (processAck now h c) = readBuf c"
  "Version (Options (processAck now h c)) = Version (Options c)"
  "InitCwndSize (Options (processAck now h c)) = InitCwndSize (Options c)"
  "MaxCwndSize (Options (processAck now h c)) = MaxCwndSize (Options c)"
  "MaxPacketSize (Options (processAck now h c)) = MaxPacketSize (Options c)"
  "ReadBufferCap (Options (processAck now h c)) = ReadBufferCap (Options c)"
  "dom (inflightPackets (processAck now h c)) = dom (inflightPackets c) - {SeqNr h}"
  by (auto simp: processAck_def Let_def set_CC_def split: option.splits)

section \<open>The handshake\<close>

text \<open>
  \<open>Dial\<close> and \<open>Accept\<close> against each other on a network that delivers: the client's request
  is sent by its run loop, the server answers on the listening socket, the client completes
  and acknowledges from its run loop, and the server reads that from the migrated socket.
\<close>

definition handshake :: "'b cryptobyte \<Rightarrow> int \<Rightarrow> (byte \<times> byte) outcome \<Rightarrow> (byte \<times> byte) outcome
    \<Rightarrow> u16 \<Rightarrow> u16 \<Rightarrow> u16 \<Rightarrow> ConnOptions \<Rightarrow> ConnOptions \<Rightarrow> (Conn \<times> Conn) outcome" where
  "handshake cb now rndC rndS listenPort clientPort migratedPort optsC optsS =
     bindO (Dial_begin cb full_write now (Ok ()) rndC listenPort optsC) (\<lambda>c0.
     (let c1 = run_tx cb full_write now c0 in
     bindO (serverHandshake_begin cb (Ok (last (wire_out c1))) clientPort (Ok ()) rndS migratedPort
              (\<lambda>_. None) optsS) (\<lambda>(s0, ds).
     bindO (recv cb (Ok (hd ds)) c1) (\<lambda>m.
     (case onMessage now (Ok ()) m c1 of (r, c2) \<Rightarrow> bindO r (\<lambda>_.
     bindO (awaitOpen c2) (\<lambda>c3.
     (let c4 = run_prio cb full_write now c3 in
     bindO (recv cb (Ok (last (wire_out c4))) s0) (\<lambda>a.
     (case onMessage now (Ok ()) a s0 of (r, s1) \<Rightarrow> bindO r (\<lambda>_.
     bindO (awaitOpen s1) (\<lambda>s2. Ok (c4, s2)))))))))))))"

text \<open>A connection as \<open>newConn\<close> makes it, and after \<open>Dial\<close> has queued its request.\<close>

definition fresh_conn :: "ConnOptions \<Rightarrow> u16 \<Rightarrow> sequentialNumberGenerator \<Rightarrow> Conn" where
  "fresh_conn opts rport gen = \<lparr>Options = opts, remotePort = rport, readBuf = [], isConnOpen = False,
     closeChan = [], openChan = [], chansClosed = False, isServerConnection = False,
     isRunLoopRunning = False, rttMeasurement = NewRttMeasurement, txChan = [], txPrioChan = [],
     dataReader = NewDataReader 100 50, pushing = [], packetNumberGenerator = gen,
     inflightPackets = Map.empty, currentReadTimeout = IdleReadTimeout opts, wire_out = []\<rparr>"

lemma newConn_Ok: "\<exists>gen. newConn (Ok b) rport opts = Ok (fresh_conn opts rport gen)"
  by (cases b) (simp add: newConn_def NewRandomNumberGenerator_def seedSeqNumber_def fresh_conn_def)

definition dialled :: "ConnOptions \<Rightarrow> u16 \<Rightarrow> sequentialNumberGenerator \<Rightarrow> Conn" where
  "dialled opts rport gen = (fresh_conn opts rport gen)\<lparr>
     txChan := [MConn (createConnReq (fresh_conn opts rport gen))], isRunLoopRunning := True\<rparr>"

text \<open>The client's request as the server receives it, and the server's connection and answer.\<close>

definition request :: "ConnOptions \<Rightarrow> u16 \<Rightarrow> MsgConn" where
  "request opts n = \<lparr>conn_Header = zeroHeader\<lparr>ProtocolType := Version opts, MessageType := MessageTypeConn,
     SeqNr := n\<rparr>, conn_MaxPacketSize = MaxPacketSize opts, conn_InitCwndSize = InitCwndSize opts,
     conn_MaxCwndSize = MaxCwndSize opts\<rparr>"

definition accepted :: "ConnOptions \<Rightarrow> u16 \<Rightarrow> u16 \<Rightarrow> sequentialNumberGenerator \<Rightarrow> Conn" where
  "accepted opts cport n gen = (fresh_conn (ConnOptions_Clone opts) cport gen)\<lparr>isServerConnection := True,
     isRunLoopRunning := True, dataReader := (NewDataReader 100 50)\<lparr>nextSeqNr := n + 1\<rparr>\<rparr>"

definition answer :: "ConnOptions \<Rightarrow> ConnOptions \<Rightarrow> u16 \<Rightarrow> u16 \<Rightarrow> sequentialNumberGenerator \<Rightarrow> MsgConnAck" where
  "answer optsC optsS mport n gen = (createConnResp optsS mport (request optsC n))\<lparr>ServerSeqNr := Gen_Peek gen\<rparr>"

text \<open>Nothing has been read or written yet.\<close>

definition untouched :: "Conn \<Rightarrow> bool" where
  "untouched c \<longleftrightarrow> \<not> chansClosed c \<and> txChan c = [] \<and> readBuf c = [] \<and> pushing c = []
     \<and> (\<exists>n. dataReader c = (NewDataReader 100 50)\<lparr>nextSeqNr := n\<rparr>)"

lemma processAck_pushing [simp]: "pushing (processAck now h c) = pushing c"
  by (auto simp: processAck_def Let_def set_CC_def split: option.splits)

context cryptobyte_laws
begin

lemma recvConnFrom_wire:
  assumes "sendable (MConn p)"
  shows "recvConnFrom cb (Ok (btp_wire (MConn p))) = Ok (p\<lparr>conn_Header := (conn_Header p)\<lparr>Flags := 0\<rparr>\<rparr>)"
proof -
  have l: "length (btp_wire (MConn p)) = HeaderSize + ConnSize"
    by (simp add: length_btp_wire)
  moreover have "ParseHeader cb (btp_wire (MConn p)) = Ok ((conn_Header p)\<lparr>Flags := 0\<rparr>)"
    using ParseHeader_wire [OF assms, of "body_wire (MConn p)"] by (simp add: btp_wire_def)
  moreover have "drop HeaderSize (btp_wire (MConn p)) = body_wire (MConn p)"
    by (simp add: btp_wire_def drop_append_exact)
  moreover obtain r where "Conn_Unmarshal cb ((conn_Header p)\<lparr>Flags := 0\<rparr>) (body_wire (MConn p) @ []) =
      (Ok (p\<lparr>conn_Header := (conn_Header p)\<lparr>Flags := 0\<rparr>\<rparr>), r)"
    using parses_Conn [of "(conn_Header p)\<lparr>Flags := 0\<rparr>" p] unfolding parses_def by blast
  ultimately show ?thesis by (simp add: recvConnFrom_def)
qed

lemma recv_wire:
  assumes "sendable m" and "length (btp_wire m) \<le> ReadBufferCap (Options c)"
  shows "recv cb (Ok (btp_wire m)) c = Ok (received m)"
  using recvDecode_wire [OF assms] by (simp add: recv_def)

lemma Dial_begin_Ok:
  "\<exists>gen. Dial_begin cb wr now (Ok ()) (Ok b) rport opts = Ok (dialled opts rport gen)"
proof -
  obtain gen where "newConn (Ok b) rport opts = Ok (fresh_conn opts rport gen)"
    using newConn_Ok by blast
  then show ?thesis
    by (intro exI [of _ gen], unfold Dial_begin_def, simp only: bindO.simps)
      (simp add: initiateClientHandshake_def send_def Conn_start_def fresh_conn_def dialled_def)
qed

lemma serverHandshake_Ok:
  assumes "Version optsC = ProtocolVersionBTPv1"
  shows "\<exists>gen. serverHandshake_begin cb (Ok (btp_wire (MConn (request optsC n)))) cport (Ok ()) (Ok b) mport
      (\<lambda>_. None) optsS = Ok (accepted optsS cport n gen, replicate 3 (btp_wire (MConnAck (answer optsC optsS mport n gen))))"
proof -
  obtain gen where gen: "newConn (Ok b) cport (ConnOptions_Clone optsS) = Ok (fresh_conn (ConnOptions_Clone optsS) cport gen)"
    using newConn_Ok by blast
  have "sendable (MConn (request optsC n))"
    using assms by (simp add: sendable_def request_def)
  from recvConnFrom_wire [OF this]
  have req: "recvConnFrom cb (Ok (btp_wire (MConn (request optsC n)))) = Ok (request optsC n)"
    by (simp add: request_def zeroHeader_def)
  have m: "Marshal cb (MConnAck (answer optsC optsS mport n gen)) = Ok (btp_wire (MConnAck (answer optsC optsS mport n gen)))"
    by (rule Marshal_wire) simp
  have n: "SeqNr (conn_Header (request optsC n)) = n" by (simp add: request_def)
  show ?thesis
    by (rule exI [of _ gen], unfold serverHandshake_begin_def req dialMigratedConn_def gen, simp only: bindO.simps n)
      (use m in \<open>simp add: fresh_conn_def Conn_start_def accepted_def numeral_3_eq_3 answer_def Let_def\<close>)
qed

lemma client_completes:
  assumes c: "\<not> isServerConnection c" "\<not> isConnOpen c" "\<not> chansClosed c" "openChan c = []" "txPrioChan c = []"
    and r: "MessageType (connack_Header r) = MessageTypeConnAck"
      "ActualInitCwndSize r \<le> InitCwndSize (Options c)" "ActualMaxCwndSize r \<le> MaxCwndSize (Options c)"
  shows "\<exists>c2 c3 c4 a. onMessage now (Ok ()) (MConnAck r) c = (Ok (), c2) \<and> awaitOpen c2 = Ok c3
    \<and> run_prio cb full_write now c3 = c4 \<and> isConnOpen c4 \<and> nextSeqNr (dataReader c4) = ServerSeqNr r
    \<and> remotePort c4 = MigrationPort r \<and> peekSeq c4 = peekSeq c
    \<and> dom (inflightPackets c4) = dom (inflightPackets c) - {SeqNr (connack_Header r)}
    \<and> InitCwndSize (Options c4) = ActualInitCwndSize r \<and> MaxCwndSize (Options c4) = ActualMaxCwndSize r
    \<and> MaxPacketSize (Options c4) = ActualPacketSize r
    \<and> last (wire_out c4) = btp_wire (ackMessage (ServerSeqNr r) a) \<and> Version (Options a) = Version (Options c)
    \<and> txChan c4 = txChan c \<and> chansClosed c4 = chansClosed c \<and> readBuf c4 = readBuf c \<and> pushing c4 = pushing c
    \<and> dataReader c4 = (dataReader c)\<lparr>nextSeqNr := ServerSeqNr r\<rparr> \<and> ReadBufferCap (Options c4) = ReadBufferCap (Options c)
    \<and> cc_of c4 = cc_of (processAck now (connack_Header r) c)"
proof -
  let ?p = "processAck now (connack_Header r) c"
  let ?q = "?p\<lparr>Options := (Options ?p)\<lparr>MaxCwndSize := ActualMaxCwndSize r, InitCwndSize := ActualInitCwndSize r,
     MaxPacketSize := ActualPacketSize r\<rparr>, remotePort := MigrationPort r\<rparr>"
  let ?c2 = "(sendAck (ServerSeqNr r) ?q)\<lparr>dataReader := (dataReader ?q)\<lparr>nextSeqNr := ServerSeqNr r\<rparr>,
     isConnOpen := True, openChan := [None]\<rparr>"
  have h: "completeClientHandshake (Ok ()) r ?p = (Ok (), sendAck (ServerSeqNr r) ?q)"
    using r by (auto simp: completeClientHandshake_def Let_def not_less)
  have "onMessage now (Ok ()) (MConnAck r) c = (Ok (), ?c2)"
    using c h r(1) by (simp add: onMessage_def onConnAck_def btp_types Let_def sendOpen_def sendAck_def send_prio_def)
  moreover have "awaitOpen ?c2 = Ok (?c2\<lparr>openChan := []\<rparr>)"
    by (simp add: awaitOpen_def recvOpen_def)
  moreover have "run_prio cb full_write now (?c2\<lparr>openChan := []\<rparr>) =
      ?c2\<lparr>openChan := [], txPrioChan := [], wire_out := wire_out c @ [btp_wire (ackMessage (ServerSeqNr r) ?q)]\<rparr>"
    using c(5) by (simp add: run_prio_def sendAck_def send_prio_def transmit_ack_full)
  moreover have "dom (inflightPackets ?p) = dom (inflightPackets c) - {SeqNr (connack_Header r)}" by simp
  ultimately show ?thesis
    by (intro exI [of _ ?c2] exI [of _ "?c2\<lparr>openChan := []\<rparr>"] exI [of _ "?c2\<lparr>openChan := [], txPrioChan := [],
        wire_out := wire_out c @ [btp_wire (ackMessage (ServerSeqNr r) ?q)]\<rparr>"] exI [of _ ?q])
      (simp add: sendAck_def send_prio_def del: processAck_simps(16))
qed

lemma server_completes:
  assumes "isServerConnection s" "\<not> isConnOpen s" "\<not> chansClosed s" "openChan s = []"
    and "Version (Options a) = ProtocolVersionBTPv1" "4 \<le> ReadBufferCap (Options s)"
  shows "\<exists>m. recv cb (Ok (btp_wire (ackMessage (peekSeq s) a))) s = Ok m
    \<and> onMessage now (Ok ()) m s = (Ok (), s\<lparr>isConnOpen := True, openChan := [None]\<rparr>)
    \<and> awaitOpen (s\<lparr>isConnOpen := True, openChan := [None]\<rparr>) = Ok (s\<lparr>isConnOpen := True\<rparr>)"
proof -
  have "sendable (ackMessage (peekSeq s) a)"
    using assms(5) by (simp add: sendable_def ackMessage_def)
  moreover have "length (btp_wire (ackMessage (peekSeq s) a)) = 4"
    by (simp add: ackMessage_def length_btp_wire HeaderSize_def)
  ultimately have "recv cb (Ok (btp_wire (ackMessage (peekSeq s) a))) s = Ok (received (ackMessage (peekSeq s) a))"
    using assms(6) by (simp add: recv_wire)
  moreover have "onMessage now (Ok ()) (received (ackMessage (peekSeq s) a)) s =
      (Ok (), s\<lparr>isConnOpen := True, openChan := [None]\<rparr>)"
    using assms(1-4) by (simp add: onMessage_def onAck_def ackMessage_def sendOpen_def Let_def)
  moreover have "awaitOpen (s\<lparr>isConnOpen := True, openChan := [None]\<rparr>) = Ok (s\<lparr>isConnOpen := True\<rparr>)"
    using assms(4) by (simp add: awaitOpen_def recvOpen_def)
  ultimately show ?thesis by blast
qed

lemma client_requests:
  fixes gen :: sequentialNumberGenerator and rport :: u16
  assumes "pipe (CC opts) < cwnd (CC opts)"
  defines "c \<equiv> dialled opts rport gen" and "n \<equiv> Gen_Peek gen"
  shows "\<exists>p. run_tx cb full_write now c = (set_CC (SentMessages 1) c)\<lparr>txChan := [],
      inflightPackets := [n \<mapsto> p], wire_out := [btp_wire (MConn (request opts n))],
      packetNumberGenerator := snd (Gen_Next gen)\<rparr>"
proof -
  let ?req = "MConn (createConnReq (fresh_conn opts rport gen))"
  have "isAckElicitingPacket ?req" "payload_fits ?req"
    by (simp_all add: isAckElicitingPacket_def createConnReq_def btp_types)
  from transmit_full [OF this] have
    "run_tx cb full_write now c = sent_state now ?req (c\<lparr>txChan := []\<rparr>)"
    using assms(1) by (simp add: run_tx_def c_def dialled_def fresh_conn_def NumFreeSend_def)
  moreover have "SetSeqNr ?req n = MConn (request opts n)"
    by (simp add: SetSeqNr_def createConnReq_def request_def fresh_conn_def)
  ultimately show ?thesis
    by (simp add: sent_state_def c_def n_def datagram_def dialled_def fresh_conn_def set_CC_def)
      (rule exI, rule refl)
qed

lemma handshake_synchronised:
  assumes v: "Version optsC = ProtocolVersionBTPv1" "Version optsS = ProtocolVersionBTPv1"
    and cap: "12 \<le> ReadBufferCap optsC" "4 \<le> ReadBufferCap optsS"
    and free: "pipe (CC optsC) < cwnd (CC optsC)"
  shows "\<exists>c s. handshake cb now (Ok b1) (Ok b2) lport cport mport optsC optsS = Ok (c, s)
    \<and> isConnOpen c \<and> isConnOpen s \<and> nextSeqNr (dataReader c) = peekSeq s
    \<and> nextSeqNr (dataReader s) = peekSeq c \<and> remotePort c = mport \<and> remotePort s = cport
    \<and> dom (inflightPackets c) = {} \<and> dom (inflightPackets s) = {}
    \<and> InitCwndSize (Options c) = min (InitCwndSize optsC) (InitCwndSize optsS)
    \<and> MaxCwndSize (Options c) = min (MaxCwndSize optsC) (MaxCwndSize optsS)
    \<and> MaxPacketSize (Options c) = min (MaxPacketSize optsC) (MaxPacketSize optsS)
    \<and> Options s = ConnOptions_Clone optsS
    \<and> untouched c \<and> untouched s \<and> ReadBufferCap (Options c) = ReadBufferCap optsC
    \<and> pipe (cc_of c) = max 0 (pipe (CC optsC)) \<and> cwnd (cc_of c) = cwnd (CC optsC)"
proof -
  obtain genC where c0: "Dial_begin cb full_write now (Ok ()) (Ok b1) lport optsC = Ok (dialled optsC lport genC)"
    using Dial_begin_Ok by blast
  define n c1 where "n = Gen_Peek genC" and "c1 = run_tx cb full_write now (dialled optsC lport genC)"
  obtain pk where c1: "c1 = (set_CC (SentMessages 1) (dialled optsC lport genC))\<lparr>txChan := [],
      inflightPackets := [n \<mapsto> pk], wire_out := [btp_wire (MConn (request optsC n))],
      packetNumberGenerator := snd (Gen_Next genC)\<rparr>"
    using client_requests [OF free] unfolding c1_def n_def by blast
  obtain genS where s0: "serverHandshake_begin cb (Ok (btp_wire (MConn (request optsC n)))) cport (Ok ())
      (Ok b2) mport (\<lambda>_. None) optsS = Ok (accepted optsS cport n genS,
        replicate 3 (btp_wire (MConnAck (answer optsC optsS mport n genS))))"
    using serverHandshake_Ok [OF v(1)] by blast
  let ?ans = "answer optsC optsS mport n genS"
  obtain r where r: "received (MConnAck ?ans) = MConnAck r" "ServerSeqNr r = Gen_Peek genS" "MigrationPort r = mport"
      "SeqNr (connack_Header r) = n" "MessageType (connack_Header r) = MessageTypeConnAck"
      "ActualInitCwndSize r = min (InitCwndSize optsC) (InitCwndSize optsS)"
      "ActualMaxCwndSize r = min (MaxCwndSize optsC) (MaxCwndSize optsS)"
      "ActualPacketSize r = min (MaxPacketSize optsC) (MaxPacketSize optsS)"
    by (simp add: answer_def createConnResp_min request_def)
  have "sendable (MConnAck ?ans)" "length (btp_wire (MConnAck ?ans)) = 12"
    using v by (simp_all add: sendable_def answer_def createConnResp_min length_btp_wire btp_sizes)
  then have rc: "recv cb (Ok (btp_wire (MConnAck ?ans))) c1 = Ok (MConnAck r)"
    using cap(1) r(1) recv_wire [of "MConnAck ?ans" c1] by (simp add: c1 dialled_def fresh_conn_def)
  have "InitCwndSize (Options c1) = InitCwndSize optsC" "MaxCwndSize (Options c1) = MaxCwndSize optsC"
      "Version (Options c1) = ProtocolVersionBTPv1" "peekSeq c1 = n + 1" "dom (inflightPackets c1) = {n}"
    using v(1) by (simp_all add: c1 dialled_def fresh_conn_def n_def)
  moreover have "\<not> isServerConnection c1" "\<not> isConnOpen c1" "\<not> chansClosed c1" "openChan c1 = []" "txPrioChan c1 = []"
    by (simp_all add: c1 dialled_def fresh_conn_def)
  ultimately obtain c2 c3 c4 a where c4: "onMessage now (Ok ()) (MConnAck r) c1 = (Ok (), c2)" "awaitOpen c2 = Ok c3"
      "run_prio cb full_write now c3 = c4" "isConnOpen c4" "nextSeqNr (dataReader c4) = Gen_Peek genS"
      "remotePort c4 = mport" "peekSeq c4 = n + 1" "dom (inflightPackets c4) = {}"
      "InitCwndSize (Options c4) = ActualInitCwndSize r" "MaxCwndSize (Options c4) = ActualMaxCwndSize r"
      "MaxPacketSize (Options c4) = ActualPacketSize r"
      "txChan c4 = txChan c1" "chansClosed c4 = chansClosed c1" "readBuf c4 = readBuf c1" "pushing c4 = pushing c1"
      "dataReader c4 = (dataReader c1)\<lparr>nextSeqNr := ServerSeqNr r\<rparr>" "ReadBufferCap (Options c4) = ReadBufferCap (Options c1)"
      "cc_of c4 = cc_of (processAck now (connack_Header r) c1)"
      "last (wire_out c4) = btp_wire (ackMessage (Gen_Peek genS) a)" "Version (Options a) = ProtocolVersionBTPv1"
    using client_completes [of c1 r now] r by auto
  let ?s0 = "accepted optsS cport n genS"
  have "isServerConnection ?s0" "\<not> isConnOpen ?s0" "\<not> chansClosed ?s0" "openChan ?s0 = []"
      "4 \<le> ReadBufferCap (Options ?s0)" "peekSeq ?s0 = Gen_Peek genS"
    using cap(2) by (simp_all add: accepted_def fresh_conn_def ConnOptions_Clone_def)
  with server_completes [of ?s0 a now] c4(20) obtain m where
    s2: "recv cb (Ok (btp_wire (ackMessage (Gen_Peek genS) a))) ?s0 = Ok m"
      "onMessage now (Ok ()) m ?s0 = (Ok (), ?s0\<lparr>isConnOpen := True, openChan := [None]\<rparr>)"
      "awaitOpen (?s0\<lparr>isConnOpen := True, openChan := [None]\<rparr>) = Ok (?s0\<lparr>isConnOpen := True\<rparr>)"
    by metis
  have out: "wire_out c1 = [btp_wire (MConn (request optsC n))]" by (simp add: c1)
  have "handshake cb now (Ok b1) (Ok b2) lport cport mport optsC optsS = Ok (c4, ?s0\<lparr>isConnOpen := True\<rparr>)"
    unfolding handshake_def c0 bindO.simps Let_def c1_def [symmetric] out last_ConsL [OF refl] s0 prod.case
    by (simp add: numeral_3_eq_3 rc c4 s2 del: bindO_Ok_iff)
  moreover have "untouched c4" "ReadBufferCap (Options c4) = ReadBufferCap optsC"
    using c4(12-17) by (auto simp: untouched_def c1 dialled_def fresh_conn_def)
  moreover have "pipe (cc_of c4) = max 0 (pipe (CC optsC))" "cwnd (cc_of c4) = cwnd (CC optsC)"
    unfolding c4(18) using r(4) by (simp_all add: processAck_def Let_def c1 dialled_def fresh_conn_def)
  moreover have "untouched (?s0\<lparr>isConnOpen := True\<rparr>)" by (auto simp: untouched_def accepted_def fresh_conn_def)
  ultimately show ?thesis
    using c4(1-11) r by (intro exI [of _ c4] exI [of _ "?s0\<lparr>isConnOpen := True\<rparr>"]) (simp add: accepted_def fresh_conn_def)
qed

end

section \<open>The sender\<close>

text \<open>Passes of the run loop that transmit, and acknowledgements that arrive in between.\<close>

datatype sender_event = Tx int | AckIn int u16

definition ackIn :: "u16 \<Rightarrow> Codable" where
  "ackIn n = MAck \<lparr>ack_Header = zeroHeader\<lparr>ProtocolType := ProtocolVersionBTPv1,
     MessageType := MessageTypeAck, SeqNr := n\<rparr>\<rparr>"

fun sender_step :: "'b cryptobyte \<Rightarrow> sender_event \<Rightarrow> Conn \<Rightarrow> Conn" where
  "sender_step cb (Tx now) c = run_tx cb full_write now c"
| "sender_step cb (AckIn now n) c = snd (onMessage now (Ok ()) (ackIn n) c)"

definition sender_run :: "'b cryptobyte \<Rightarrow> sender_event list \<Rightarrow> Conn \<Rightarrow> Conn" where
  "sender_run cb es c = fold (sender_step cb) es c"

definition datagrams :: "u16 \<Rightarrow> Codable list \<Rightarrow> byte list list" where
  "datagrams n ms = map2 datagram (seqs n (length ms)) ms"

lemma datagrams_Cons: "datagrams n (m # ms) = datagram n m # datagrams (n + 1) ms"
  by (simp add: datagrams_def)

lemma onMessage_ack_open:
  assumes "isConnOpen c"
  shows "onMessage now dial (ackIn n) c = (Ok (), processAck now (GetHeader (ackIn n)) c)"
  using assms by (simp add: onMessage_def onAck_def ackIn_def Let_def)

context cryptobyte_laws
begin

text \<open>
  Whatever acknowledgements arrive, the messages leave in the order of the queue and carry
  consecutive numbers.
\<close>

lemma sender_run_order:
  assumes "isConnOpen c" and "\<forall>m \<in> set (txChan c). isAckElicitingPacket m \<and> payload_fits m"
  shows "\<exists>ms rest. txChan c = ms @ rest \<and> txChan (sender_run cb es c) = rest
    \<and> wire_out (sender_run cb es c) = wire_out c @ datagrams (peekSeq c) ms
    \<and> peekSeq (sender_run cb es c) = peekSeq c + of_nat (length ms)"
  using assms
proof (induction es arbitrary: c)
  case Nil
  then show ?case
    by (intro exI [of _ "[]"] exI [of _ "txChan c"]) (simp add: sender_run_def datagrams_def)
next
  case (Cons e es)
  let ?c1 = "sender_step cb e c"
  have "\<exists>ms rest. txChan c = ms @ rest \<and> txChan ?c1 = rest \<and> isConnOpen ?c1
      \<and> wire_out ?c1 = wire_out c @ datagrams (peekSeq c) ms \<and> peekSeq ?c1 = peekSeq c + of_nat (length ms)"
  proof (cases "\<exists>now m rest. e = Tx now \<and> NumFreeSend (cc_of c) > 0 \<and> txChan c = m # rest")
    case True
    then obtain now m rest where m: "e = Tx now" "NumFreeSend (cc_of c) > 0" "txChan c = m # rest" by blast
    with Cons.prems have "isAckElicitingPacket m" "payload_fits m" by auto
    then have "?c1 = sent_state now m (c\<lparr>txChan := rest\<rparr>)"
      using m by (simp add: run_tx_def transmit_full)
    with m Cons.prems(1) show ?thesis
      by (intro exI [of _ "[m]"] exI [of _ rest]) (simp add: datagrams_def)
  next
    case False
    then have "?c1 = c \<or> (\<exists>now h. ?c1 = processAck now h c)"
      using Cons.prems(1) by (cases e) (auto simp: run_tx_def onMessage_ack_open split: list.split)
    with Cons.prems(1) show ?thesis
      by (intro exI [of _ "[]"] exI [of _ "txChan c"]) (auto simp: datagrams_def)
  qed
  then obtain ms rest where c1: "txChan c = ms @ rest" "txChan ?c1 = rest" "isConnOpen ?c1"
      "wire_out ?c1 = wire_out c @ datagrams (peekSeq c) ms"
      "peekSeq ?c1 = peekSeq c + of_nat (length ms)" by blast
  with Cons.prems have "\<forall>m \<in> set (txChan ?c1). isAckElicitingPacket m \<and> payload_fits m" by auto
  from Cons.IH [OF c1(3) this] obtain ms' rest' where c2: "txChan ?c1 = ms' @ rest'"
      "txChan (sender_run cb es ?c1) = rest'"
      "wire_out (sender_run cb es ?c1) = wire_out ?c1 @ datagrams (peekSeq ?c1) ms'"
      "peekSeq (sender_run cb es ?c1) = peekSeq ?c1 + of_nat (length ms')" by blast
  have "datagrams (peekSeq c) (ms @ ms') = datagrams (peekSeq c) ms @ datagrams (peekSeq ?c1) ms'"
    by (simp add: datagrams_def seqs_append c1(5))
  with c1 c2 show ?case
    by (intro exI [of _ "ms @ ms'"] exI [of _ rest']) (simp add: sender_run_def add.assoc)
qed

text \<open>With an open window and an empty pipe, acknowledgements let the whole queue leave.\<close>

lemma sender_finishes:
  assumes "isConnOpen c" and "\<forall>m \<in> set (txChan c). isAckElicitingPacket m \<and> payload_fits m"
    and "pipe (cc_of c) = 0" and "1 \<le> cwnd (cc_of c)"
  shows "\<exists>es. txChan (sender_run cb es c) = []"
  using assms
proof (induction "txChan c" arbitrary: c)
  case Nil
  then show ?case by (intro exI [of _ "[]"]) (simp add: sender_run_def)
next
  case (Cons m rest)
  let ?c1 = "sent_state 0 m (c\<lparr>txChan := rest\<rparr>)"
  let ?c2 = "processAck 0 (GetHeader (ackIn (peekSeq c))) ?c1"
  have "isAckElicitingPacket m" "payload_fits m" using Cons.prems(2) Cons.hyps(2) by (metis list.set_intros(1))+
  then have "sender_run cb [Tx 0, AckIn 0 (peekSeq c)] c = ?c2"
    using Cons.prems Cons.hyps(2) [symmetric]
    by (simp add: sender_run_def run_tx_def NumFreeSend_def transmit_full onMessage_ack_open)
  moreover have "pipe (cc_of ?c2) = 0" "cwnd (cc_of ?c2) = cwnd (cc_of c)"
    using Cons.prems(3) by (simp_all add: processAck_def sent_state_def ackIn_def Let_def)
  moreover have "\<forall>m \<in> set (txChan ?c2). isAckElicitingPacket m \<and> payload_fits m"
    using Cons.prems(2) Cons.hyps(2) [symmetric] by simp
  ultimately obtain es where "txChan (sender_run cb es (sender_run cb [Tx 0, AckIn 0 (peekSeq c)] c)) = []"
    using Cons.hyps(1) [of ?c2] Cons.prems(1,4) by auto
  then show ?case
    by (intro exI [of _ "[Tx 0, AckIn 0 (peekSeq c)] @ es"]) (simp add: sender_run_def)
qed

end

section \<open>The receiver\<close>

text \<open>One datagram: a pass of the receive loop, then the goroutine it started to push the data.\<close>

definition receive1 :: "'b cryptobyte \<Rightarrow> int \<Rightarrow> byte list \<Rightarrow> Conn \<Rightarrow> Conn" where
  "receive1 cb now d c = (case recvIter cb now (Ok ()) False (Ok d) newRunLoop c of
      (_, _, c1) \<Rightarrow> snd (runPush 0 c1))"

definition receive_all :: "'b cryptobyte \<Rightarrow> int \<Rightarrow> byte list list \<Rightarrow> Conn \<Rightarrow> Conn" where
  "receive_all cb now ds c = fold (receive1 cb now) ds c"

text \<open>The data message a datagram carries, and the connection after it arrived.\<close>

definition data_msg :: "u16 \<Rightarrow> byte list \<Rightarrow> MsgData" where
  "data_msg n b = \<lparr>data_Header = zeroHeader\<lparr>ProtocolType := ProtocolVersionBTPv1,
     MessageType := MessageTypeData, SeqNr := n\<rparr>, Payload = b\<rparr>"

definition arrived :: "MsgData list \<Rightarrow> Conn \<Rightarrow> Conn" where
  "arrived ds c = c\<lparr>txPrioChan := txPrioChan c @ map (\<lambda>d. ackMessage (seqOf d) c) ds,
     dataReader := (dataReader c)\<lparr>dataChan := dataChan (dataReader c) @ map Some ds\<rparr>\<rparr>"

lemma SetSeqNr_NewData: "SetSeqNr (MData (NewData b)) n = MData (data_msg n b)"
  by (simp add: SetSeqNr_def NewData_def data_msg_def)

lemma data_msg_simps [simp]: "seqOf (data_msg n b) = n" "Payload (data_msg n b) = b"
  by (simp_all add: data_msg_def)

definition can_receive :: "nat \<Rightarrow> Conn \<Rightarrow> bool" where
  "can_receive k c \<longleftrightarrow> isConnOpen c \<and> pushing c = [] \<and> \<not> chanClosed (dataReader c)
     \<and> length (dataChan (dataReader c)) + k \<le> chanCap (dataReader c)"

context cryptobyte_laws
begin

lemma receive1_data:
  assumes "can_receive (Suc k) c" and "length b + 6 \<le> ReadBufferCap (Options c)" and "length b \<le> 65535"
  shows "receive1 cb now (datagram n (MData (NewData b))) c = arrived [data_msg n b] c
    \<and> can_receive k (arrived [data_msg n b] c)"
proof -
  let ?m = "MData (data_msg n b)"
  have "sendable ?m" using assms(3) by (simp add: sendable_def data_msg_def)
  moreover have "length (btp_wire ?m) \<le> ReadBufferCap (Options c)"
    using assms(2) by (simp add: length_btp_wire btp_sizes)
  moreover have "received ?m = ?m" by (simp add: data_msg_def zeroHeader_def)
  ultimately have r: "recv cb (Ok (datagram n (MData (NewData b)))) c = Ok ?m"
    by (simp add: recv_wire datagram_def SetSeqNr_NewData)
  have "onMessage now (Ok ()) ?m c =
      (Ok (), (sendAck n c)\<lparr>pushing := [data_msg n b]\<rparr>)"
    using assms(1) by (simp add: onMessage_def onData_def can_receive_def data_msg_def btp_types
        sendAck_def send_prio_def Let_def)
  then have "receive1 cb now (datagram n (MData (NewData b))) c =
      snd (runPush 0 ((sendAck n c)\<lparr>pushing := [data_msg n b]\<rparr>))"
    using r by (simp add: receive1_def recvIter_def)
  also have "\<dots> = arrived [data_msg n b] c"
    using assms(1) by (simp add: runPush_def Push_def can_receive_def sendAck_def send_prio_def arrived_def)
  finally show ?thesis
    using assms(1) by (simp add: arrived_def can_receive_def)
qed

lemma arrived_arrived: "arrived es (arrived ds c) = arrived (ds @ es) c"
  by (simp add: arrived_def ackMessage_def)

lemma receive_all_data:
  assumes "can_receive (length xs) c"
    and "\<forall>(n, b) \<in> set xs. length b + 6 \<le> ReadBufferCap (Options c) \<and> length b \<le> 65535"
  shows "receive_all cb now (map (\<lambda>(n, b). datagram n (MData (NewData b))) xs) c
    = arrived (map (\<lambda>(n, b). data_msg n b) xs) c"
  using assms
proof (induction xs arbitrary: c)
  case Nil
  then show ?case by (simp add: receive_all_def arrived_def)
next
  case (Cons x xs)
  obtain n b where x: "x = (n, b)" by fastforce
  let ?c1 = "arrived [data_msg n b] c"
  have "Options ?c1 = Options c" by (simp add: arrived_def)
  with Cons.IH [of ?c1] receive1_data [of "length xs" c b now n] Cons.prems x
  show ?case by (simp add: receive_all_def arrived_arrived)
qed

end

section \<open>From Write to Read\<close>

lemma permuted_map:
  "mset ds = mset (map f zs) \<Longrightarrow> \<exists>xs. mset xs = mset zs \<and> ds = map f xs"
proof (induction ds arbitrary: zs)
  case (Cons d ds)
  then have "d \<in> f ` set zs" by (metis list.set_intros(1) mset_eq_setD set_map)
  then obtain z l r where z: "d = f z" "zs = l @ z # r" by (metis imageE split_list)
  with Cons.prems have "mset ds = mset (map f (l @ r))" by simp
  from Cons.IH [OF this] obtain xs where "mset xs = mset (l @ r)" "ds = map f xs" by blast
  with z show ?case by (intro exI [of _ "z # xs"]) simp
qed simp

text \<open>
  What arrives, in whatever order, is a permutation of numbered chunks; if they fit the window
  the reader's stream is extended by exactly the bytes that were written.
\<close>

lemma arrived_unread:
  assumes inv: "reader_inv W (dataReader c)" and "pend (dataReader c) = []"
    and xs: "mset xs = mset (zip (seqs (nextSeqNr (dataReader c)) (length cs)) cs)" and W: "length cs \<le> W"
  shows "unread (arrived (map (\<lambda>(n, b). data_msg n b) xs) c) = unread c @ concat cs"
proof -
  let ?s = "dataReader c" and ?n = "nextSeqNr (dataReader c)"
  let ?ps = "map (\<lambda>(n, b). data_msg n b) (zip (seqs ?n (length cs)) cs)"
  let ?t = "?s\<lparr>dataChan := dataChan ?s @ map Some (map (\<lambda>(n, b). data_msg n b) xs)\<rparr>"
  have keys: "map seqOf ?ps = seqs ?n (length ?ps)"
    by (simp add: comp_def case_prod_unfold map_fst_zip [unfolded fst_def] split_def)
  have pl: "map Payload ?ps = cs"
    by (simp add: comp_def split_def)
  have inv': "W \<le> 2 ^ 16 mod length (rd_buf ?s)" "rd_buf ?s \<noteq> []" "placed (rd_buf ?s)"
    using inv by (simp_all add: reader_inv_def)
  then have W16: "W \<le> 2 ^ 16" by (meson mod_less_eq_dividend order_trans)
  have l: "length ?ps = length cs" by simp
  then have k: "length ?ps \<le> 2 ^ 16" "length ?ps \<le> W" using W W16 by linarith+
  have ms: "mset (pend ?t) = mset ?ps"
    using assms(2) by (simp add: pend_def xs del: map_map)
  have "in_window W ?n ?ps"
    unfolding in_window_def keys
  proof
    show "distinct (seqs ?n (length ?ps))" by (rule distinct_seqs [OF k(1)])
    show "\<forall>d \<in> set ?ps. unat (seqOf d - ?n) < W"
    proof
      fix d assume "d \<in> set ?ps"
      then have "seqOf d \<in> set (map seqOf ?ps)" unfolding set_map [of seqOf] by (rule imageI)
      then have "seqOf d \<in> set (seqs ?n (length ?ps))" unfolding keys .
      then show "unat (seqOf d - ?n) < W"
        using set_seqs_offset [OF k(1), of "seqOf d" ?n] k(2) by linarith
    qed
  qed
  then have win: "in_window W ?n (pend ?t)" by (simp only: in_window_mset [OF ms])
  have t: "rd_buf ?t = rd_buf ?s" "nextSeqNr ?t = ?n" by simp_all
  have inv_t: "reader_inv W ?t"
    unfolding reader_inv_def t using inv' win by blast
  have "drain ?t = concat (map Payload ?ps)"
    by (rule drain_reorders [OF inv_t ms _ k(1)]) (simp only: t keys)
  moreover have "drain ?s = []"
    using drain_reorders [OF inv, of "[]"] assms(2) by simp
  ultimately show ?thesis
    unfolding unread_def pl by (simp add: arrived_def)
qed

lemma datagrams_zip:
  "datagrams n (map (\<lambda>b. MData (NewData b)) cs) =
     map (\<lambda>(n, b). datagram n (MData (NewData b))) (zip (seqs n (length cs)) cs)"
  by (simp add: datagrams_def zip_map2 comp_def split_def)

context cryptobyte_laws
begin

lemma queue_read_stream:
  assumes c: "isConnOpen c" "txChan c = map (\<lambda>b. MData (NewData b)) cs" "\<forall>x \<in> set cs. length x \<le> m" "m \<le> 65535"
    and emptied: "txChan (sender_run cb es c) = []"
    and ds: "mset (drop (length (wire_out c)) (wire_out (sender_run cb es c))) = mset ds"
    and s: "can_receive w s" "pend (dataReader s) = []" "reader_inv w (dataReader s)"
      "nextSeqNr (dataReader s) = peekSeq c" "m + 6 \<le> ReadBufferCap (Options s)"
    and fits: "length cs \<le> w"
  shows "unread (receive_all cb now ds s) = unread s @ concat cs"
proof -
  have el: "\<forall>x \<in> set (txChan c). isAckElicitingPacket x \<and> payload_fits x"
    using c(2-4) by (fastforce simp: isAckElicitingPacket_def NewData_def btp_types)
  from sender_run_order [OF c(1) el, of es] emptied
  have "wire_out (sender_run cb es c) = wire_out c @ datagrams (peekSeq c) (txChan c)"
    by auto
  then have out: "mset ds = mset (datagrams (peekSeq c) (map (\<lambda>b. MData (NewData b)) cs))"
    using ds c(2) by simp
  define zs where "zs = zip (seqs (peekSeq c) (length cs)) cs"
  have "mset ds = mset (map (\<lambda>(n, b). datagram n (MData (NewData b))) zs)"
    unfolding zs_def out datagrams_zip ..
  from permuted_map [OF this] obtain xs where xs: "mset xs = mset zs"
    "ds = map (\<lambda>(n, b). datagram n (MData (NewData b))) xs" by blast
  have len: "length xs = length cs" using arg_cong [OF xs(1), of size] by (simp add: zs_def)
  have "set xs = set zs" using xs(1) by (metis mset_eq_setD)
  then have "\<forall>(n, b) \<in> set xs. length b + 6 \<le> ReadBufferCap (Options s) \<and> length b \<le> 65535"
    using c(3,4) s(5) by (fastforce simp: zs_def dest: set_zip_rightD)
  moreover have "can_receive (length xs) s"
    using s(1) fits len by (simp add: can_receive_def)
  ultimately have "receive_all cb now ds s = arrived (map (\<lambda>(n, b). data_msg n b) xs) s"
    using receive_all_data xs(2) by blast
  moreover have "unread (arrived (map (\<lambda>(n, b). data_msg n b) xs) s) = unread s @ concat cs"
    by (rule arrived_unread [OF s(3,2) _ fits]) (use xs(1) s(4) in \<open>simp add: zs_def\<close>)
  ultimately show ?thesis by simp
qed

end

text \<open>Several calls of \<open>Write\<close>, up to the first that fails.\<close>

fun write_all :: "byte list list \<Rightarrow> Conn \<Rightarrow> (unit outcome \<times> Conn) option" where
  "write_all [] c = Some (Ok (), c)"
| "write_all (b # bs) c = (case Conn_Write b c of
      None \<Rightarrow> None
    | Some (Ok _, c') \<Rightarrow> write_all bs c'
    | Some (Err e, c') \<Rightarrow> Some (Err e, c')
    | Some (Block, c') \<Rightarrow> Some (Block, c')
    | Some (Panic s, c') \<Rightarrow> Some (Panic s, c'))"

definition packets_needed :: "nat \<Rightarrow> byte list list \<Rightarrow> nat" where
  "packets_needed m bs = sum_list (map (\<lambda>b. length b div m + 1) bs)"

lemma write_all_queues:
  assumes "isConnOpen c" and "\<not> chansClosed c" and "\<forall>b \<in> set bs. b \<noteq> []" and "0 < MaxPacketSize (Options c)"
  shows "\<exists>cs. write_all bs c = Some (Ok (), c\<lparr>txChan := txChan c @ map (\<lambda>b. MData (NewData b)) cs\<rparr>)
    \<and> concat cs = concat bs \<and> (\<forall>x \<in> set cs. length x \<le> unat (MaxPacketSize (Options c)))
    \<and> length cs = packets_needed (unat (MaxPacketSize (Options c))) bs"
  using assms
proof (induction bs arbitrary: c)
  case Nil
  then show ?case by (intro exI [of _ "[]"]) (simp add: packets_needed_def)
next
  case (Cons b bs)
  let ?m = "unat (MaxPacketSize (Options c))"
  from Cons.prems Conn_Write_queues [of c b] obtain cs
    where cs: "Conn_Write b c = Some (Ok (Size (MData (NewData (last cs)))),
        c\<lparr>txChan := txChan c @ map (\<lambda>b. MData (NewData b)) cs\<rparr>)"
      "concat cs = b" "chunk_list ?m cs" "length cs = length b div ?m + 1" by auto
  let ?c1 = "c\<lparr>txChan := txChan c @ map (\<lambda>b. MData (NewData b)) cs\<rparr>"
  from Cons.IH [of ?c1] Cons.prems obtain ds
    where ds: "write_all bs ?c1 = Some (Ok (), ?c1\<lparr>txChan := txChan ?c1 @ map (\<lambda>b. MData (NewData b)) ds\<rparr>)"
      "concat ds = concat bs" "\<forall>x \<in> set ds. length x \<le> ?m" "length ds = packets_needed ?m bs" by auto
  have "\<forall>x \<in> set cs. length x \<le> ?m" using chunk_list_le [OF cs(3)] by blast
  with cs ds show ?case
    by (intro exI [of _ "cs @ ds"]) (auto simp: packets_needed_def)
qed

context cryptobyte_laws
begin

lemma write_read_stream:
  assumes c: "isConnOpen c" "\<not> chansClosed c" "txChan c = []" "0 < MaxPacketSize (Options c)" "\<forall>b \<in> set bs. b \<noteq> []"
    and W: "write_all bs c = Some (r, c1)" and emptied: "txChan (sender_run cb es c1) = []"
    and ds: "mset (drop (length (wire_out c)) (wire_out (sender_run cb es c1))) = mset ds"
    and s: "can_receive w s" "pend (dataReader s) = []" "reader_inv w (dataReader s)"
      "nextSeqNr (dataReader s) = peekSeq c" "unat (MaxPacketSize (Options c)) + 6 \<le> ReadBufferCap (Options s)"
    and fits: "packets_needed (unat (MaxPacketSize (Options c))) bs \<le> w"
  shows "unread (receive_all cb now ds s) = unread s @ concat bs"
proof -
  let ?m = "unat (MaxPacketSize (Options c))"
  from write_all_queues [OF c(1,2,5,4)] W obtain cs
    where cs: "c1 = c\<lparr>txChan := txChan c @ map (\<lambda>b. MData (NewData b)) cs\<rparr>" "concat cs = concat bs"
      "\<forall>x \<in> set cs. length x \<le> ?m" "length cs = packets_needed ?m bs"
    by auto
  have m: "?m \<le> 65535" using unsigned_less [of "MaxPacketSize (Options c)", where 'a = nat] by simp
  have "unread (receive_all cb now ds s) = unread s @ concat cs"
    by (rule queue_read_stream [where c = c1, OF _ _ cs(3) m emptied _ s(1-3) _ s(5)])
      (use c cs ds s(4) fits in auto)
  with cs(2) show ?thesis by simp
qed

end

end
