(* ===== verification/Btp_Rounds.thy ===== *)
theory Btp_Rounds
  imports Btp_Session
begin

text \<open>
  A transfer in rounds: in each round the sender transmits some packets, which then arrive at the
  other side in any order. The reorder buffer only has to hold one round; what waits in the
  channel of the reader may be many.
\<close>

section \<open>A reader fed in rounds\<close>

text \<open>
  The reader \<open>s\<close> will hand out \<open>ps\<close>: what it has looked at and the first round \<open>x\<close> in its channel
  are the packets \<open>p\<close>, which fit the window, and every later round holds the next packets.
\<close>

definition rounds_ahead :: "nat \<Rightarrow> sequentialDataReader \<Rightarrow> MsgData option list \<Rightarrow> MsgData option list list \<Rightarrow>
    MsgData list \<Rightarrow> MsgData list list \<Rightarrow> bool" where
  "rounds_ahead w s x xs p qs \<longleftrightarrow> dataChan s = x @ concat xs \<and> reader_inv w (s\<lparr>dataChan := x\<rparr>)
     \<and> mset (pend (s\<lparr>dataChan := x\<rparr>)) = mset p
     \<and> list_all2 (\<lambda>x q. mset (somes x) = mset q \<and> length q \<le> w) xs qs"

definition lined :: "nat \<Rightarrow> sequentialDataReader \<Rightarrow> MsgData list \<Rightarrow> bool" where
  "lined w s ps \<longleftrightarrow> \<not> chanClosed s \<and> None \<notin> set (dataChan s) \<and> map seqOf ps = seqs (nextSeqNr s) (length ps)
     \<and> (\<exists>x xs p qs. rounds_ahead w s x xs p qs \<and> ps = p @ concat qs)"

lemma somes_no_None: "None \<notin> set xs \<Longrightarrow> xs = map Some (somes xs)"
  by (induction xs rule: somes.induct) auto

lemma somes_empty: "None \<notin> set xs \<Longrightarrow> somes xs = [] \<Longrightarrow> xs = []"
  using somes_no_None by fastforce

lemma recvLoop_suffix: "recvLoop ch s = (r, t) \<Longrightarrow> \<exists>pre. ch = pre @ dataChan t"
proof (induction ch s rule: recvLoop.induct)
  case (2 ch s)
  then obtain pre where "ch = pre @ dataChan t" by auto
  then show ?case by (intro exI [of _ "None # pre"]) simp
next
  case (3 d ch s)
  show ?case
  proof (cases "nextSeqNr s = seqOf d")
    case True
    with 3 show ?thesis by (intro exI [of _ "[Some d]"]) auto
  next
    case False
    with 3 obtain pre where "ch = pre @ dataChan t" by auto
    then show ?thesis by (intro exI [of _ "Some d # pre"]) simp
  qed
qed auto

lemma Next_suffix: "Next s = (r, t) \<Longrightarrow> \<exists>pre. dataChan s = pre @ dataChan t"
  using recvLoop_suffix by (fastforce simp: Next_def Let_def split: if_splits option.splits)

lemma recvLoop_more:
  "recvLoop ch s = (Ok d, t) \<Longrightarrow> recvLoop (ch @ b) (s\<lparr>dataChan := z\<rparr>) = (Ok d, t\<lparr>dataChan := dataChan t @ b\<rparr>)"
proof (induction ch s rule: recvLoop.induct)
  case (3 d' ch s)
  show ?case
  proof (cases "nextSeqNr s = seqOf d'")
    case False
    let ?b = "(rd_buf s)[slot s (seqOf d') := Some d']"
    have e: "(s\<lparr>rd_buf := ?b\<rparr>)\<lparr>dataChan := z\<rparr> = (s\<lparr>dataChan := z\<rparr>)\<lparr>rd_buf := ?b\<rparr>" by simp
    have "recvLoop ((Some d' # ch) @ b) (s\<lparr>dataChan := z\<rparr>) = recvLoop (ch @ b) ((s\<lparr>rd_buf := ?b\<rparr>)\<lparr>dataChan := z\<rparr>)"
      unfolding e using False by (simp add: slot_def)
    also have "\<dots> = (Ok d, t\<lparr>dataChan := dataChan t @ b\<rparr>)"
      using 3 False by simp
    finally show ?thesis .
  qed (use 3 in auto)
qed (auto split: if_splits)

lemma Next_more:
  "Next s = (Ok d, t) \<Longrightarrow> Next (s\<lparr>dataChan := dataChan s @ b\<rparr>) = (Ok d, t\<lparr>dataChan := dataChan t @ b\<rparr>)"
  using recvLoop_more [of "dataChan s" s d t b]
  by (auto simp: Next_def slot_def Let_def split: if_splits option.splits)

text \<open>The next round is looked at when the ones before are used up.\<close>

lemma rounds_shift:
  assumes "rounds_ahead w s x (y # ys) [] (q # qs)" and "None \<notin> set (dataChan s)"
    and "map seqOf q = seqs (nextSeqNr s) (length q)"
  shows "rounds_ahead w s y ys q qs"
proof -
  note A = assms(1) [unfolded rounds_ahead_def]
  have e: "somes x = []" "somes (rd_buf s) = []" using A by (auto simp: pend_def)
  moreover have "None \<notin> set x" using A assms(2) by auto
  ultimately have x: "x = []" using somes_empty by blast
  from A have y: "mset (somes y) = mset q" "length q \<le> w" by auto
  have buf: "rd_buf s \<noteq> []" "w \<le> 2 ^ 16 mod length (rd_buf s)" "placed (rd_buf s)"
    using A by (auto simp: reader_inv_def)
  have w16: "w \<le> 2 ^ 16" using buf(2) by (meson mod_less_eq_dividend order_trans)
  have "in_window w (nextSeqNr s) q"
    unfolding in_window_def assms(3)
  proof
    have k: "length q \<le> 2 ^ 16" using y(2) w16 by linarith
    show "distinct (seqs (nextSeqNr s) (length q))" by (rule distinct_seqs [OF k])
    show "\<forall>d \<in> set q. unat (seqOf d - nextSeqNr s) < w"
    proof
      fix d assume "d \<in> set q"
      then have "seqOf d \<in> set (map seqOf q)" by simp
      then have "seqOf d \<in> set (seqs (nextSeqNr s) (length q))" unfolding assms(3) .
      then show "unat (seqOf d - nextSeqNr s) < w"
        using set_seqs_offset [OF k, of "seqOf d" "nextSeqNr s"] y(2) by linarith
    qed
  qed
  then have "in_window w (nextSeqNr s) (somes y)" using in_window_mset [OF y(1)] by simp
  with A x e buf y show ?thesis by (simp add: rounds_ahead_def reader_inv_def pend_def)
qed

lemma seqs_split:
  assumes "map seqOf (p @ r) = seqs n (length (p @ r))"
  shows "map seqOf p = seqs n (length p)" and "map seqOf r = seqs (n + of_nat (length p)) (length r)"
proof -
  have "map seqOf p @ map seqOf r = seqs n (length p) @ seqs (n + of_nat (length p)) (length r)"
    using assms by (simp add: seqs_append)
  then show "map seqOf p = seqs n (length p)" and "map seqOf r = seqs (n + of_nat (length p)) (length r)"
    by (auto simp: append_eq_append_conv)
qed

lemma lined_first:
  assumes "lined w s ps" and "ps \<noteq> []"
  shows "\<exists>x xs p qs. rounds_ahead w s x xs p qs \<and> ps = p @ concat qs \<and> p \<noteq> []"
proof -
  have "\<exists>x xs p qs. rounds_ahead w s x xs p qs \<and> ps = p @ concat qs \<and> p \<noteq> []"
    if "rounds_ahead w s x xs p qs" "ps = p @ concat qs" "None \<notin> set (dataChan s)"
      "map seqOf ps = seqs (nextSeqNr s) (length ps)" for x xs p qs
    using that
  proof (induction qs arbitrary: x xs p)
    case Nil
    with assms(2) show ?case by (intro exI [of _ x] exI [of _ xs] exI [of _ p] exI [of _ "[]"]) simp
  next
    case (Cons q qs)
    show ?case
    proof (cases "p = []")
      case True
      with Cons.prems(1) obtain y ys where xs: "xs = y # ys"
        by (cases xs) (auto simp: rounds_ahead_def)
      have "map seqOf q = seqs (nextSeqNr s) (length q)"
        using seqs_split(1) [of q "concat qs"] Cons.prems(2,4) True by simp
      from rounds_shift [OF _ Cons.prems(3) this] Cons.prems(1) True xs have "rounds_ahead w s y ys q qs" by simp
      from Cons.IH [OF this _ Cons.prems(3,4)] Cons.prems(2) True show ?thesis by simp
    qed (use Cons.prems in blast)
  qed
  with assms(1) show ?thesis by (auto simp: lined_def)
qed

lemma Next_lined:
  assumes "lined w s (d # ps)"
  shows "\<exists>t. Next s = (Ok d, t) \<and> lined w t ps \<and> nextSeqNr t = nextSeqNr s + 1"
proof -
  obtain x xs p qs where R: "rounds_ahead w s x xs p qs" "d # ps = p @ concat qs" "p \<noteq> []"
    using lined_first [OF assms] by auto
  then obtain p' where p: "p = d # p'" "ps = p' @ concat qs" by (cases p) auto
  let ?s = "s\<lparr>dataChan := x\<rparr>" and ?n = "nextSeqNr s"
  note L = assms [unfolded lined_def] and A = R(1) [unfolded rounds_ahead_def]
  have d: "seqOf d = ?n" "map seqOf ps = seqs (?n + 1) (length ps)" using L by auto
  have ms: "mset (pend ?s) = add_mset d (mset p')" using A p(1) by simp
  then have mem: "d \<in> set (pend ?s)" by (metis set_mset_mset union_single_eq_member)
  then have "nextSeqNr ?s \<in> seqOf ` set (pend ?s)" using d(1) by force
  from A have inv: "reader_inv w ?s" by blast
  from Next_found [OF inv \<open>nextSeqNr ?s \<in> _\<close>] obtain e t where N: "Next ?s = (Ok e, t)" "seqOf e = nextSeqNr ?s"
    "mset (pend ?s) = add_mset e (mset (pend t))" "nextSeqNr t = nextSeqNr ?s + 1" "reader_inv w t" .
  have "e = d"
  proof -
    have "distinct (map seqOf (pend ?s))" using inv by (simp add: reader_inv_def in_window_def)
    moreover have "e \<in> set (pend ?s)" using N(3) by (metis set_mset_mset union_single_eq_member)
    moreover have "seqOf e = seqOf d" using N(2) d(1) by simp
    ultimately show ?thesis using mem by (metis distinct_map inj_on_contraD)
  qed
  have s: "s = ?s\<lparr>dataChan := dataChan ?s @ concat xs\<rparr>" using A by simp
  let ?t = "t\<lparr>dataChan := dataChan t @ concat xs\<rparr>"
  have "Next s = (Ok d, ?t)"
    using Next_more [OF N(1), of "concat xs"] \<open>e = d\<close> s by simp
  moreover obtain pre where pre: "x = pre @ dataChan t" using Next_suffix [OF N(1)] by auto
  moreover have "chanClosed t = chanClosed s" using Next_frame [OF N(1)] by simp
  moreover have "mset (pend t) = mset p'" using ms N(3) \<open>e = d\<close> by simp
  moreover have "rounds_ahead w ?t (dataChan t) xs p' qs"
  proof -
    have "?t\<lparr>dataChan := dataChan t\<rparr> = t" by simp
    with A N(5) \<open>mset (pend t) = mset p'\<close> show ?thesis by (simp only: rounds_ahead_def) simp
  qed
  moreover have "None \<notin> set (dataChan ?t)" using L A \<open>x = pre @ dataChan t\<close> by auto
  ultimately have "lined w ?t ps"
    using L N(4) d(2) p(2) unfolding lined_def by fastforce
  with \<open>Next s = (Ok d, ?t)\<close> N(4) show ?thesis by (intro exI [of _ ?t]) simp
qed

lemma lined_Nil_chan:
  assumes "lined w s []"
  shows "dataChan s = [] \<and> reader_inv w s \<and> pend s = []"
proof -
  obtain x xs p qs where R: "rounds_ahead w s x xs p qs" "[] = p @ concat qs" using assms by (auto simp: lined_def)
  note A = R(1) [unfolded rounds_ahead_def]
  have "somes (concat xs) = []" if "list_all2 (\<lambda>x q. mset (somes x) = mset q \<and> length q \<le> w) xs qs" "concat qs = []" for xs qs
    using that by (induction rule: list_all2_induct) auto
  with A R(2) have "somes (concat xs) = []" by auto
  moreover have "somes x = []" using A R(2) by (auto simp: pend_def)
  moreover have "None \<notin> set (dataChan s)" using assms by (simp add: lined_def)
  ultimately have "dataChan s = []" "x = []" using A somes_empty [of "x @ concat xs"] by auto
  moreover from this have "s\<lparr>dataChan := x\<rparr> = s" by simp
  moreover have "reader_inv w (s\<lparr>dataChan := x\<rparr>) \<and> pend (s\<lparr>dataChan := x\<rparr>) = []" using A R(2) by simp
  ultimately show ?thesis by metis
qed

lemma Next_lined_Nil:
  assumes "lined w s []"
  shows "\<exists>t. Next s = (Block, t) \<and> lined w t [] \<and> nextSeqNr t = nextSeqNr s"
proof -
  note S = lined_Nil_chan [OF assms]
  obtain r t where N: "Next s = (r, t)" by fastforce
  have open_: "\<not> chanClosed s" using assms by (simp add: lined_def)
  from Next_correct [OF _ N, of w] S open_ have M: "r = Block" "pend t = []" "nextSeqNr t = nextSeqNr s" "reader_inv w t" "dataChan t = []"
    by (auto simp: next_missing_def)
  have "chanClosed t = chanClosed s" using Next_frame [OF N] by simp
  moreover have "rounds_ahead w t [] [] [] []"
  proof -
    have "t\<lparr>dataChan := []\<rparr> = t" using M(5) by simp
    with M show ?thesis by (simp only: rounds_ahead_def) simp
  qed
  ultimately have "lined w t []"
    using M(5) open_ unfolding lined_def by fastforce
  with M(1,3) N show ?thesis by blast
qed

lemma drain_lined: "lined w s ps \<Longrightarrow> drain s = concat (map Payload ps)"
proof (induction ps arbitrary: s)
  case Nil
  with Next_lined_Nil [OF Nil] show ?case by (auto simp: drain.simps [of s])
next
  case (Cons d ps)
  from Next_lined [OF Cons.prems] obtain t where "Next s = (Ok d, t)" "lined w t ps" by blast
  with Cons.IH show ?case by (simp add: drain_Ok)
qed

lemma length_somes: "None \<notin> set xs \<Longrightarrow> length (somes xs) = length xs"
  by (induction xs rule: somes.induct) auto

text \<open>The channel holds no more than what is to be handed out.\<close>

lemma lined_length:
  assumes "lined w s ps"
  shows "length (dataChan s) \<le> length ps"
proof -
  obtain x xs p qs where R: "rounds_ahead w s x xs p qs" "ps = p @ concat qs" using assms by (auto simp: lined_def)
  note A = R(1) [unfolded rounds_ahead_def]
  have "length (somes (concat xs)) = length (concat qs)"
    if "list_all2 (\<lambda>x q. mset (somes x) = mset q \<and> length q \<le> w) xs qs" for xs qs
    using that
  proof (induction rule: list_all2_induct)
    case (Cons x xs q qs)
    then have "length (somes x) = length q" by (metis size_mset)
    with Cons show ?case by simp
  qed simp
  then have "length (somes (concat xs)) = length (concat qs)" using A by blast
  moreover have "length (somes x) \<le> length p"
  proof -
    have "mset (somes x) + mset (somes (rd_buf s)) = mset p" using A by (simp add: pend_def)
    then have "size (mset (somes x)) + size (mset (somes (rd_buf s))) = size (mset p)" by (metis size_union)
    then show ?thesis by simp
  qed
  moreover have "length (dataChan s) = length (somes (dataChan s))"
    using assms length_somes [of "dataChan s"] by (simp add: lined_def)
  ultimately show ?thesis using A R(2) by simp
qed

text \<open>Another round arrives.\<close>

lemma lined_arrive:
  assumes "lined w s ps" and "mset xs = mset q" and "length q \<le> w"
    and "map seqOf q = seqs (nextSeqNr s + of_nat (length ps)) (length q)"
  shows "lined w (s\<lparr>dataChan := dataChan s @ map Some xs\<rparr>) (ps @ q)"
proof -
  obtain x ys p qs where R: "rounds_ahead w s x ys p qs" "ps = p @ concat qs" using assms by (auto simp: lined_def)
  then have "rounds_ahead w (s\<lparr>dataChan := dataChan s @ map Some xs\<rparr>) x (ys @ [map Some xs]) p (qs @ [q])"
    using assms(2,3) by (simp add: rounds_ahead_def list_all2_appendI)
  moreover have "map seqOf (ps @ q) = seqs (nextSeqNr s) (length (ps @ q))"
    using assms(1,4) by (simp add: lined_def seqs_append)
  ultimately show ?thesis
    using assms(1) R(2) unfolding lined_def
    by (auto intro!: exI [of _ x] exI [of _ "ys @ [map Some xs]"] exI [of _ p] exI [of _ "qs @ [q]"])
qed

section \<open>Reading from a connection that is fed in rounds\<close>

lemma fillBuf_lined:
  assumes "lined w s ps" and "fillBuf n b s = (r, b', t)"
  shows "\<exists>pre qs. ps = pre @ qs \<and> lined w t qs \<and> b' = b @ concat (map Payload pre)
    \<and> nextSeqNr t = nextSeqNr s + of_nat (length pre) \<and> chanCap t = chanCap s"
  using assms
proof (induction n b s arbitrary: ps rule: fillBuf.induct)
  case (1 n b s)
  show ?case
  proof (cases "length b < n")
    case True
    show ?thesis
    proof (cases ps)
      case Nil
      with Next_lined_Nil [of w s] "1.prems"(1) obtain u where u: "Next s = (Block, u)" "lined w u []" "nextSeqNr u = nextSeqNr s" by auto
      with True "1.prems"(2) Next_frame [OF u(1)] Nil show ?thesis
        by (intro exI [of _ "[]"]) (auto simp: fillBuf.simps [of n b s])
    next
      case (Cons d ps')
      with Next_lined [of w s d ps'] "1.prems"(1) obtain u where u: "Next s = (Ok d, u)" "lined w u ps'" "nextSeqNr u = nextSeqNr s + 1" by auto
      have "fillBuf n (b @ Payload d) u = (r, b', t)" using True u(1) "1.prems"(2) by (simp add: fillBuf.simps [of n b s])
      from "1.IH" [OF True u(1) [symmetric] refl u(2) this] obtain pre qs where
        "ps' = pre @ qs" "lined w t qs" "b' = (b @ Payload d) @ concat (map Payload pre)"
        "nextSeqNr t = nextSeqNr u + of_nat (length pre)" "chanCap t = chanCap u" by blast
      with Cons u Next_frame [OF u(1)] show ?thesis
        by (intro exI [of _ "d # pre"] exI [of _ qs]) (simp add: add.assoc)
    qed
  next
    case False
    with "1.prems" show ?thesis by (intro exI [of _ "[]"] exI [of _ ps]) (simp add: fillBuf.simps [of n b s])
  qed
qed

text \<open>A connection after some reads, compared with \<open>c0\<close>, which had \<open>ps\<close> to hand out.\<close>

definition reading_from :: "nat \<Rightarrow> Conn \<Rightarrow> MsgData list \<Rightarrow> Conn \<Rightarrow> bool" where
  "reading_from w c0 ps c \<longleftrightarrow> (\<exists>b s pre qs. c = c0\<lparr>readBuf := b, dataReader := s\<rparr> \<and> ps = pre @ qs \<and> lined w s qs
     \<and> nextSeqNr s = nextSeqNr (dataReader c0) + of_nat (length pre) \<and> chanCap s = chanCap (dataReader c0))"

lemma reading_from_start: "lined w (dataReader c) ps \<Longrightarrow> reading_from w c ps c"
  unfolding reading_from_def
  by (intro exI [of _ "readBuf c"] exI [of _ "dataReader c"] exI [of _ "[]"] exI [of _ ps]) simp

lemma Conn_Read_from:
  assumes "reading_from w c0 ps c" and "Conn_Read c n = (r, c')"
  shows "reading_from w c0 ps c'"
proof -
  obtain b s pre qs where c: "c = c0\<lparr>readBuf := b, dataReader := s\<rparr>" "ps = pre @ qs" "lined w s qs"
    "nextSeqNr s = nextSeqNr (dataReader c0) + of_nat (length pre)" "chanCap s = chanCap (dataReader c0)"
    using assms(1) unfolding reading_from_def by blast
  obtain x b' t where f: "fillBuf n b s = (x, b', t)" by (cases "fillBuf n b s") auto
  from fillBuf_lined [OF c(3) f] obtain pre' qs' where t: "qs = pre' @ qs'" "lined w t qs'"
    "nextSeqNr t = nextSeqNr s + of_nat (length pre')" "chanCap t = chanCap s" by blast
  have "\<exists>b''. c' = c0\<lparr>readBuf := b'', dataReader := t\<rparr>"
    using assms(2) c(1) f by (cases x) (auto simp: Conn_Read_def)
  then obtain b'' where "c' = c0\<lparr>readBuf := b'', dataReader := t\<rparr>" by blast
  with c t show ?thesis
    unfolding reading_from_def
    by (intro exI [of _ b''] exI [of _ t] exI [of _ "pre @ pre'"] exI [of _ qs']) (simp add: add.assoc)
qed

lemma unread_lined: "lined w (dataReader c) ps \<Longrightarrow> unread c = readBuf c @ concat (map Payload ps)"
  by (simp add: unread_def drain_lined)

section \<open>A direction of the network\<close>

text \<open>
  What has to hold between the messages: nothing is queued at the sender and everything that
  was sent has been read, up to a trailing empty packet of the last \<open>Write\<close>. The channel of the
  reader has room for the packets of a message of \<open>room\<close> bytes.
\<close>

definition caught_up :: "nat \<Rightarrow> nat \<Rightarrow> Conn \<Rightarrow> Conn \<Rightarrow> bool" where
  "caught_up w room a b \<longleftrightarrow> isConnOpen a \<and> \<not> chansClosed a \<and> txChan a = [] \<and> 0 < MaxPacketSize (Options a)
     \<and> isConnOpen b \<and> pushing b = [] \<and> readBuf b = [] \<and> unat (MaxPacketSize (Options a)) + 6 \<le> ReadBufferCap (Options b)
     \<and> room div unat (MaxPacketSize (Options a)) + 2 \<le> chanCap (dataReader b)
     \<and> (\<exists>ps. lined w (dataReader b) ps \<and> length ps \<le> 1 \<and> concat (map Payload ps) = []
         \<and> nextSeqNr (dataReader b) + of_nat (length ps) = peekSeq a)"

text \<open>
  A schedule is a list of rounds, each with what the sender does, the order in which what it
  transmitted arrives, and when. At most \<open>w\<close> datagrams may be on their way; the schedule has to
  go on until the queue is empty. Otherwise the result is \<open>None\<close>.
\<close>

type_synonym round = "sender_event list \<times> (byte list list \<Rightarrow> byte list list) \<times> int"

fun carry :: "'b cryptobyte \<Rightarrow> 'b cryptobyte \<Rightarrow> nat \<Rightarrow> round list \<Rightarrow> Conn \<Rightarrow> Conn \<Rightarrow> (Conn \<times> Conn) option" where
  "carry cbA cbB w [] a b = (if txChan a = [] then Some (a, b) else None)"
| "carry cbA cbB w ((es, order, now) # rounds) a b =
     (let a' = sender_run cbA es a;
          ds = drop (length (wire_out a)) (wire_out a')
      in if length ds \<le> w then carry cbA cbB w rounds a' (receive_all cbB now (order ds) b) else None)"

definition permuting :: "round list \<Rightarrow> bool" where
  "permuting rounds \<longleftrightarrow> (\<forall>(es, order, now) \<in> set rounds. \<forall>ds. mset (order ds) = mset ds)"

text \<open>What a sender keeps.\<close>

definition same_ends :: "Conn \<Rightarrow> Conn \<Rightarrow> bool" where
  "same_ends c c' \<longleftrightarrow> isConnOpen c' = isConnOpen c \<and> chansClosed c' = chansClosed c \<and> dataReader c' = dataReader c
     \<and> readBuf c' = readBuf c \<and> pushing c' = pushing c
     \<and> MaxPacketSize (Options c') = MaxPacketSize (Options c) \<and> ReadBufferCap (Options c') = ReadBufferCap (Options c)"

lemma same_ends_refl [simp]: "same_ends c c"
  by (simp add: same_ends_def)

lemma same_ends_trans: "same_ends a b \<Longrightarrow> same_ends b c \<Longrightarrow> same_ends a c"
  by (simp add: same_ends_def)

lemma same_ends_upd [simp]:
  "same_ends c (c\<lparr>txChan := q\<rparr>)" "same_ends c (c\<lparr>wire_out := ds\<rparr>)" "same_ends c (c\<lparr>inflightPackets := f\<rparr>)"
  "same_ends c (c\<lparr>packetNumberGenerator := g\<rparr>)" "same_ends c (set_CC h c)" "same_ends c (c\<lparr>rttMeasurement := r\<rparr>)"
  by (simp_all add: same_ends_def set_CC_def)

lemma transmit_ends: "same_ends c (snd (transmit cb wr now m c))"
  unfolding transmit_def Let_def
  by (simp add: same_ends_def set_CC_def split: outcome.split prod.split option.split)

lemma sender_step_ends:
  assumes "isConnOpen c"
  shows "same_ends c (sender_step cb e c)"
proof (cases e)
  case (Tx now)
  show ?thesis
  proof (cases "NumFreeSend (cc_of c) > 0 \<and> txChan c \<noteq> []")
    case True
    then obtain m rest where "txChan c = m # rest" by (cases "txChan c") auto
    with Tx True same_ends_trans [OF same_ends_upd(1) transmit_ends] show ?thesis by (simp add: run_tx_def)
  next
    case False
    with Tx show ?thesis by (auto simp: run_tx_def split: list.split)
  qed
next
  case (AckIn now n)
  then show ?thesis
    using assms by (simp add: onMessage_ack_open same_ends_def processAck_def Let_def set_CC_def split: option.split)
qed

lemma sender_run_ends: "isConnOpen c \<Longrightarrow> same_ends c (sender_run cb es c)"
proof (induction es arbitrary: c)
  case (Cons e es)
  note E = sender_step_ends [OF Cons.prems, of cb e]
  then have "isConnOpen (sender_step cb e c)" using Cons.prems by (simp add: same_ends_def)
  from same_ends_trans [OF E Cons.IH [OF this]] show ?case by (simp add: sender_run_def)
qed (simp add: sender_run_def)

lemma arrived_simps [simp]:
  "isConnOpen (arrived ds c) = isConnOpen c" "pushing (arrived ds c) = pushing c" "Options (arrived ds c) = Options c"
  "chanCap (dataReader (arrived ds c)) = chanCap (dataReader c)" "readBuf (arrived ds c) = readBuf c"
  "dataChan (dataReader (arrived ds c)) = dataChan (dataReader c) @ map Some ds"
  "nextSeqNr (dataReader (arrived ds c)) = nextSeqNr (dataReader c)" "txChan (arrived ds c) = txChan c"
  "chansClosed (arrived ds c) = chansClosed c" "peekSeq (arrived ds c) = peekSeq c"
  by (simp_all add: arrived_def)

context cryptobyte_laws
begin

text \<open>One round.\<close>

lemma round_arrives:
  assumes a: "isConnOpen a" "txChan a = map (\<lambda>b. MData (NewData b)) cs" "\<forall>x \<in> set cs. length x \<le> m" "m \<le> 65535"
    and b: "isConnOpen b" "pushing b = []" "lined w (dataReader b) ps" "m + 6 \<le> ReadBufferCap (Options b)"
      "nextSeqNr (dataReader b) + of_nat (length ps) = peekSeq a"
      "length (dataChan (dataReader b)) + length cs \<le> chanCap (dataReader b)"
    and r: "a' = sender_run cb es a" "mset ds = mset (drop (length (wire_out a)) (wire_out a'))" "length ds \<le> w"
    and cbB: "cryptobyte_laws cbB viewB"
  shows "\<exists>cs1 cs2 zs qs. cs = cs1 @ cs2 \<and> txChan a' = map (\<lambda>b. MData (NewData b)) cs2
    \<and> peekSeq a' = peekSeq a + of_nat (length cs1) \<and> receive_all cbB now ds b = arrived zs b \<and> length zs = length cs1
    \<and> map Payload qs = cs1 \<and> lined w (dataReader (arrived zs b)) (ps @ qs)"
proof -
  have el: "\<forall>x \<in> set (txChan a). isAckElicitingPacket x \<and> payload_fits x"
    using a(2-4) by (fastforce simp: isAckElicitingPacket_def NewData_def btp_types)
  obtain ms rest where o: "txChan a = ms @ rest" "txChan a' = rest" "wire_out a' = wire_out a @ datagrams (peekSeq a) ms"
    "peekSeq a' = peekSeq a + of_nat (length ms)"
    using sender_run_order [OF a(1) el, of es] r(1) by blast
  obtain cs1 cs2 where cs: "cs = cs1 @ cs2" "ms = map (\<lambda>b. MData (NewData b)) cs1" "rest = map (\<lambda>b. MData (NewData b)) cs2"
  proof -
    have "ms @ rest = map (\<lambda>b. MData (NewData b)) cs" using o(1) a(2) by simp
    with that show ?thesis unfolding append_eq_map_conv by blast
  qed
  define zs where "zs = zip (seqs (peekSeq a) (length cs1)) cs1"
  define q where "q = map (\<lambda>(n, b). data_msg n b) zs"
  have "mset ds = mset (map (\<lambda>(n, b). datagram n (MData (NewData b))) zs)"
    using r(2) o(3) unfolding zs_def datagrams_zip [symmetric] cs(2) by simp
  from permuted_map [OF this] obtain xs where xs: "mset xs = mset zs"
    "ds = map (\<lambda>(n, b). datagram n (MData (NewData b))) xs" by blast
  have len: "length xs = length cs1" using arg_cong [OF xs(1), of size] by (simp add: zs_def)
  have "set xs = set zs" using xs(1) by (metis mset_eq_setD)
  then have fit: "\<forall>(n, b') \<in> set xs. length b' + 6 \<le> ReadBufferCap (Options b) \<and> length b' \<le> 65535"
  proof (intro ballI, clarify)
    fix n b' assume "(n, b') \<in> set xs"
    then have "b' \<in> set cs1" using \<open>set xs = set zs\<close> by (auto simp: zs_def dest: set_zip_rightD)
    then have "length b' \<le> m" using a(3) cs(1) by simp
    then show "length b' + 6 \<le> ReadBufferCap (Options b) \<and> length b' \<le> 65535" using a(4) b(4) by linarith
  qed
  have "\<not> chanClosed (dataReader b)" using b(3) by (simp add: lined_def)
  then have can: "can_receive (length xs) b"
    using b(1,2,6) len cs(1) by (simp add: can_receive_def)
  have R: "receive_all cbB now ds b = arrived (map (\<lambda>(n, b). data_msg n b) xs) b"
    using cryptobyte_laws.receive_all_data [OF cbB can fit] xs(2) by simp
  have keys: "map seqOf q = seqs (peekSeq a) (length q)"
    by (simp add: q_def zs_def comp_def case_prod_unfold split_def)
  have pl: "map Payload q = cs1" by (simp add: q_def zs_def comp_def split_def)
  have lq: "length q = length cs1" by (simp add: q_def zs_def)
  have "mset (map (\<lambda>(n, b). data_msg n b) xs) = mset q" using xs(1) by (simp add: q_def)
  from lined_arrive [OF b(3) this] r(3) keys b(5) xs(2) len lq
  have "lined w (dataReader (arrived (map (\<lambda>(n, b). data_msg n b) xs) b)) (ps @ q)"
    by (simp add: arrived_def)
  with cs o R len pl show ?thesis
    by (intro exI [of _ cs1] exI [of _ cs2] exI [of _ "map (\<lambda>(n, b). data_msg n b) xs"] exI [of _ q]) simp
qed

text \<open>All rounds of a schedule that sends everything.\<close>

lemma carry_arrives:
  assumes "cryptobyte_laws cbB viewB" and "permuting rounds" and "carry cb cbB w rounds a b = Some (a', b')"
    and "isConnOpen a" and "txChan a = map (\<lambda>b. MData (NewData b)) cs" and "\<forall>x \<in> set cs. length x \<le> m" and "m \<le> 65535"
    and "isConnOpen b" and "pushing b = []" and "lined w (dataReader b) ps" and "m + 6 \<le> ReadBufferCap (Options b)"
    and "nextSeqNr (dataReader b) + of_nat (length ps) = peekSeq a"
    and "length (dataChan (dataReader b)) + length cs \<le> chanCap (dataReader b)"
  shows "\<exists>zs qs. txChan a' = [] \<and> same_ends a a' \<and> peekSeq a' = peekSeq a + of_nat (length cs)
    \<and> b' = arrived zs b \<and> length zs = length cs \<and> map Payload qs = cs \<and> lined w (dataReader b') (ps @ qs)"
  using assms(2-)
proof (induction rounds arbitrary: a b cs ps)
  case Nil
  then show ?case
    by (intro exI [of _ "[]"] exI [of _ "[]"]) (auto simp: arrived_def split: if_splits)
next
  case (Cons r rounds)
  obtain es order now where r: "r = (es, order, now)" by (cases r)
  define a1 where "a1 = sender_run cb es a"
  define ds where "ds = drop (length (wire_out a)) (wire_out a1)"
  have P: "mset (order ds) = mset ds" "permuting rounds" using Cons.prems(1) r by (auto simp: permuting_def)
  have l: "length (order ds) \<le> w" and later: "carry cb cbB w rounds a1 (receive_all cbB now (order ds) b) = Some (a', b')"
    using Cons.prems(2) r arg_cong [OF P(1), of size] by (auto simp: Let_def a1_def ds_def split: if_splits)
  from round_arrives [OF Cons.prems(3-6) Cons.prems(7-9,10,11,12) a1_def P(1) [unfolded ds_def] l [unfolded ds_def] assms(1)]
  obtain cs1 cs2 zs qs where R: "cs = cs1 @ cs2" "txChan a1 = map (\<lambda>b. MData (NewData b)) cs2" "peekSeq a1 = peekSeq a + of_nat (length cs1)"
    "receive_all cbB now (order ds) b = arrived zs b" "length zs = length cs1" "map Payload qs = cs1"
    "lined w (dataReader (arrived zs b)) (ps @ qs)"
    unfolding ds_def by blast
  have E: "same_ends a a1" unfolding a1_def by (rule sender_run_ends [OF Cons.prems(3)])
  have "length qs = length cs1" using R(6) by auto
  then have n1: "nextSeqNr (dataReader (arrived zs b)) + of_nat (length (ps @ qs)) = peekSeq a1"
    using Cons.prems(11) R(3) by (simp add: add.assoc [symmetric])
  have c1: "length (dataChan (dataReader (arrived zs b))) + length cs2 \<le> chanCap (dataReader (arrived zs b))"
    using Cons.prems(12) R(1,5) by simp
  have o1: "isConnOpen a1" using E Cons.prems(3) by (simp add: same_ends_def)
  have s1: "\<forall>x \<in> set cs2. length x \<le> m" using Cons.prems(5) R(1) by simp
  have b1: "isConnOpen (arrived zs b)" "pushing (arrived zs b) = []" "m + 6 \<le> ReadBufferCap (Options (arrived zs b))"
    using Cons.prems(7,8,10) by simp_all
  from Cons.IH [OF P(2) later [unfolded R(4)] o1 R(2) s1 Cons.prems(6) b1(1,2) R(7) b1(3) n1 c1] obtain zs' qs' where
    I: "txChan a' = []" "same_ends a1 a'" "peekSeq a' = peekSeq a1 + of_nat (length cs2)"
    "b' = arrived zs' (arrived zs b)" "length zs' = length cs2" "map Payload qs' = cs2" "lined w (dataReader b') ((ps @ qs) @ qs')"
    by blast
  have "same_ends a a'" by (rule same_ends_trans [OF E I(2)])
  with R(1,3,5,6) I show ?case
    by (intro exI [of _ "zs @ zs'"] exI [of _ "qs @ qs'"]) (simp add: arrived_arrived add.assoc)
qed

end

text \<open>A schedule there always is when the window is open: one packet at a time.\<close>

definition open_window :: "Conn \<Rightarrow> bool" where
  "open_window c \<longleftrightarrow> pipe (cc_of c) = 0 \<and> 1 \<le> cwnd (cc_of c)"

definition one_by_one :: "Conn \<Rightarrow> round list" where
  "one_by_one a = map (\<lambda>n. ([Tx 0, AckIn 0 n], \<lambda>ds. ds, 0)) (seqs (peekSeq a) (length (txChan a)))"

lemma permuting_one_by_one: "permuting (one_by_one a)"
  by (auto simp: permuting_def one_by_one_def)

context cryptobyte_laws
begin

lemma carry_one_by_one:
  assumes "isConnOpen a" and "\<forall>m \<in> set (txChan a). isAckElicitingPacket m \<and> payload_fits m" and "open_window a" and "1 \<le> w"
  shows "\<exists>a' b'. carry cb cbB w (one_by_one a) a b = Some (a', b') \<and> open_window a'"
  using assms
proof (induction "txChan a" arbitrary: a b)
  case Nil
  then show ?case by (simp add: one_by_one_def)
next
  case (Cons m rest)
  let ?a1 = "sent_state 0 m (a\<lparr>txChan := rest\<rparr>)"
  let ?a2 = "processAck 0 (GetHeader (ackIn (peekSeq a))) ?a1"
  have m: "isAckElicitingPacket m" "payload_fits m" using Cons.prems(2) Cons.hyps(2) by (metis list.set_intros(1))+
  then have run: "sender_run cb [Tx 0, AckIn 0 (peekSeq a)] a = ?a2"
    using Cons.prems Cons.hyps(2) [symmetric]
    by (simp add: sender_run_def run_tx_def NumFreeSend_def transmit_full onMessage_ack_open open_window_def)
  have w2: "open_window ?a2"
    using Cons.prems(3) by (simp add: open_window_def processAck_def sent_state_def ackIn_def Let_def)
  have t2: "txChan ?a2 = rest" "isConnOpen ?a2" "peekSeq ?a2 = peekSeq a + 1"
    using Cons.prems(1) by simp_all
  have "\<forall>m \<in> set (txChan ?a2). isAckElicitingPacket m \<and> payload_fits m"
    using Cons.prems(2) Cons.hyps(2) [symmetric] t2(1) by simp
  from Cons.hyps(1) [OF t2(1) [symmetric] t2(2) this w2 Cons.prems(4)] obtain a' b' where
    "carry cb cbB w (one_by_one ?a2) ?a2 (receive_all cbB 0 [datagram (peekSeq a) m] b) = Some (a', b')" "open_window a'" by blast
  moreover have "carry cb cbB w (one_by_one a) a b
      = carry cb cbB w (one_by_one ?a2) ?a2 (receive_all cbB 0 [datagram (peekSeq a) m] b)"
  proof -
    have o: "one_by_one a = ([Tx 0, AckIn 0 (peekSeq a)], \<lambda>ds. ds, 0) # one_by_one ?a2"
      using Cons.hyps(2) [symmetric] t2 by (simp add: one_by_one_def)
    have d: "drop (length (wire_out a)) (wire_out ?a2) = [datagram (peekSeq a) m]" by simp
    show ?thesis unfolding o carry.simps run Let_def d using Cons.prems(4) by simp
  qed
  ultimately show ?case by metis
qed

end

end
