(* ===== verification/Brft_OptHeaders.thy ===== *)
theory Brft_OptHeaders
  imports Cryptobyte Cyberbyte
begin

text \<open>
  brft/messages/optionalheader.go: the optional headers of a file request and its response.
  \<open>opt_wire\<close> is the wire format; the lemmas show which headers are encoded, and that a list of
  the headers this implementation knows is read back as it was written.
\<close>

section \<open>The headers\<close>

definition OptionalHeaderTypeReserved :: byte where "OptionalHeaderTypeReserved = 0"
definition OptionalHeaderTypeCompressionReq :: byte where "OptionalHeaderTypeCompressionReq = 1"
definition OptionalHeaderTypeCompressionResp :: byte where "OptionalHeaderTypeCompressionResp = 2"
definition OptionalHeaderLengthCompressionReq :: byte where "OptionalHeaderLengthCompressionReq = 3"
definition OptionalHeaderLengthCompressionResp :: byte where "OptionalHeaderLengthCompressionResp = 2"

lemmas opt_consts = OptionalHeaderTypeReserved_def OptionalHeaderTypeCompressionReq_def
  OptionalHeaderTypeCompressionResp_def OptionalHeaderLengthCompressionReq_def
  OptionalHeaderLengthCompressionResp_def

record BaseOptionalHeader =
  Length :: byte
  Type :: byte

text \<open>A nil pointer in the list of headers is \<open>NilHeader\<close>.\<close>

datatype OptionalHeader =
    NilHeader
  | UnknownOptionalHeader BaseOptionalHeader "byte list"
  | CompressionReqOptionalHeader BaseOptionalHeader byte byte
  | CompressionRespOptionalHeader BaseOptionalHeader byte

definition NewCompressionReqOptionalHeader :: "byte \<Rightarrow> byte \<Rightarrow> OptionalHeader" where
  "NewCompressionReqOptionalHeader a m = CompressionReqOptionalHeader
     \<lparr>Length = OptionalHeaderLengthCompressionReq, Type = OptionalHeaderTypeCompressionReq\<rparr> a m"

definition NewCompressionRespOptionalHeader :: "byte \<Rightarrow> OptionalHeader" where
  "NewCompressionRespOptionalHeader s = CompressionRespOptionalHeader
     \<lparr>Length = OptionalHeaderLengthCompressionResp, Type = OptionalHeaderTypeCompressionResp\<rparr> s"

definition ComputeChunkSize :: "byte \<Rightarrow> int" where
  "ComputeChunkSize mult = (uint mult + 1) * 64 * 1024"

fun ChunkSize :: "OptionalHeader \<Rightarrow> int option" where
  "ChunkSize NilHeader = Some 0"
| "ChunkSize (CompressionReqOptionalHeader b a m) = Some (ComputeChunkSize m)"
| "ChunkSize _ = None"

section \<open>Encoding\<close>

text \<open>The capacity is computed in \<open>uint8\<close>.\<close>

definition Base_Encode :: "'b cryptobyte \<Rightarrow> BaseOptionalHeader \<Rightarrow> 'b" where
  "Base_Encode cb h =
     (let b = NewFixedBuilder cb (unat (1 + Length h));
          b = AddUint8 cb b (Length h)
      in AddUint8 cb b (Type h))"

definition Unknown_Encode :: "'b cryptobyte \<Rightarrow> BaseOptionalHeader \<Rightarrow> byte list \<Rightarrow> byte list outcome" where
  "Unknown_Encode cb h d = (let b = Base_Encode cb h; b = AddBytes cb b d in Bytes cb b)"

definition CompressionReq_Encode :: "'b cryptobyte \<Rightarrow> BaseOptionalHeader \<Rightarrow> byte \<Rightarrow> byte \<Rightarrow> byte list outcome" where
  "CompressionReq_Encode cb h a m =
     (let b = Base_Encode cb h; b = AddUint8 cb b a; b = AddUint8 cb b m in Bytes cb b)"

definition CompressionResp_Encode :: "'b cryptobyte \<Rightarrow> BaseOptionalHeader \<Rightarrow> byte \<Rightarrow> byte list outcome" where
  "CompressionResp_Encode cb h s = (let b = Base_Encode cb h; b = AddUint8 cb b s in Bytes cb b)"

lemmas Opt_Encode_defs = Unknown_Encode_def CompressionReq_Encode_def CompressionResp_Encode_def

text \<open>The method call on the interface \<open>OptionalHeader\<close>.\<close>

fun Opt_Encode :: "'b cryptobyte \<Rightarrow> OptionalHeader \<Rightarrow> byte list outcome" where
  "Opt_Encode cb NilHeader = Err ErrOptionalHeaderNil"
| "Opt_Encode cb (UnknownOptionalHeader h d) = Unknown_Encode cb h d"
| "Opt_Encode cb (CompressionReqOptionalHeader h a m) = CompressionReq_Encode cb h a m"
| "Opt_Encode cb (CompressionRespOptionalHeader h s) = CompressionResp_Encode cb h s"

fun encodeAll :: "'b cryptobyte \<Rightarrow> byte list \<Rightarrow> OptionalHeader list \<Rightarrow> byte list outcome" where
  "encodeAll cb b [] = Ok b"
| "encodeAll cb b (h # hs) = bindO (Opt_Encode cb h) (\<lambda>hb. encodeAll cb (b @ hb) hs)"

definition marshalOptionalHeaders :: "'b cryptobyte \<Rightarrow> OptionalHeader list \<Rightarrow> byte list outcome" where
  "marshalOptionalHeaders cb hs =
     (if length hs > 255 then Err (New ''too many optional headers'')
      else encodeAll cb [of_nat (length hs)] hs)"

section \<open>Decoding\<close>

definition Base_Decode :: "'r reader \<Rightarrow> ('r, BaseOptionalHeader) parser" where
  "Base_Decode rd = bindM (cy_ReadUint8 rd) (\<lambda>len. bindM (cy_ReadUint8 rd) (\<lambda>optType.
     returnM \<lparr>Length = len, Type = optType\<rparr>))"

definition Unknown_Decode :: "'r reader \<Rightarrow> BaseOptionalHeader \<Rightarrow> ('r, OptionalHeader) parser" where
  "Unknown_Decode rd base = bindM (cy_ReadBytes rd (unat (Length base)))
     (\<lambda>d. returnM (UnknownOptionalHeader base d))"

definition CompressionReq_Decode :: "'r reader \<Rightarrow> BaseOptionalHeader \<Rightarrow> ('r, OptionalHeader) parser" where
  "CompressionReq_Decode rd base = bindM (cy_ReadUint8 rd) (\<lambda>alg. bindM (cy_ReadUint8 rd) (\<lambda>mult.
     returnM (CompressionReqOptionalHeader base alg mult)))"

definition CompressionResp_Decode :: "'r reader \<Rightarrow> BaseOptionalHeader \<Rightarrow> ('r, OptionalHeader) parser" where
  "CompressionResp_Decode rd base = bindM (cy_ReadUint8 rd) (\<lambda>stat.
     returnM (CompressionRespOptionalHeader base stat))"

definition readOne :: "'r reader \<Rightarrow> BaseOptionalHeader \<Rightarrow> ('r, OptionalHeader) parser" where
  "readOne rd base =
     (if Type base = OptionalHeaderTypeReserved then failM ErrReceivedReservedOptionalHeader
      else if Type base = OptionalHeaderTypeCompressionReq then CompressionReq_Decode rd base
      else if Type base = OptionalHeaderTypeCompressionResp then CompressionResp_Decode rd base
      else Unknown_Decode rd base)"

primrec readHeaders :: "'r reader \<Rightarrow> nat \<Rightarrow> ('r, OptionalHeader list) parser" where
  "readHeaders rd 0 = returnM []"
| "readHeaders rd (Suc n) = bindM (Base_Decode rd) (\<lambda>base. bindM (readOne rd base) (\<lambda>h.
     bindM (readHeaders rd n) (\<lambda>hs. returnM (h # hs))))"

definition readOptionalHeaders :: "'r reader \<Rightarrow> ('r, OptionalHeader list) parser" where
  "readOptionalHeaders rd = bindM (cy_ReadUint8 rd) (\<lambda>numHeaders. readHeaders rd (unat numHeaders))"

section \<open>The wire format\<close>

definition base_wire :: "BaseOptionalHeader \<Rightarrow> byte list" where
  "base_wire h = [Length h, Type h]"

fun opt_base :: "OptionalHeader \<Rightarrow> BaseOptionalHeader" where
  "opt_base NilHeader = \<lparr>Length = 0, Type = 0\<rparr>"
| "opt_base (UnknownOptionalHeader h d) = h"
| "opt_base (CompressionReqOptionalHeader h a m) = h"
| "opt_base (CompressionRespOptionalHeader h s) = h"

fun opt_body :: "OptionalHeader \<Rightarrow> byte list" where
  "opt_body NilHeader = []"
| "opt_body (UnknownOptionalHeader h d) = d"
| "opt_body (CompressionReqOptionalHeader h a m) = [a, m]"
| "opt_body (CompressionRespOptionalHeader h s) = [s]"

definition opt_wire :: "OptionalHeader \<Rightarrow> byte list" where
  "opt_wire h = base_wire (opt_base h) @ opt_body h"

definition opts_wire :: "OptionalHeader list \<Rightarrow> byte list" where
  "opts_wire hs = of_nat (length hs) # concat (map opt_wire hs)"

text \<open>The headers the constructor functions make.\<close>

fun known :: "OptionalHeader \<Rightarrow> bool" where
  "known (CompressionReqOptionalHeader h a m) \<longleftrightarrow> CompressionReqOptionalHeader h a m = NewCompressionReqOptionalHeader a m"
| "known (CompressionRespOptionalHeader h s) \<longleftrightarrow> CompressionRespOptionalHeader h s = NewCompressionRespOptionalHeader s"
| "known _ \<longleftrightarrow> False"

definition opts_ok :: "OptionalHeader list \<Rightarrow> bool" where
  "opts_ok hs \<longleftrightarrow> length hs \<le> 255 \<and> (\<forall>h \<in> set hs. known h)"

context cryptobyte_laws
begin

lemma Opt_Encode_wire:
  "h \<noteq> NilHeader \<Longrightarrow> Opt_Encode cb h =
     (if length (opt_wire h) \<le> unat (1 + Length (opt_base h)) then Ok (opt_wire h) else Err BuilderError)"
  by (cases h) (auto simp: Opt_Encode_defs Let_def Base_Encode_def view_simps opt_wire_def base_wire_def
      intro!: bytes_fits bytes_overflow simp del: put.simps)

lemma Opt_Encode_known: "known h \<Longrightarrow> Opt_Encode cb h = Ok (opt_wire h)"
  by (cases h) (auto simp: Opt_Encode_wire opt_wire_def base_wire_def opt_consts
      NewCompressionReqOptionalHeader_def NewCompressionRespOptionalHeader_def simp del: Opt_Encode.simps)

lemma encodeAll_wire:
  "\<forall>h \<in> set hs. known h \<Longrightarrow> encodeAll cb b hs = Ok (b @ concat (map opt_wire hs))"
  by (induction hs arbitrary: b) (simp_all add: Opt_Encode_known)

lemma marshalOptionalHeaders_wire: "opts_ok hs \<Longrightarrow> marshalOptionalHeaders cb hs = Ok (opts_wire hs)"
  by (simp add: marshalOptionalHeaders_def opts_ok_def opts_wire_def encodeAll_wire)

text \<open>A header of an unknown type with as many data bytes as its decoder reads is not encoded.\<close>

lemma unknown_not_encoded:
  assumes "length d = unat (Length h)"
  shows "Opt_Encode cb (UnknownOptionalHeader h d) = Err BuilderError"
proof -
  have "unat (1 + Length h) \<le> Suc (unat (Length h))"
    using unat_word_ariths(1) [of 1 "Length h"] by simp
  with assms show ?thesis
    by (subst Opt_Encode_wire) (simp_all add: opt_wire_def base_wire_def)
qed

end

context stream_source
begin

lemma parses_base [parsing]: "parses avail (Base_Decode rd) (base_wire h) h"
  unfolding Base_Decode_def base_wire_def
  by (rule parses_bind_eq [OF parses_u8 parses_bind_eq [OF parses_u8 parses_return_eq]]) auto

lemma parses_one:
  assumes "known h"
  shows "parses avail (readOne rd (opt_base h)) (opt_body h) h"
proof (cases h)
  case (CompressionReqOptionalHeader b a m)
  then have "parses avail (CompressionReq_Decode rd b) [a, m] h"
    unfolding CompressionReq_Decode_def
    by (intro parses_bind_eq [OF parses_u8 parses_bind_eq [OF parses_u8 parses_return_eq]]) auto
  with assms CompressionReqOptionalHeader show ?thesis
    by (simp add: readOne_def opt_consts NewCompressionReqOptionalHeader_def)
next
  case (CompressionRespOptionalHeader b s)
  then have "parses avail (CompressionResp_Decode rd b) [s] h"
    unfolding CompressionResp_Decode_def
    by (intro parses_bind_eq [OF parses_u8 parses_return_eq]) auto
  with assms CompressionRespOptionalHeader show ?thesis
    by (simp add: readOne_def opt_consts NewCompressionRespOptionalHeader_def)
qed (use assms in auto)

lemma parses_headers:
  "\<forall>h \<in> set hs. known h \<Longrightarrow> parses avail (readHeaders rd (length hs)) (concat (map opt_wire hs)) hs"
proof (induction hs)
  case (Cons h hs)
  then show ?case
    unfolding list.map concat.simps length_Cons readHeaders.simps opt_wire_def append_assoc
    by (intro parses_bind [OF parses_base] parses_bind [OF parses_one]
        parses_bind_eq [OF _ parses_return_eq]) auto
qed (simp add: parses_return)

lemma parses_opts [parsing]:
  assumes "opts_ok hs"
  shows "parses avail (readOptionalHeaders rd) (opts_wire hs) hs"
  unfolding readOptionalHeaders_def opts_wire_def
proof (rule parses_bind_eq [OF parses_u8])
  have "unat (of_nat (length hs) :: byte) = length hs"
    using assms by (simp add: opts_ok_def unat_of_nat take_bit_nat_eq_self)
  with assms parses_headers [of hs] show
    "parses avail (readHeaders rd (unat (of_nat (length hs) :: byte))) (concat (map opt_wire hs)) hs"
    by (simp add: opts_ok_def)
qed simp

text \<open>The decoder of an unknown header takes \<open>Length\<close> bytes although the type is counted in it.\<close>

lemma parses_unknown:
  assumes "length d = unat (Length h)" and "Type h \<notin> {OptionalHeaderTypeReserved,
    OptionalHeaderTypeCompressionReq, OptionalHeaderTypeCompressionResp}"
  shows "parses avail (readOne rd h) d (UnknownOptionalHeader h d)"
proof -
  have "parses avail (Unknown_Decode rd h) d (UnknownOptionalHeader h d)"
    unfolding Unknown_Decode_def
    by (rule parses_bind_eq [OF parses_bytes [OF assms(1)] parses_return_eq]) simp_all
  with assms(2) show ?thesis by (simp add: readOne_def)
qed

end

end
