(* ===== verification/Brft_Messages.thy ===== *)
theory Brft_Messages
  imports Brft_OptHeaders
begin

text \<open>
  brft/messages: the seven messages of the file transfer layer, \<open>Encode\<close> and \<open>Decode\<close> of each,
  the header byte, and \<open>readMsg\<close> of brft/conn.go. \<open>brft_wire\<close> is the wire format; encoding
  produces it within the capacity \<open>baseSize\<close> computes, and reading it from a byte stream gives
  back the message (\<open>decoded\<close>: with the zero checksum that \<open>FileReq.Encode\<close> fills in).
\<close>

section \<open>Header (header.go)\<close>

definition VersionBRFTv0 :: byte where "VersionBRFTv0 = push_bit 5 (0 + 1)"
definition VersionMask :: byte where "VersionMask = 0xE0"
definition BMessageTypeFileReq :: byte where "BMessageTypeFileReq = 1"
definition BMessageTypeFileResp :: byte where "BMessageTypeFileResp = 2"
definition BMessageTypeData :: byte where "BMessageTypeData = 3"
definition BMessageTypeStartTransmission :: byte where "BMessageTypeStartTransmission = 4"
definition BMessageTypeClose :: byte where "BMessageTypeClose = 5"
definition BMessageTypeMetaDataReq :: byte where "BMessageTypeMetaDataReq = 6"
definition BMessageTypeMetaDataResp :: byte where "BMessageTypeMetaDataResp = 7"
definition MessageTypeMask :: byte where "MessageTypeMask = 0x1F"
definition BRFTHeaderSize :: nat where "BRFTHeaderSize = 1"
definition ChecksumSize :: nat where "ChecksumSize = 32"
definition MaxMetaItemsNum :: nat where "MaxMetaItemsNum = 255"
definition FileReqFlagResumption :: byte where "FileReqFlagResumption = push_bit 0 1"

lemmas brft_types = BMessageTypeFileReq_def BMessageTypeFileResp_def BMessageTypeData_def
  BMessageTypeStartTransmission_def BMessageTypeClose_def BMessageTypeMetaDataReq_def
  BMessageTypeMetaDataResp_def
lemmas brft_consts = VersionBRFTv0_def VersionMask_def MessageTypeMask_def brft_types
lemmas brft_sizes = BRFTHeaderSize_def ChecksumSize_def MaxMetaItemsNum_def

definition Version_Valid :: "byte \<Rightarrow> bool" where
  "Version_Valid v \<longleftrightarrow> v = VersionBRFTv0"

definition MessageType_Name :: "byte \<Rightarrow> string" where
  "MessageType_Name m =
     (if m = BMessageTypeFileReq then ''File Request''
      else if m = BMessageTypeFileResp then ''File Response''
      else if m = BMessageTypeData then ''Data''
      else if m = BMessageTypeStartTransmission then ''Start Transmission''
      else if m = BMessageTypeClose then ''Close''
      else if m = BMessageTypeMetaDataReq then ''Metadata Request''
      else if m = BMessageTypeMetaDataResp then ''Metadata Response''
      else '''')"

record BPacketHeader =
  BVersion :: byte
  BMessageType :: byte

definition NewPacketHeader :: "byte \<Rightarrow> BPacketHeader" where
  "NewPacketHeader b = \<lparr>BVersion = b AND VersionMask, BMessageType = b AND MessageTypeMask\<rparr>"

section \<open>The messages\<close>

record FileReq =
  fq_StreamID :: u16
  fq_Flags :: "byte list"
  fq_OptHeaders :: "OptionalHeader list"
  fq_FileName :: gostring
  fq_Checksum :: "byte list"

record FileResp =
  fp_Status :: byte
  fp_OptHeaders :: "OptionalHeader list"
  fp_StreamID :: u16
  fp_FileSize :: u64
  fp_Checksum :: "byte list"

record BData =
  bd_StreamID :: u16
  bd_Data :: "byte list"

record StartTransmission =
  st_StreamID :: u16
  st_Checksum :: "byte list"
  st_Offset :: u64

record BClose =
  bc_StreamID :: u16
  bc_Reason :: byte

record MetaReq =
  mq_FileName :: gostring

text \<open>\<open>FileSize\<close> is a pointer; a nil and an empty checksum slice have the same length 0.\<close>

record MetaItem =
  mi_FileName :: gostring
  mi_FileSize :: "u64 option"
  mi_Checksum :: "byte list"

record MetaResp =
  mr_Items :: "MetaItem list"
  isExtended :: bool

datatype BRFTMessage =
    BFileReq FileReq | BFileResp FileResp | BDataMsg BData | BStart StartTransmission
  | BCloseMsg BClose | BMetaReq MetaReq | BMetaResp MetaResp

fun headerForMessage :: "BRFTMessage \<Rightarrow> BPacketHeader" where
  "headerForMessage (BFileReq m) = \<lparr>BVersion = VersionBRFTv0, BMessageType = BMessageTypeFileReq\<rparr>"
| "headerForMessage (BFileResp m) = \<lparr>BVersion = VersionBRFTv0, BMessageType = BMessageTypeFileResp\<rparr>"
| "headerForMessage (BDataMsg m) = \<lparr>BVersion = VersionBRFTv0, BMessageType = BMessageTypeData\<rparr>"
| "headerForMessage (BStart m) = \<lparr>BVersion = VersionBRFTv0, BMessageType = BMessageTypeStartTransmission\<rparr>"
| "headerForMessage (BCloseMsg m) = \<lparr>BVersion = VersionBRFTv0, BMessageType = BMessageTypeClose\<rparr>"
| "headerForMessage (BMetaReq m) = \<lparr>BVersion = VersionBRFTv0, BMessageType = BMessageTypeMetaDataReq\<rparr>"
| "headerForMessage (BMetaResp m) = \<lparr>BVersion = VersionBRFTv0, BMessageType = BMessageTypeMetaDataResp\<rparr>"

fun baseSize :: "BRFTMessage \<Rightarrow> nat" where
  "baseSize (BFileReq m) = 2 + 1 + 1 + length (fq_FileName m) + ChecksumSize"
| "baseSize (BFileResp m) = 1 + 2 + 8 + ChecksumSize"
| "baseSize (BDataMsg m) = 2 + 3 + length (bd_Data m)"
| "baseSize (BStart m) = 2 + ChecksumSize + 8"
| "baseSize (BCloseMsg m) = 2 + 1"
| "baseSize (BMetaReq m) = length (mq_FileName m)"
| "baseSize (BMetaResp m) = 2"

section \<open>Encoding\<close>

definition AddUint64 :: "'b cryptobyte \<Rightarrow> 'b \<Rightarrow> u64 \<Rightarrow> 'b" where
  "AddUint64 cb b v = AddBytes cb b [ucast (drop_bit 56 v), ucast (drop_bit 48 v), ucast (drop_bit 40 v),
     ucast (drop_bit 32 v), ucast (drop_bit 24 v), ucast (drop_bit 16 v), ucast (drop_bit 8 v), ucast v]"

definition writePacketHeader :: "'b cryptobyte \<Rightarrow> BRFTMessage \<Rightarrow> 'b \<Rightarrow> 'b" where
  "writePacketHeader cb msg s =
     (let h = headerForMessage msg in AddUint8 cb s (BVersion h OR BMessageType h))"

definition NewFixedBRFTMessageBuilder :: "'b cryptobyte \<Rightarrow> BRFTMessage \<Rightarrow> 'b" where
  "NewFixedBRFTMessageBuilder cb m =
     writePacketHeader cb m (NewFixedBuilder cb (BRFTHeaderSize + baseSize m))"

definition NewFixedBRFTMessageBuilderWithExtra :: "'b cryptobyte \<Rightarrow> BRFTMessage \<Rightarrow> nat \<Rightarrow> 'b" where
  "NewFixedBRFTMessageBuilderWithExtra cb m extra =
     writePacketHeader cb m (NewFixedBuilder cb (BRFTHeaderSize + baseSize m + extra))"

definition FileReq_Encode :: "'b cryptobyte \<Rightarrow> FileReq \<Rightarrow> byte list outcome" where
  "FileReq_Encode cb m =
     (let m = (if fq_Checksum m = [] then m\<lparr>fq_Checksum := replicate ChecksumSize 0\<rparr> else m) in
      if length (fq_Checksum m) \<noteq> ChecksumSize then Err (New ''invalid checksum length'')
      else if length (fq_FileName m) > 255 then Err (New ''invalid filename length'')
      else bindO (mapErr (\<lambda>e. Errorf ''unable to marshal optional headers'' (Some e))
                   (marshalOptionalHeaders cb (fq_OptHeaders m))) (\<lambda>optHeaderBytes.
        (let b = NewFixedBRFTMessageBuilderWithExtra cb (BFileReq m) (length optHeaderBytes);
             b = AddUint16 cb b (fq_StreamID m);
             flags = fold (\<lambda>f flags. flags OR f) (fq_Flags m) 0;
             b = AddUint8 cb b flags;
             b = AddBytes cb b optHeaderBytes;
             b = AddUint8LengthPrefixed cb b (\<lambda>b. AddBytes cb b (fq_FileName m));
             b = AddBytes cb b (fq_Checksum m)
         in Bytes cb b)))"

definition FileResp_Encode :: "'b cryptobyte \<Rightarrow> FileResp \<Rightarrow> byte list outcome" where
  "FileResp_Encode cb m =
     (if length (fp_Checksum m) \<noteq> ChecksumSize then Err (New ''invalid checksum length'')
      else bindO (mapErr (\<lambda>e. Errorf ''unable to marshal optional headers'' (Some e))
                   (marshalOptionalHeaders cb (fp_OptHeaders m))) (\<lambda>optHeaderBytes.
        (let b = NewFixedBRFTMessageBuilderWithExtra cb (BFileResp m) (length optHeaderBytes);
             b = AddUint8 cb b (fp_Status m);
             b = AddBytes cb b optHeaderBytes;
             b = AddUint16 cb b (fp_StreamID m);
             b = AddUint64 cb b (fp_FileSize m);
             b = AddBytes cb b (fp_Checksum m)
         in Bytes cb b)))"

definition Data_Encode :: "'b cryptobyte \<Rightarrow> BData \<Rightarrow> byte list outcome" where
  "Data_Encode cb m =
     (let b = NewFixedBRFTMessageBuilder cb (BDataMsg m);
          b = AddUint16 cb b (bd_StreamID m);
          b = AddUint24 cb b (of_nat (length (bd_Data m)));
          b = AddBytes cb b (bd_Data m)
      in Bytes cb b)"

definition StartTransmission_Encode :: "'b cryptobyte \<Rightarrow> StartTransmission \<Rightarrow> byte list outcome" where
  "StartTransmission_Encode cb m =
     (let b = NewFixedBRFTMessageBuilder cb (BStart m);
          b = AddUint16 cb b (st_StreamID m);
          b = AddBytes cb b (st_Checksum m);
          b = AddUint64 cb b (st_Offset m)
      in Bytes cb b)"

definition Close_Encode :: "'b cryptobyte \<Rightarrow> BClose \<Rightarrow> byte list outcome" where
  "Close_Encode cb m =
     (let b = NewFixedBRFTMessageBuilder cb (BCloseMsg m);
          b = AddUint16 cb b (bc_StreamID m);
          b = AddUint8 cb b (bc_Reason m)
      in Bytes cb b)"

definition MetaReq_Encode :: "'b cryptobyte \<Rightarrow> MetaReq \<Rightarrow> byte list outcome" where
  "MetaReq_Encode cb m =
     (if length (mq_FileName m) > MaxMetaItemsNum then Err (New ''filename too long'')
      else (let len = length (mq_FileName m) + 1;
                b = NewFixedBRFTMessageBuilderWithExtra cb (BMetaReq m) len;
                b = AddUint8LengthPrefixed cb b (\<lambda>b. AddBytes cb b (mq_FileName m))
            in Bytes cb b))"

definition MetaItem_Encode :: "'b cryptobyte \<Rightarrow> MetaItem \<Rightarrow> byte list outcome" where
  "MetaItem_Encode cb m =
     (if length (mi_FileName m) > 255 then Err (New ''filename too long'')
      else if length (mi_FileName m) = 0 then Err (New ''filename empty'')
      else
        (let extended = (mi_FileSize m \<noteq> None \<and> length (mi_Checksum m) \<noteq> 0);
             outLen = 1 + length (mi_FileName m) + (if extended then 8 + ChecksumSize else 0)
         in if (mi_FileSize m = None) \<noteq> (length (mi_Checksum m) = 0)
            then Err (New ''file size OR checksum empty, but not both'')
            else
              (let b = NewFixedBuilder cb outLen;
                   b = AddUint8LengthPrefixed cb b (\<lambda>b. AddBytes cb b (mi_FileName m))
               in case mi_FileSize m of
                    None \<Rightarrow> Bytes cb b
                  | Some fileSize \<Rightarrow>
                      (let b = AddUint64 cb b fileSize in
                       if length (mi_Checksum m) \<noteq> ChecksumSize then Err (New ''invalid checksum length'')
                       else Bytes cb (AddBytes cb b (mi_Checksum m))))))"

fun encodeItems :: "'b cryptobyte \<Rightarrow> byte list \<Rightarrow> MetaItem list \<Rightarrow> byte list outcome" where
  "encodeItems cb bytes [] = Ok bytes"
| "encodeItems cb bytes (i # is) =
     bindO (mapErr (\<lambda>e. New ''unable to marshal item'') (MetaItem_Encode cb i))
       (\<lambda>b. encodeItems cb (bytes @ b) is)"

definition MetaResp_Encode :: "'b cryptobyte \<Rightarrow> MetaResp \<Rightarrow> byte list outcome" where
  "MetaResp_Encode cb m =
     (let numItems = length (mr_Items m) in
      if numItems > 255 then Err (New ''to many items'')
      else bindO (encodeItems cb [] (mr_Items m)) (\<lambda>bytes.
        (let b = NewFixedBRFTMessageBuilderWithExtra cb (BMetaResp m) (length bytes);
             b = AddUint8 cb b (of_nat numItems);
             b = (if isExtended m then AddUint8 cb b 1 else AddUint8 cb b 0);
             b = AddBytes cb b bytes
         in Bytes cb b)))"

text \<open>The method call on the interface \<open>BRFTMessage\<close>.\<close>

fun BEncode :: "'b cryptobyte \<Rightarrow> BRFTMessage \<Rightarrow> byte list outcome" where
  "BEncode cb (BFileReq m) = FileReq_Encode cb m"
| "BEncode cb (BFileResp m) = FileResp_Encode cb m"
| "BEncode cb (BDataMsg m) = Data_Encode cb m"
| "BEncode cb (BStart m) = StartTransmission_Encode cb m"
| "BEncode cb (BCloseMsg m) = Close_Encode cb m"
| "BEncode cb (BMetaReq m) = MetaReq_Encode cb m"
| "BEncode cb (BMetaResp m) = MetaResp_Encode cb m"

text \<open>
  \<open>NewMetaResps\<close> splits the items into responses of 255; the last one has fewer, so that the
  receiver sees the end.
\<close>

function (sequential) splitItems :: "MetaItem list \<Rightarrow> MetaResp list" where
  "splitItems items =
     (if length items \<ge> MaxMetaItemsNum
      then \<lparr>mr_Items = take MaxMetaItemsNum items, isExtended = False\<rparr> # splitItems (drop MaxMetaItemsNum items)
      else [\<lparr>mr_Items = items, isExtended = False\<rparr>])"
  by pat_completeness auto
termination
  by (relation "measure length") (auto simp: MaxMetaItemsNum_def)

declare splitItems.simps [simp del]

text \<open>The test \<open>Checksum != nil\<close> is on the slice: an empty non-nil slice is \<open>chkNil = False\<close>.\<close>

definition NewMetaResps :: "bool \<Rightarrow> MetaItem list \<Rightarrow> MetaResp list" where
  "NewMetaResps chkNil items =
     (if length items = 1 \<and> mi_FileSize (hd items) \<noteq> None \<and> (mi_Checksum (hd items) \<noteq> [] \<or> \<not> chkNil)
      then [\<lparr>mr_Items = items, isExtended = True\<rparr>]
      else splitItems items)"

section \<open>Decoding\<close>

abbreviation wrapErr :: "string \<Rightarrow> ('r, 'a) parser \<Rightarrow> ('r, 'a) parser" where
  "wrapErr msg p \<equiv> mapErrM (\<lambda>e. Errorf msg (Some e)) p"

definition splitFlags :: "byte \<Rightarrow> byte list \<times> byte" where
  "splitFlags joinedFlags = fold (\<lambda>f (fs, j). if j AND f > 0 then (fs @ [f], j AND NOT f) else (fs, j))
     [FileReqFlagResumption] ([], joinedFlags)"

text \<open>The last two errors wrap the variable \<open>err\<close>, which is nil there.\<close>

definition FileReq_Decode :: "'r reader \<Rightarrow> ('r, FileReq) parser" where
  "FileReq_Decode rd =
     bindM (wrapErr ''unable to read streamID'' (cy_ReadUint16 rd)) (\<lambda>streamID.
     bindM (wrapErr ''unable to read flags'' (cy_ReadUint8 rd)) (\<lambda>joinedFlags.
     (case splitFlags joinedFlags of (flags, rest) \<Rightarrow>
       if rest > 0 then failM (Errorf '''' (Some (ErrInvalidFlag rest)))
       else bindM (wrapErr ''unable to read optional headers'' (readOptionalHeaders rd)) (\<lambda>headers.
         bindM (mapErrM (\<lambda>_. Errorf ''unable to read file name'' None) (cy_ReadUint8LengthPrefixedBytes rd)) (\<lambda>fileName.
         bindM (mapErrM (\<lambda>_. Errorf ''unable to read checksum'' None) (cy_ReadBytes rd ChecksumSize)) (\<lambda>checksum.
         returnM \<lparr>fq_StreamID = streamID, fq_Flags = flags, fq_OptHeaders = headers,
                  fq_FileName = fileName, fq_Checksum = checksum\<rparr>))))))"

definition FileResp_Decode :: "'r reader \<Rightarrow> ('r, FileResp) parser" where
  "FileResp_Decode rd =
     bindM (wrapErr ''unable to read status'' (cy_ReadUint8 rd)) (\<lambda>status.
     bindM (wrapErr ''unable to read optional headers'' (readOptionalHeaders rd)) (\<lambda>headers.
     bindM (wrapErr ''unable to read streamID'' (cy_ReadUint16 rd)) (\<lambda>streamID.
     bindM (wrapErr ''unable to read file size'' (cy_ReadUint64 rd)) (\<lambda>fileSize.
     bindM (mapErrM (\<lambda>_. Errorf ''unable to read checksum'' None) (cy_ReadBytes rd ChecksumSize)) (\<lambda>checksum.
     returnM \<lparr>fp_Status = status, fp_OptHeaders = headers, fp_StreamID = streamID,
              fp_FileSize = fileSize, fp_Checksum = checksum\<rparr>)))))"

definition Data_Decode :: "'r reader \<Rightarrow> ('r, BData) parser" where
  "Data_Decode rd =
     bindM (wrapErr ''unable to read StreamID'' (cy_ReadUint16 rd)) (\<lambda>streamID.
     bindM (wrapErr ''unable to read payload length'' (cy_ReadUint24 rd)) (\<lambda>lenPayload.
     bindM (wrapErr ''unable to read data'' (cy_ReadBytes rd (unat lenPayload))) (\<lambda>payload.
     returnM \<lparr>bd_StreamID = streamID, bd_Data = payload\<rparr>)))"

definition StartTransmission_Decode :: "'r reader \<Rightarrow> ('r, StartTransmission) parser" where
  "StartTransmission_Decode rd =
     bindM (wrapErr ''unable to read StreamID'' (cy_ReadUint16 rd)) (\<lambda>streamID.
     bindM (wrapErr ''unable to read checksum'' (cy_ReadBytes rd ChecksumSize)) (\<lambda>checksum.
     bindM (wrapErr ''unable to read offset'' (cy_ReadUint64 rd)) (\<lambda>off.
     returnM \<lparr>st_StreamID = streamID, st_Checksum = checksum, st_Offset = off\<rparr>)))"

definition Close_Decode :: "'r reader \<Rightarrow> ('r, BClose) parser" where
  "Close_Decode rd =
     bindM (wrapErr ''unable to read StreamID'' (cy_ReadUint16 rd)) (\<lambda>streamID.
     bindM (wrapErr ''unable to read Reason'' (cy_ReadUint8 rd)) (\<lambda>reason.
     returnM \<lparr>bc_StreamID = streamID, bc_Reason = reason\<rparr>))"

definition MetaReq_Decode :: "'r reader \<Rightarrow> ('r, MetaReq) parser" where
  "MetaReq_Decode rd = bindM (mapErrM (\<lambda>_. ErrReadFailed) (cy_ReadUint8LengthPrefixedBytes rd))
     (\<lambda>fileName. returnM \<lparr>mq_FileName = fileName\<rparr>)"

definition MetaItem_Decode :: "'r reader \<Rightarrow> bool \<Rightarrow> ('r, MetaItem) parser" where
  "MetaItem_Decode rd extended =
     bindM (mapErrM (\<lambda>_. ErrReadFailed) (cy_ReadUint8LengthPrefixedBytes rd)) (\<lambda>fileName.
       if \<not> extended then returnM \<lparr>mi_FileName = fileName, mi_FileSize = None, mi_Checksum = []\<rparr>
       else
         bindM (mapErrM (\<lambda>_. New ''extended item, but unable to read file size'') (cy_ReadUint64 rd)) (\<lambda>fileSize.
         bindM (mapErrM (\<lambda>_. New ''extended item, but unable to read checksum'') (cy_ReadBytes rd ChecksumSize)) (\<lambda>checksum.
         returnM \<lparr>mi_FileName = fileName, mi_FileSize = Some fileSize, mi_Checksum = checksum\<rparr>)))"

primrec decodeItems :: "'r reader \<Rightarrow> bool \<Rightarrow> nat \<Rightarrow> ('r, MetaItem list) parser" where
  "decodeItems rd extended 0 = returnM []"
| "decodeItems rd extended (Suc n) =
     bindM (mapErrM (\<lambda>_. New ''unable to unmarshal item'') (MetaItem_Decode rd extended)) (\<lambda>item.
     bindM (decodeItems rd extended n) (\<lambda>items. returnM (item # items)))"

definition MetaResp_Decode :: "'r reader \<Rightarrow> ('r, MetaResp) parser" where
  "MetaResp_Decode rd =
     bindM (mapErrM (\<lambda>_. ErrReadFailed) (cy_ReadUint8 rd)) (\<lambda>numItems.
     bindM (mapErrM (\<lambda>_. ErrReadFailed) (cy_ReadUint8 rd)) (\<lambda>isExtendedByte.
     (let extended = (isExtendedByte mod 2 = 1) in
     bindM (decodeItems rd extended (unat numItems)) (\<lambda>items.
     returnM \<lparr>mr_Items = items, isExtended = extended\<rparr>))))"

section \<open>readMsg (brft/conn.go)\<close>

text \<open>The buffer of one byte is zero before the read. An invalid version is only logged.\<close>

definition readHeader :: "'r reader \<Rightarrow> ('r, BPacketHeader) parser" where
  "readHeader rd = bindM (\<lambda>r. rd r 1) (\<lambda>b. returnM (NewPacketHeader (case b of [] \<Rightarrow> 0 | x # _ \<Rightarrow> x)))"

definition decodeAs :: "'r reader \<Rightarrow> byte \<Rightarrow> ('r, BRFTMessage) parser" where
  "decodeAs rd t =
     (if t = BMessageTypeFileReq then bindM (wrapErr ''unable to decode FileReq'' (FileReq_Decode rd)) (\<lambda>x. returnM (BFileReq x))
      else if t = BMessageTypeFileResp then bindM (wrapErr ''unable to decode FileResp'' (FileResp_Decode rd)) (\<lambda>x. returnM (BFileResp x))
      else if t = BMessageTypeData then bindM (wrapErr ''unable to decode Data'' (Data_Decode rd)) (\<lambda>x. returnM (BDataMsg x))
      else if t = BMessageTypeStartTransmission then bindM (wrapErr ''unable to decode StartTransmission'' (StartTransmission_Decode rd)) (\<lambda>x. returnM (BStart x))
      else if t = BMessageTypeClose then bindM (wrapErr ''unable to decode Close'' (Close_Decode rd)) (\<lambda>x. returnM (BCloseMsg x))
      else if t = BMessageTypeMetaDataReq then bindM (wrapErr ''unable to decode MetaItemReq'' (MetaReq_Decode rd)) (\<lambda>x. returnM (BMetaReq x))
      else if t = BMessageTypeMetaDataResp then bindM (wrapErr ''unable to decode MetaResp'' (MetaResp_Decode rd)) (\<lambda>x. returnM (BMetaResp x))
      else failM (New ''uknown packet header received''))"

definition readMsg :: "'r reader \<Rightarrow> ('r, BRFTMessage \<times> BPacketHeader) parser" where
  "readMsg rd = bindM (readHeader rd) (\<lambda>h. bindM (decodeAs rd (BMessageType h)) (\<lambda>m. returnM (m, h)))"

section \<open>The wire format\<close>

definition header_byte :: "BRFTMessage \<Rightarrow> byte" where
  "header_byte m = BVersion (headerForMessage m) OR BMessageType (headerForMessage m)"

definition name_wire :: "gostring \<Rightarrow> byte list" where
  "name_wire n = of_nat (length n) # n"

definition item_wire :: "MetaItem \<Rightarrow> byte list" where
  "item_wire i = name_wire (mi_FileName i)
     @ (case mi_FileSize i of None \<Rightarrow> [] | Some s \<Rightarrow> be64 s @ mi_Checksum i)"

definition sent_checksum :: "byte list \<Rightarrow> byte list" where
  "sent_checksum c = (if c = [] then replicate ChecksumSize 0 else c)"

definition joined :: "byte list \<Rightarrow> byte" where
  "joined fs = (if fs = [] then 0 else FileReqFlagResumption)"

fun brft_body :: "BRFTMessage \<Rightarrow> byte list" where
  "brft_body (BFileReq m) = be16 (fq_StreamID m) @ joined (fq_Flags m) # opts_wire (fq_OptHeaders m)
     @ name_wire (fq_FileName m) @ sent_checksum (fq_Checksum m)"
| "brft_body (BFileResp m) = fp_Status m # opts_wire (fp_OptHeaders m) @ be16 (fp_StreamID m)
     @ be64 (fp_FileSize m) @ fp_Checksum m"
| "brft_body (BDataMsg m) = be16 (bd_StreamID m) @ be24 (of_nat (length (bd_Data m))) @ bd_Data m"
| "brft_body (BStart m) = be16 (st_StreamID m) @ st_Checksum m @ be64 (st_Offset m)"
| "brft_body (BCloseMsg m) = be16 (bc_StreamID m) @ [bc_Reason m]"
| "brft_body (BMetaReq m) = name_wire (mq_FileName m)"
| "brft_body (BMetaResp m) = of_nat (length (mr_Items m)) # (if isExtended m then 1 else 0)
     # concat (map item_wire (mr_Items m))"

definition brft_wire :: "BRFTMessage \<Rightarrow> byte list" where
  "brft_wire m = header_byte m # brft_body m"

text \<open>The messages the protocol allows.\<close>

definition item_ok :: "bool \<Rightarrow> MetaItem \<Rightarrow> bool" where
  "item_ok extended i \<longleftrightarrow> mi_FileName i \<noteq> [] \<and> length (mi_FileName i) \<le> 255
     \<and> (if extended then mi_FileSize i \<noteq> None \<and> length (mi_Checksum i) = ChecksumSize
        else mi_FileSize i = None \<and> mi_Checksum i = [])"

fun msg_ok :: "BRFTMessage \<Rightarrow> bool" where
  "msg_ok (BFileReq m) \<longleftrightarrow> opts_ok (fq_OptHeaders m) \<and> set (fq_Flags m) \<subseteq> {FileReqFlagResumption}
     \<and> length (fq_FileName m) \<le> 255 \<and> (fq_Checksum m = [] \<or> length (fq_Checksum m) = ChecksumSize)"
| "msg_ok (BFileResp m) \<longleftrightarrow> opts_ok (fp_OptHeaders m) \<and> length (fp_Checksum m) = ChecksumSize"
| "msg_ok (BDataMsg m) \<longleftrightarrow> length (bd_Data m) < 2 ^ 24"
| "msg_ok (BStart m) \<longleftrightarrow> length (st_Checksum m) = ChecksumSize"
| "msg_ok (BCloseMsg m) \<longleftrightarrow> True"
| "msg_ok (BMetaReq m) \<longleftrightarrow> length (mq_FileName m) \<le> 255"
| "msg_ok (BMetaResp m) \<longleftrightarrow> length (mr_Items m) \<le> 255 \<and> (\<forall>i \<in> set (mr_Items m). item_ok (isExtended m) i)"

text \<open>What the receiver gets: the zero checksum filled in, every flag once.\<close>

fun decoded :: "BRFTMessage \<Rightarrow> BRFTMessage" where
  "decoded (BFileReq m) = BFileReq (m\<lparr>fq_Checksum := sent_checksum (fq_Checksum m),
     fq_Flags := (if fq_Flags m = [] then [] else [FileReqFlagResumption])\<rparr>)"
| "decoded m = m"

section \<open>Encoding produces the wire format\<close>

lemma fold_flags_one: "set fs \<subseteq> {FileReqFlagResumption} \<Longrightarrow> fold (\<lambda>f flags. flags OR f) fs (1 :: byte) = 1"
  by (induction fs) (simp_all add: FileReqFlagResumption_def)

lemma fold_flags: "set fs \<subseteq> {FileReqFlagResumption} \<Longrightarrow> fold (\<lambda>f flags. flags OR f) fs 0 = joined fs"
  using fold_flags_one by (cases fs) (simp_all add: joined_def FileReqFlagResumption_def)

lemma of_nat_less_byte: "n \<le> 255 \<Longrightarrow> unat (of_nat n :: byte) = n"
  by (simp add: unat_of_nat take_bit_nat_eq_self)

context cryptobyte_laws
begin

lemma view_name:
  "length n \<le> 255 \<Longrightarrow> view (AddUint8LengthPrefixed cb b (\<lambda>b. AddBytes cb b n)) = put (name_wire n) (view b)"
  unfolding name_wire_def by (rule view_prefixed) (simp_all add: view_bytes)

lemma view_u64: "view (AddUint64 cb b v) = put (be64 v) (view b)"
  by (simp add: AddUint64_def view_bytes be64_def)

lemma view_builder:
  "view (NewFixedBRFTMessageBuilder cb m) = put [header_byte m] (Some (BRFTHeaderSize + baseSize m, []))"
  "view (NewFixedBRFTMessageBuilderWithExtra cb m n) = put [header_byte m] (Some (BRFTHeaderSize + baseSize m + n, []))"
  by (simp_all add: NewFixedBRFTMessageBuilder_def NewFixedBRFTMessageBuilderWithExtra_def
      writePacketHeader_def Let_def view_new view_u8 header_byte_def del: put.simps)

lemmas brft_view = view_simps view_name view_u64 view_builder

lemma MetaItem_Encode_wire:
  assumes "item_ok e i"
  shows "MetaItem_Encode cb i = Ok (item_wire i)"
proof (cases "mi_FileSize i")
  case None
  with assms have "mi_Checksum i = []" by (auto simp: item_ok_def split: if_splits)
  with None assms show ?thesis
    by (auto simp: MetaItem_Encode_def item_ok_def Let_def brft_view item_wire_def
        intro!: bytes_fits simp del: put.simps) (auto simp: name_wire_def)
next
  case (Some s)
  with assms have "length (mi_Checksum i) = ChecksumSize" by (auto simp: item_ok_def split: if_splits)
  with Some assms show ?thesis
    by (auto simp: MetaItem_Encode_def item_ok_def Let_def brft_view item_wire_def ChecksumSize_def
        intro!: bytes_fits simp del: put.simps) (auto simp: name_wire_def)
qed

lemma encodeItems_wire:
  "\<forall>i \<in> set is. item_ok e i \<Longrightarrow> encodeItems cb bs is = Ok (bs @ concat (map item_wire is))"
  by (induction "is" arbitrary: bs) (simp_all add: MetaItem_Encode_wire [of e])

lemma FileReq_Encode_wire:
  assumes "msg_ok (BFileReq r)" and "length (fq_Checksum r) = ChecksumSize"
  shows "FileReq_Encode cb r = Ok (brft_wire (BFileReq r))"
proof -
  have "fq_Checksum r \<noteq> []" using assms(2) by (auto simp: ChecksumSize_def)
  with assms show ?thesis
    by (auto simp: FileReq_Encode_def Let_def marshalOptionalHeaders_wire fold_flags brft_view brft_wire_def
        sent_checksum_def intro!: bytes_fits simp del: put.simps) (auto simp: name_wire_def BRFTHeaderSize_def)
qed

lemma FileReq_Encode_fills:
  "FileReq_Encode cb r = FileReq_Encode cb (r\<lparr>fq_Checksum := sent_checksum (fq_Checksum r)\<rparr>)"
  by (simp add: FileReq_Encode_def sent_checksum_def ChecksumSize_def)

lemma BEncode_wire:
  assumes "msg_ok m"
  shows "BEncode cb m = Ok (brft_wire m)"
proof (cases m)
  case (BFileReq r)
  let ?r = "r\<lparr>fq_Checksum := sent_checksum (fq_Checksum r)\<rparr>"
  have "msg_ok (BFileReq ?r)" "length (fq_Checksum ?r) = ChecksumSize"
    using assms BFileReq by (auto simp: sent_checksum_def)
  then have "FileReq_Encode cb r = Ok (brft_wire (BFileReq ?r))"
    by (subst FileReq_Encode_fills) (rule FileReq_Encode_wire)
  with BFileReq show ?thesis
    by (simp add: brft_wire_def header_byte_def sent_checksum_def ChecksumSize_def)
next
  case (BFileResp r)
  with assms show ?thesis
    by (auto simp: FileResp_Encode_def Let_def marshalOptionalHeaders_wire brft_view brft_wire_def
        BRFTHeaderSize_def intro!: bytes_fits simp del: put.simps)
next
  case (BDataMsg r)
  then show ?thesis
    by (auto simp: Data_Encode_def Let_def brft_view brft_wire_def BRFTHeaderSize_def
        intro!: bytes_fits simp del: put.simps)
next
  case (BStart r)
  with assms show ?thesis
    by (auto simp: StartTransmission_Encode_def Let_def brft_view brft_wire_def BRFTHeaderSize_def
        intro!: bytes_fits simp del: put.simps)
next
  case (BCloseMsg r)
  then show ?thesis
    by (auto simp: Close_Encode_def Let_def brft_view brft_wire_def BRFTHeaderSize_def
        intro!: bytes_fits simp del: put.simps)
next
  case (BMetaReq r)
  with assms show ?thesis
    by (auto simp: MetaReq_Encode_def Let_def brft_view brft_wire_def brft_sizes
        intro!: bytes_fits simp del: put.simps) (auto simp: name_wire_def)
next
  case (BMetaResp r)
  with assms have "encodeItems cb [] (mr_Items r) = Ok (concat (map item_wire (mr_Items r)))"
    using encodeItems_wire [of "mr_Items r" "isExtended r" "[]"] by simp
  with BMetaResp assms show ?thesis
    by (auto simp: MetaResp_Encode_def Let_def brft_view brft_wire_def BRFTHeaderSize_def
        intro!: bytes_fits simp del: put.simps)
qed

end

section \<open>Reading the wire format from a stream\<close>

lemma header_byte_types:
  "NewPacketHeader (header_byte m) = headerForMessage m"
  by (cases m) (simp_all add: NewPacketHeader_def header_byte_def brft_consts)

lemma splitFlags_joined:
  "splitFlags (joined fs) = (if fs = [] then [] else [FileReqFlagResumption], 0)"
  by (simp add: splitFlags_def joined_def FileReqFlagResumption_def)

context stream_source
begin

lemma parses_name [parsing]:
  "length n \<le> 255 \<Longrightarrow> parses avail (cy_ReadUint8LengthPrefixedBytes rd) (name_wire n) n"
  unfolding name_wire_def by (rule parses_u8_prefixed)

lemmas parses_wrapped = parses_mapErr [OF parses_u8] parses_mapErr [OF parses_u16] parses_mapErr [OF parses_u64]
  parses_mapErr [OF parses_u24] parses_mapErr [OF parses_bytes] parses_mapErr [OF parses_opts] parses_mapErr [OF parses_name]

lemma parses_FileReq:
  assumes "msg_ok (BFileReq m)"
  shows "parses avail (FileReq_Decode rd) (brft_body (BFileReq m)) (m\<lparr>fq_Checksum := sent_checksum (fq_Checksum m),
     fq_Flags := (if fq_Flags m = [] then [] else [FileReqFlagResumption])\<rparr>)"
proof -
  have "length (sent_checksum (fq_Checksum m)) = ChecksumSize"
    using assms by (auto simp: sent_checksum_def)
  with assms show ?thesis
    unfolding FileReq_Decode_def
    by (intro parses_bind_eq [OF parses_wrapped(2)] parses_bind_eq [OF parses_wrapped(1)])
      (auto simp: splitFlags_joined intro!: parses_bind_eq [OF parses_wrapped(6)] parses_bind_eq [OF parses_wrapped(7)]
        parses_bind_eq [OF parses_wrapped(5) parses_return_eq])
qed

lemma parses_FileResp:
  assumes "msg_ok (BFileResp m)"
  shows "parses avail (FileResp_Decode rd) (brft_body (BFileResp m)) m"
proof -
  from assms have "opts_ok (fp_OptHeaders m)" "length (fp_Checksum m) = ChecksumSize" by simp_all
  then show ?thesis
    unfolding FileResp_Decode_def brft_body.simps
    by - (rule parses_bind_Cons [OF parses_wrapped(1)], rule parses_bind [OF parses_wrapped(6)], assumption,
      rule parses_bind [OF parses_wrapped(2)], rule parses_bind [OF parses_wrapped(3)],
      rule parses_last [OF parses_wrapped(5)], (cases m; simp)+)
qed

lemma parses_BData:
  assumes "msg_ok (BDataMsg m)"
  shows "parses avail (Data_Decode rd) (brft_body (BDataMsg m)) m"
proof -
  have n: "unat (of_nat (length (bd_Data m)) :: u32) = length (bd_Data m)"
    using assms by (simp add: unat_of_nat take_bit_nat_eq_self)
  with assms have "unat (of_nat (length (bd_Data m)) :: u32) < 2 ^ 24" by simp
  then show ?thesis
    unfolding Data_Decode_def brft_body.simps
    by - (rule parses_bind [OF parses_wrapped(2)], rule parses_bind [OF parses_wrapped(4)], assumption,
      rule parses_last [OF parses_wrapped(5)], simp add: n, cases m, simp)
qed

lemma parses_StartTransmission:
  assumes "msg_ok (BStart m)"
  shows "parses avail (StartTransmission_Decode rd) (brft_body (BStart m)) m"
proof -
  from assms have "length (st_Checksum m) = ChecksumSize" by simp
  then show ?thesis
    unfolding StartTransmission_Decode_def brft_body.simps
    by - (rule parses_bind [OF parses_wrapped(2)], rule parses_bind [OF parses_wrapped(5)], assumption,
      rule parses_last [OF parses_wrapped(3)], cases m, simp)
qed

lemma parses_BClose: "parses avail (Close_Decode rd) (brft_body (BCloseMsg m)) m"
  unfolding Close_Decode_def brft_body.simps
  by (rule parses_bind [OF parses_wrapped(2)], rule parses_last [OF parses_wrapped(1)], cases m) simp

lemma parses_MetaReq:
  "msg_ok (BMetaReq m) \<Longrightarrow> parses avail (MetaReq_Decode rd) (brft_body (BMetaReq m)) m"
  unfolding MetaReq_Decode_def brft_body.simps
  by (rule parses_last [OF parses_wrapped(7)]) (cases m; simp)+

lemma parses_item:
  assumes "item_ok e i"
  shows "parses avail (MetaItem_Decode rd e) (item_wire i) i"
proof (cases e)
  case True
  with assms obtain s where "mi_FileSize i = Some s" "length (mi_Checksum i) = ChecksumSize"
      "length (mi_FileName i) \<le> 255"
    by (auto simp: item_ok_def)
  with True show ?thesis
    unfolding MetaItem_Decode_def item_wire_def
    by - (rule parses_bind [OF parses_wrapped(7)], assumption, simp,
      rule parses_bind [OF parses_wrapped(3)], rule parses_last [OF parses_wrapped(5)], (cases i; simp)+)
next
  case False
  with assms have "mi_FileSize i = None" "mi_Checksum i = []" "length (mi_FileName i) \<le> 255"
    by (auto simp: item_ok_def)
  with False show ?thesis
    unfolding MetaItem_Decode_def item_wire_def
    by - (rule parses_bind [OF parses_wrapped(7)], assumption, cases i, simp add: parses_return)
qed

lemma parses_items:
  "\<forall>i \<in> set is. item_ok e i \<Longrightarrow> parses avail (decodeItems rd e (length is)) (concat (map item_wire is)) is"
proof (induction "is")
  case (Cons i "is")
  then show ?case
    unfolding list.map concat.simps length_Cons decodeItems.simps
    by (intro parses_bind [OF parses_mapErr [OF parses_item]] parses_bind_eq [OF _ parses_return_eq]) auto
qed (simp add: parses_return)

lemma parses_MetaResp:
  assumes "msg_ok (BMetaResp m)"
  shows "parses avail (MetaResp_Decode rd) (brft_body (BMetaResp m)) m"
proof -
  let ?b = "if isExtended m then 1 else 0 :: byte"
  have b: "(?b mod 2 = 1) = isExtended m" by simp
  have n: "unat (of_nat (length (mr_Items m)) :: byte) = length (mr_Items m)"
    using assms by (simp add: of_nat_less_byte)
  have "parses avail (decodeItems rd (isExtended m) (length (mr_Items m))) (concat (map item_wire (mr_Items m))) (mr_Items m)"
    using assms by (intro parses_items) simp
  then show ?thesis
    unfolding MetaResp_Decode_def brft_body.simps
    by - (rule parses_bind_Cons [OF parses_wrapped(1)], rule parses_bind_Cons [OF parses_wrapped(1)],
      simp only: b n Let_def, rule parses_last, assumption, cases m, simp)
qed

lemma parses_decodeAs:
  assumes "msg_ok m"
  shows "parses avail (decodeAs rd (BMessageType (headerForMessage m))) (brft_body m) (decoded m)"
  using assms
  by (cases m) (auto simp: decodeAs_def brft_types simp del: brft_body.simps msg_ok.simps
      intro!: parses_bind_eq [OF parses_mapErr parses_return_eq] parses_FileReq parses_FileResp parses_BData
        parses_StartTransmission parses_BClose parses_MetaReq parses_MetaResp)

lemma parses_readMsg:
  assumes "msg_ok m"
  shows "parses avail (readMsg rd) (brft_wire m) (decoded m, headerForMessage m)"
proof -
  have "parses avail (\<lambda>r. rd r 1) [header_byte m] [header_byte m]"
    unfolding parses_def
  proof (intro allI impI)
    fix r rest assume "avail r = [header_byte m] @ rest"
    with read_pos [of 1 r] show "\<exists>r'. rd r 1 = (Ok [header_byte m], r') \<and> avail r' = rest" by simp
  qed
  then have "parses avail (readHeader rd) [header_byte m] (headerForMessage m)"
    unfolding readHeader_def
    by (rule parses_bind_eq) (auto simp: header_byte_types intro: parses_return_eq)
  then show ?thesis
    unfolding readMsg_def brft_wire_def
    by (rule parses_bind_eq) (auto intro!: parses_bind_eq [OF parses_decodeAs [OF assms] parses_return_eq])
qed

end

section \<open>Splitting the metadata of many files\<close>

lemma splitItems_items: "concat (map mr_Items (splitItems is)) = is"
  by (induction "is" rule: splitItems.induct) (subst splitItems.simps, simp)

lemma splitItems_sizes:
  "\<exists>rs r. splitItems is = rs @ [r] \<and> (\<forall>x \<in> set rs. length (mr_Items x) = MaxMetaItemsNum)
    \<and> length (mr_Items r) < MaxMetaItemsNum \<and> (\<forall>x \<in> set (splitItems is). \<not> isExtended x)"
proof (induction "is" rule: splitItems.induct)
  case (1 "is")
  show ?case
  proof (cases "length is \<ge> MaxMetaItemsNum")
    case True
    let ?x = "\<lparr>mr_Items = take MaxMetaItemsNum is, isExtended = False\<rparr>"
    from 1 [OF True] obtain rs r where "splitItems (drop MaxMetaItemsNum is) = rs @ [r]"
      "\<forall>x \<in> set rs. length (mr_Items x) = MaxMetaItemsNum" "length (mr_Items r) < MaxMetaItemsNum"
      "\<forall>x \<in> set (splitItems (drop MaxMetaItemsNum is)). \<not> isExtended x" by blast
    with True show ?thesis
      by (intro exI [of _ "?x # rs"] exI [of _ r]) (simp add: splitItems.simps [of "is"])
  qed (simp add: splitItems.simps [of "is"])
qed

text \<open>
  The client's side (client.go, the loop of \<open>ListFileMetaData\<close>): it takes responses up to the
  first that has fewer items than the maximum; \<open>None\<close> while it still waits.
\<close>

fun collectResps :: "MetaResp list \<Rightarrow> MetaResp list option" where
  "collectResps [] = None"
| "collectResps (r # rs) =
     (if length (mr_Items r) < MaxMetaItemsNum then Some [r]
      else map_option (\<lambda>resps. r # resps) (collectResps rs))"

lemma collectResps_full:
  "\<forall>x \<in> set rs. length (mr_Items x) = MaxMetaItemsNum \<Longrightarrow> length (mr_Items r) < MaxMetaItemsNum \<Longrightarrow>
     collectResps (rs @ r # later) = Some (rs @ [r])"
  by (induction rs) simp_all

lemma NewMetaResps_cases:
  "NewMetaResps chkNil is = splitItems is \<or> length is = 1 \<and> NewMetaResps chkNil is = [\<lparr>mr_Items = is, isExtended = True\<rparr>]"
  by (auto simp: NewMetaResps_def)

lemma collect_NewMetaResps: "collectResps (NewMetaResps chkNil is @ later) = Some (NewMetaResps chkNil is)"
  using NewMetaResps_cases [of chkNil "is"]
proof
  assume s: "NewMetaResps chkNil is = splitItems is"
  obtain rs r where "splitItems is = rs @ [r]" "\<forall>x \<in> set rs. length (mr_Items x) = MaxMetaItemsNum"
    "length (mr_Items r) < MaxMetaItemsNum" using splitItems_sizes by blast
  with s collectResps_full [of rs r later] show ?thesis by simp
qed (simp add: MaxMetaItemsNum_def)

lemma NewMetaResps_items: "concat (map mr_Items (NewMetaResps chkNil is)) = is"
  using NewMetaResps_cases [of chkNil "is"] splitItems_items [of "is"] by auto

end
