(* ===== verification/Brft_File.thy ===== *)
theory Brft_File
  imports Brft_Messages
begin

text \<open>
  brft/file.go and brft/common/file.go: the files of the server and of the client, on a model of
  the calls of package os they use. A file that is being downloaded starts with a signature and
  the checksum of the complete file, which are stripped when it is complete. The lemmas cover
  the round trip of that header, the names the server opens, and what a faulty system can do.
\<close>

section \<open>The file system\<close>

text \<open>
  The files of one base directory: names lead to inodes, descriptors to an inode and a
  position. Every call of the system is numbered; \<open>fs_fault\<close> says which calls fail, with what
  error and after how many bytes.
\<close>

record FS =
  fs_dir :: "gostring \<rightharpoonup> nat"
  fs_data :: "nat \<Rightarrow> byte list"
  fs_fds :: "nat \<rightharpoonup> nat \<times> nat"
  fs_next :: nat
  fs_fault :: "nat \<Rightarrow> (go_error \<times> nat) option"
  fs_calls :: nat

definition sysM :: "(FS, 'a) parser \<Rightarrow> (nat \<Rightarrow> (FS, unit) parser) \<Rightarrow> (FS, 'a) parser" where
  "sysM m partly = (\<lambda>fs. let fs' = fs\<lparr>fs_calls := fs_calls fs + 1\<rparr> in
     case fs_fault fs (fs_calls fs) of
       None \<Rightarrow> m fs'
     | Some (e, k) \<Rightarrow> (Err e, snd (partly k fs')))"

abbreviation nothing :: "nat \<Rightarrow> (FS, unit) parser" where
  "nothing \<equiv> (\<lambda>_. returnM ())"

definition fdM :: "nat \<Rightarrow> (nat \<Rightarrow> nat \<Rightarrow> (FS, 'a) parser) \<Rightarrow> (FS, 'a) parser" where
  "fdM f body = (\<lambda>fs. case fs_fds fs f of None \<Rightarrow> (Err ErrClosed, fs) | Some (i, p) \<Rightarrow> body i p fs)"

definition seekTo :: "nat \<Rightarrow> nat \<Rightarrow> FS \<Rightarrow> FS" where
  "seekTo f p fs = fs\<lparr>fs_fds := (fs_fds fs)(f \<mapsto> (fst (the (fs_fds fs f)), p))\<rparr>"

definition put_bytes :: "byte list \<Rightarrow> nat \<Rightarrow> byte list \<Rightarrow> byte list" where
  "put_bytes d p bs =
     (if bs = [] then d else take p d @ replicate (p - length d) 0 @ bs @ drop (p + length bs) d)"

definition writeAt :: "nat \<Rightarrow> byte list \<Rightarrow> (FS, nat) parser" where
  "writeAt f bs = fdM f (\<lambda>i p fs. (Ok (length bs),
     seekTo f (p + length bs) (fs\<lparr>fs_data := (fs_data fs)(i := put_bytes (fs_data fs i) p bs)\<rparr>)))"

definition readAt :: "nat \<Rightarrow> nat \<Rightarrow> (FS, byte list) parser" where
  "readAt f n = fdM f (\<lambda>i p fs. let d = fs_data fs i in
     (Ok (take n (drop p d)), seekTo f (p + min n (length d - p)) fs))"

definition forget :: "(FS, 'a) parser \<Rightarrow> (FS, unit) parser" where
  "forget m = bindM m (\<lambda>_. returnM ())"

section \<open>Calls of package os\<close>

definition os_MkdirAll :: "(FS, unit) parser" where
  "os_MkdirAll = sysM (returnM ()) nothing"

definition os_Stat :: "gostring \<Rightarrow> (FS, nat) parser" where
  "os_Stat name = sysM (\<lambda>fs. case fs_dir fs name of
     None \<Rightarrow> (Err ErrNotExist, fs) | Some i \<Rightarrow> (Ok (length (fs_data fs i)), fs)) nothing"

definition os_Open :: "gostring \<Rightarrow> bool \<Rightarrow> (FS, nat) parser" where
  "os_Open name create = sysM (\<lambda>fs. let n = fs_next fs in
     case fs_dir fs name of
       Some i \<Rightarrow> (Ok n, fs\<lparr>fs_fds := (fs_fds fs)(n \<mapsto> (i, 0)), fs_next := n + 1\<rparr>)
     | None \<Rightarrow> if create
         then (Ok n, fs\<lparr>fs_dir := (fs_dir fs)(name \<mapsto> n), fs_data := (fs_data fs)(n := []),
                fs_fds := (fs_fds fs)(n \<mapsto> (n, 0)), fs_next := n + 1\<rparr>)
         else (Err ErrNotExist, fs)) nothing"

text \<open>\<open>CreateTemp\<close> picks a name; it fails when it cannot find a new one.\<close>

definition os_CreateTemp :: "gostring \<Rightarrow> (FS, nat) parser" where
  "os_CreateTemp tmp = (\<lambda>fs. if fs_dir fs tmp = None then os_Open tmp True fs
     else (Err (New ''file exists''), fs))"

definition os_Read :: "nat \<Rightarrow> nat \<Rightarrow> (FS, byte list) parser" where
  "os_Read f n = sysM (bindM (readAt f n) (\<lambda>bs.
     if bs = [] \<and> n > 0 then failM EOF else returnM bs)) nothing"

definition os_Write :: "nat \<Rightarrow> byte list \<Rightarrow> (FS, nat) parser" where
  "os_Write f bs = sysM (writeAt f bs) (\<lambda>k. forget (writeAt f (take k bs)))"

definition os_SeekStart :: "nat \<Rightarrow> int \<Rightarrow> (FS, nat) parser" where
  "os_SeekStart f off = sysM (fdM f (\<lambda>i p fs. if off < 0 then (Err (New ''invalid argument''), fs)
     else (Ok (nat off), seekTo f (nat off) fs))) nothing"

definition os_SeekCurrent :: "nat \<Rightarrow> (FS, nat) parser" where
  "os_SeekCurrent f = sysM (fdM f (\<lambda>i p fs. (Ok p, fs))) nothing"

definition os_SeekEnd :: "nat \<Rightarrow> (FS, nat) parser" where
  "os_SeekEnd f = sysM (fdM f (\<lambda>i p fs. let n = length (fs_data fs i) in (Ok n, seekTo f n fs))) nothing"

definition os_Fstat :: "nat \<Rightarrow> (FS, nat) parser" where
  "os_Fstat f = sysM (fdM f (\<lambda>i p fs. (Ok (length (fs_data fs i)), fs))) nothing"

definition os_Close :: "nat \<Rightarrow> (FS, unit) parser" where
  "os_Close f = sysM (fdM f (\<lambda>i p fs. (Ok (), fs\<lparr>fs_fds := (fs_fds fs)(f := None)\<rparr>))) nothing"

definition os_Remove :: "gostring \<Rightarrow> (FS, unit) parser" where
  "os_Remove name = sysM (\<lambda>fs. case fs_dir fs name of None \<Rightarrow> (Err ErrNotExist, fs)
     | Some i \<Rightarrow> (Ok (), fs\<lparr>fs_dir := (fs_dir fs)(name := None)\<rparr>)) nothing"

definition os_Rename :: "gostring \<Rightarrow> gostring \<Rightarrow> (FS, unit) parser" where
  "os_Rename old new = sysM (\<lambda>fs. case fs_dir fs old of None \<Rightarrow> (Err ErrNotExist, fs)
     | Some i \<Rightarrow> (Ok (), fs\<lparr>fs_dir := (fs_dir fs)(old := None, new \<mapsto> i)\<rparr>)) nothing"

text \<open>\<open>io.Copy\<close> into a hash, and into another file.\<close>

definition io_ReadAll :: "nat \<Rightarrow> (FS, byte list) parser" where
  "io_ReadAll f = sysM (fdM f (\<lambda>i p fs. readAt f (length (fs_data fs i) - p) fs)) (\<lambda>k. forget (readAt f k))"

definition io_Copy :: "nat \<Rightarrow> nat \<Rightarrow> (FS, nat) parser" where
  "io_Copy dst src = sysM (bindM (fdM src (\<lambda>i p fs. readAt src (length (fs_data fs i) - p) fs)) (writeAt dst))
     (\<lambda>k. forget (bindM (readAt src k) (writeAt dst)))"

lemmas os_defs = os_MkdirAll_def os_Stat_def os_Open_def os_CreateTemp_def os_Read_def os_Write_def
  os_SeekStart_def os_SeekCurrent_def os_SeekEnd_def os_Fstat_def os_Close_def os_Remove_def
  os_Rename_def io_ReadAll_def io_Copy_def

lemmas fs_defs = sysM_def fdM_def seekTo_def writeAt_def readAt_def forget_def

section \<open>Files\<close>

definition fileSignature :: "byte list" where
  "fileSignature = [42, 52, 46, 54, 31]"

record File =
  f_fd :: nat
  f_stat :: nat
  isClientFile :: bool
  f_name :: gostring
  f_checksum :: "byte list"

text \<open>The hash function is an argument.\<close>

definition ComputeChecksum :: "(byte list \<Rightarrow> byte list) \<Rightarrow> nat \<Rightarrow> (FS, byte list) parser" where
  "ComputeChecksum sha f = bindM (io_ReadAll f) (\<lambda>d. returnM (sha d))"

text \<open>The regular expression \<open>^([\w]|-|_)+([\.]([\w])+)?$\<close>.\<close>

definition wordChar :: "byte \<Rightarrow> bool" where
  "wordChar c \<longleftrightarrow> 0x30 \<le> c \<and> c \<le> 0x39 \<or> 0x41 \<le> c \<and> c \<le> 0x5A \<or> c = 0x5F \<or> 0x61 \<le> c \<and> c \<le> 0x7A"

definition nameChar :: "byte \<Rightarrow> bool" where
  "nameChar c \<longleftrightarrow> wordChar c \<or> c = 0x2D \<or> c = 0x5F"

definition fileRegex :: "gostring \<Rightarrow> bool" where
  "fileRegex name = (let stem = takeWhile nameChar name; ext = dropWhile nameChar name in
     stem \<noteq> [] \<and> (case ext of [] \<Rightarrow> True | c # rest \<Rightarrow> c = 0x2E \<and> rest \<noteq> [] \<and> list_all wordChar rest))"

definition readChecksum :: "nat \<Rightarrow> (FS, byte list) parser" where
  "readChecksum f =
     bindM (os_Read f (length fileSignature)) (\<lambda>sig.
       if length sig \<noteq> length fileSignature then failM ErrInsufficientRead
       else if sig \<noteq> fileSignature then failM ErrNotABRFTFile
       else bindM (os_Read f ChecksumSize) (\<lambda>checksum.
         if length checksum \<noteq> ChecksumSize then failM ErrInsufficientRead
         else returnM checksum))"

definition writeChecksum :: "nat \<Rightarrow> byte list \<Rightarrow> (FS, unit) parser" where
  "writeChecksum f checksum =
     (if length checksum \<noteq> ChecksumSize then failM ErrInvalidChecksum
      else bindM (os_Write f fileSignature) (\<lambda>n.
        if n \<noteq> length fileSignature then failM ErrInsufficientWrite
        else bindM (os_Write f checksum) (\<lambda>n.
          if n \<noteq> length checksum then failM ErrInsufficientWrite else returnM ())))"

text \<open>\<open>errors.Is(err, os.ErrNotExist)\<close>.\<close>

fun isNotExist :: "go_error \<Rightarrow> bool" where
  "isNotExist ErrNotExist = True"
| "isNotExist (Errorf m (Some e)) = isNotExist e"
| "isNotExist _ = False"

definition newFileAt :: "nat \<Rightarrow> gostring \<Rightarrow> byte list \<Rightarrow> (FS, File) parser" where
  "newFileAt f name checksum =
     bindM (mapErrM (\<lambda>e. Errorf ''cannot get file stats'' (Some e)) (os_Fstat f)) (\<lambda>n.
     returnM \<lparr>f_fd = f, f_stat = n, isClientFile = True, f_name = name, f_checksum = checksum\<rparr>)"

text \<open>A nil checksum is \<open>None\<close>.\<close>

definition NewFile :: "gostring \<Rightarrow> byte list option \<Rightarrow> (FS, File) parser" where
  "NewFile name checksum =
     thenM (mapErrM (\<lambda>e. Errorf ''unable to create base directory'' (Some e)) os_MkdirAll)
     (bindM (tryM (os_Stat name)) (\<lambda>st. case st of
       Inr e \<Rightarrow> if isNotExist e
         then (case checksum of None \<Rightarrow> failM e
           | Some cs \<Rightarrow> bindM (os_Open name True) (\<lambda>f.
               thenM (mapErrM (\<lambda>e. Errorf ''unable to write checksum'' (Some e)) (writeChecksum f cs))
                 (newFileAt f name cs)))
         else failM e
     | Inl _ \<Rightarrow> bindM (os_Open name False) (\<lambda>f.
         bindM (mapErrM (\<lambda>_. ErrInvalidChecksum) (readChecksum f)) (\<lambda>cs.
         thenM (ignoreM (os_SeekEnd f)) (newFileAt f name cs)))))"

definition OpenFile :: "(byte list \<Rightarrow> byte list) \<Rightarrow> gostring \<Rightarrow> (FS, File) parser" where
  "OpenFile sha name =
     (if \<not> fileRegex name then failM (New ''filename fails BRFT regex check'')
      else bindM (os_Stat name) (\<lambda>_.
        bindM (os_Open name False) (\<lambda>f.
        bindM (mapErrM (\<lambda>e. Errorf ''unable to compute checksum'' (Some e)) (ComputeChecksum sha f)) (\<lambda>checksum.
        bindM (mapErrM (\<lambda>e. Errorf ''cannot reset file descriptor'' (Some e)) (os_SeekStart f 0)) (\<lambda>_.
        bindM (mapErrM (\<lambda>e. Errorf ''cannot get file stats'' (Some e)) (os_Fstat f)) (\<lambda>n.
        returnM \<lparr>f_fd = f, f_stat = n, isClientFile = False, f_name = name, f_checksum = checksum\<rparr>))))))"

text \<open>The receivers of \<open>Close\<close> and \<open>Remove\<close> may be nil.\<close>

definition File_Close :: "File option \<Rightarrow> (FS, unit) parser" where
  "File_Close f = (case f of None \<Rightarrow> returnM () | Some f \<Rightarrow> os_Close (f_fd f))"

definition File_Remove :: "File option \<Rightarrow> (FS, unit) parser" where
  "File_Remove f = (case f of None \<Rightarrow> returnM ()
     | Some f \<Rightarrow> thenM (mapErrM (\<lambda>e. New ''unable to close fd'') (os_Close (f_fd f))) (os_Remove (f_name f)))"

definition File_Read :: "File \<Rightarrow> nat \<Rightarrow> (FS, byte list) parser" where
  "File_Read f n = os_Read (f_fd f) n"

definition File_Write :: "File \<Rightarrow> byte list \<Rightarrow> (FS, nat) parser" where
  "File_Write f b = os_Write (f_fd f) b"

text \<open>\<open>Size\<close> also updates \<open>stat\<close>; it returns the file after that.\<close>

definition File_Size :: "File \<Rightarrow> (FS, u64 \<times> File) parser" where
  "File_Size f =
     bindM (if isClientFile f then tryM (os_Fstat (f_fd f)) else returnM (Inl (f_stat f))) (\<lambda>st.
       (let f = (case st of Inl n \<Rightarrow> f\<lparr>f_stat := n\<rparr> | Inr e \<Rightarrow> f);
            s = of_nat (f_stat f) :: u64
        in returnM (if isClientFile f then s - of_nat (length fileSignature + ChecksumSize) else s, f)))"

text \<open>The offset within a client file is computed but not used.\<close>

definition SeekOffset :: "File \<Rightarrow> u64 \<Rightarrow> (FS, unit) parser" where
  "SeekOffset f off = bindM (File_Size f) (\<lambda>(size, f).
     if off > size then failM (New ''invalid offset: offset is larger then payload'')
     else bindM (os_SeekStart (f_fd f) (sint off)) (\<lambda>_. returnM ()))"

definition CheckChecksum :: "(byte list \<Rightarrow> byte list) \<Rightarrow> File \<Rightarrow> (FS, bool) parser" where
  "CheckChecksum sha f =
     (if \<not> isClientFile f then failM ErrNoClientFile
      else bindM (os_SeekCurrent (f_fd f)) (\<lambda>prevOffset.
        bindM (tryM (bindM (os_SeekStart (f_fd f) (int (length fileSignature + ChecksumSize))) (\<lambda>_.
          bindM (ComputeChecksum sha (f_fd f)) (\<lambda>checksum. returnM (checksum = f_checksum f))))) (\<lambda>res.
        thenM (ignoreM (os_SeekStart (f_fd f) (int prevOffset)))
          (case res of Inl b \<Rightarrow> returnM b | Inr e \<Rightarrow> failM e))))"

text \<open>\<open>tmp\<close> is the name \<open>CreateTemp\<close> picks.\<close>

definition StripChecksum :: "gostring \<Rightarrow> File \<Rightarrow> (FS, unit) parser" where
  "StripChecksum tmp f =
     (if \<not> isClientFile f then failM ErrNoClientFile
      else bindM (os_SeekStart (f_fd f) 0) (\<lambda>_.
        bindM (readChecksum (f_fd f)) (\<lambda>_.
        bindM (os_CreateTemp tmp) (\<lambda>tmpFile.
        bindM (tryM (bindM (io_Copy tmpFile (f_fd f)) (\<lambda>_. os_Rename tmp (f_name f)))) (\<lambda>res.
        thenM (ignoreM (os_Close tmpFile))
          (case res of Inl _ \<Rightarrow> returnM () | Inr e \<Rightarrow> failM e))))))"

section \<open>A system without faults\<close>

abbreviation healthy :: "FS \<Rightarrow> bool" where
  "healthy fs \<equiv> fs_fault fs = (\<lambda>_. None)"

lemma sysM_healthy [simp]:
  "healthy fs \<Longrightarrow> sysM m partly fs = m (fs\<lparr>fs_calls := fs_calls fs + 1\<rparr>)"
  by (simp add: sysM_def)

lemma fdM_open [simp]: "fs_fds fs f = Some (i, p) \<Longrightarrow> fdM f body fs = body i p fs"
  by (simp add: fdM_def)

abbreviation headerSize :: nat where
  "headerSize \<equiv> length fileSignature + ChecksumSize"

lemma header_sizes [simp]: "length fileSignature = 5" "ChecksumSize = 32" "fileSignature \<noteq> []"
  by (simp_all add: fileSignature_def ChecksumSize_def)

lemma put_bytes_end [simp]: "length d = p \<Longrightarrow> put_bytes d p bs = d @ bs"
  by (simp add: put_bytes_def)

text \<open>A pending file: the signature, the checksum of the complete file, and what has arrived.\<close>

definition pending :: "byte list \<Rightarrow> byte list \<Rightarrow> byte list" where
  "pending cs d = fileSignature @ cs @ d"

lemma length_pending [simp]: "length cs = ChecksumSize \<Longrightarrow> length (pending cs d) = 37 + length d"
  by (simp add: pending_def)

lemma readChecksum_pending:
  assumes "healthy fs" and "fs_fds fs f = Some (i, 0)" and "fs_data fs i = pending cs d"
    and "length cs = ChecksumSize"
  shows "readChecksum f fs = (Ok cs, fs\<lparr>fs_fds := (fs_fds fs)(f \<mapsto> (i, 37)), fs_calls := fs_calls fs + 2\<rparr>)"
  using assms
  by (cases "cs = []") (simp_all add: readChecksum_def os_Read_def bindM_def readAt_def seekTo_def returnM_def pending_def Let_def)

lemma writeChecksum_new:
  assumes "healthy fs" and "fs_fds fs f = Some (i, 0)" and "fs_data fs i = []" and "length cs = ChecksumSize"
  shows "writeChecksum f cs fs = (Ok (), fs\<lparr>fs_data := (fs_data fs)(i := pending cs []),
     fs_fds := (fs_fds fs)(f \<mapsto> (i, 37)), fs_calls := fs_calls fs + 2\<rparr>)"
  using assms
  by (simp add: writeChecksum_def os_Write_def bindM_def writeAt_def seekTo_def returnM_def pending_def Let_def)
lemma NewFile_new:
  assumes "healthy fs" and "fs_dir fs name = None" and "length cs = ChecksumSize"
  shows "NewFile name (Some cs) fs =
    (Ok \<lparr>f_fd = fs_next fs, f_stat = 37, isClientFile = True, f_name = name, f_checksum = cs\<rparr>,
     fs\<lparr>fs_dir := (fs_dir fs)(name \<mapsto> fs_next fs), fs_data := (fs_data fs)(fs_next fs := pending cs []),
       fs_fds := (fs_fds fs)(fs_next fs \<mapsto> (fs_next fs, 37)), fs_next := fs_next fs + 1,
       fs_calls := fs_calls fs + 6\<rparr>)"
  using assms
  by (simp add: NewFile_def os_MkdirAll_def os_Stat_def os_Open_def bindM_def mapErrM_def returnM_def tryM_def
      writeChecksum_new newFileAt_def os_Fstat_def Let_def)

lemma NewFile_missing:
  "healthy fs \<Longrightarrow> fs_dir fs name = None \<Longrightarrow>
    NewFile name None fs = (Err ErrNotExist, fs\<lparr>fs_calls := fs_calls fs + 2\<rparr>)"
  by (simp add: NewFile_def os_MkdirAll_def os_Stat_def bindM_def mapErrM_def returnM_def tryM_def failM_def)

lemma NewFile_pending:
  assumes "healthy fs" and "fs_dir fs name = Some i" and "fs_data fs i = pending cs d" and "length cs = ChecksumSize"
  shows "NewFile name checksum fs =
    (Ok \<lparr>f_fd = fs_next fs, f_stat = 37 + length d, isClientFile = True, f_name = name, f_checksum = cs\<rparr>,
     fs\<lparr>fs_fds := (fs_fds fs)(fs_next fs \<mapsto> (i, 37 + length d)), fs_next := fs_next fs + 1,
       fs_calls := fs_calls fs + 7\<rparr>)"
  using assms
  by (simp add: NewFile_def os_MkdirAll_def os_Stat_def os_Open_def bindM_def mapErrM_def returnM_def tryM_def
      readChecksum_pending newFileAt_def os_Fstat_def Let_def ignoreM_def os_SeekEnd_def seekTo_def)

lemma NewFile_foreign:
  assumes "healthy fs" and "fs_dir fs name = Some i" and "take 5 (fs_data fs i) \<noteq> fileSignature"
  shows "\<exists>fs'. NewFile name checksum fs = (Err ErrInvalidChecksum, fs') \<and> fs_dir fs' = fs_dir fs \<and> fs_data fs' = fs_data fs"
  using assms
  by (simp add: NewFile_def os_MkdirAll_def os_Stat_def os_Open_def bindM_def mapErrM_def returnM_def tryM_def
      readChecksum_def os_Read_def readAt_def seekTo_def failM_def Let_def)

lemma File_Size_client:
  assumes "healthy fs" and "fs_fds fs (f_fd f) = Some (i, p)" and "isClientFile f"
  shows "File_Size f fs = (Ok (of_nat (length (fs_data fs i)) - 37, f\<lparr>f_stat := length (fs_data fs i)\<rparr>),
    fs\<lparr>fs_calls := fs_calls fs + 1\<rparr>)"
  using assms
  by (simp add: File_Size_def os_Fstat_def tryM_def bindM_def returnM_def Let_def)

lemma File_Size_server: "\<not> isClientFile f \<Longrightarrow> File_Size f fs = (Ok (of_nat (f_stat f), f), fs)"
  by (simp add: File_Size_def bindM_def returnM_def Let_def)

lemma SeekOffset_server:
  assumes "healthy fs" and "fs_fds fs (f_fd f) = Some (i, p)" and "\<not> isClientFile f"
    and "off \<le> of_nat (f_stat f)" and "unat off < 2 ^ 63"
  shows "SeekOffset f off fs = (Ok (), fs\<lparr>fs_fds := (fs_fds fs)(f_fd f \<mapsto> (i, unat off)), fs_calls := fs_calls fs + 1\<rparr>)"
proof -
  have "uint off < 2 ^ 63" using assms(5) by (metis of_nat_less_iff of_nat_numeral of_nat_power uint_nat)
  then have "sint off = uint off"
    by (simp add: sint_uint signed_take_bit_int_eq_self_iff order_trans [OF _ uint_ge_0])
  then have "\<not> sint off < 0" "nat (sint off) = unat off" by simp_all
  moreover have "\<not> of_nat (f_stat f) < off" using assms(4) by simp
  ultimately show ?thesis
    using assms by (simp add: SeekOffset_def File_Size_server bindM_def returnM_def os_SeekStart_def seekTo_def)
qed

lemma OpenFile_ok:
  assumes "healthy fs" and "fileRegex name" and "fs_dir fs name = Some i"
  shows "OpenFile sha name fs =
    (Ok \<lparr>f_fd = fs_next fs, f_stat = length (fs_data fs i), isClientFile = False, f_name = name,
       f_checksum = sha (fs_data fs i)\<rparr>,
     fs\<lparr>fs_fds := (fs_fds fs)(fs_next fs \<mapsto> (i, 0)), fs_next := fs_next fs + 1, fs_calls := fs_calls fs + 5\<rparr>)"
  using assms
  by (simp add: OpenFile_def os_Stat_def os_Open_def bindM_def mapErrM_def returnM_def ComputeChecksum_def
      io_ReadAll_def readAt_def os_SeekStart_def os_Fstat_def seekTo_def Let_def)

lemma CheckChecksum_ok:
  assumes "healthy fs" and "fs_fds fs (f_fd f) = Some (i, p)" and "isClientFile f"
    and "fs_data fs i = pending cs d" and "length cs = ChecksumSize"
  shows "CheckChecksum sha f fs = (Ok (sha d = f_checksum f), fs\<lparr>fs_calls := fs_calls fs + 4\<rparr>)"
proof -
  have "drop 37 (pending cs d) = d" using assms(5) by (simp add: pending_def)
  moreover have "(fs_fds fs)(f_fd f \<mapsto> (i, p)) = fs_fds fs" using assms(2) by auto
  ultimately show ?thesis
    using assms
    by (simp add: CheckChecksum_def os_SeekCurrent_def os_SeekStart_def bindM_def tryM_def ComputeChecksum_def
        io_ReadAll_def readAt_def seekTo_def returnM_def ignoreM_def Let_def)
qed

lemma StripChecksum_ok:
  assumes "healthy fs" and "fs_fds fs (f_fd f) = Some (i, p)" and "isClientFile f"
    and "fs_data fs i = pending cs d" and "length cs = ChecksumSize"
    and "fs_dir fs tmp = None" and "tmp \<noteq> f_name f" and "f_fd f < fs_next fs" and "i < fs_next fs"
  shows "\<exists>fs'. StripChecksum tmp f fs = (Ok (), fs')
    \<and> fs_dir fs' = (fs_dir fs)(f_name f \<mapsto> fs_next fs) \<and> fs_data fs' = (fs_data fs)(fs_next fs := d)
    \<and> fs_fds fs' (f_fd f) \<noteq> None \<and> healthy fs'"
proof -
  have rc: "readChecksum (f_fd f) s = (Ok cs, s\<lparr>fs_fds := (fs_fds s)(f_fd f \<mapsto> (i, 37)), fs_calls := fs_calls s + 2\<rparr>)"
    if "healthy s" "fs_fds s (f_fd f) = Some (i, 0)" "fs_data s i = pending cs d" for s
    using readChecksum_pending [OF that assms(5)] .
  have "drop 37 (pending cs d) = d" using assms(5) by (simp add: pending_def)
  moreover have "(fs_dir fs)(tmp := None) = fs_dir fs" using assms(6) by auto
  ultimately show ?thesis
    using assms
    by (simp add: StripChecksum_def os_SeekStart_def bindM_def rc seekTo_def os_CreateTemp_def os_Open_def Let_def
        tryM_def io_Copy_def readAt_def writeAt_def os_Rename_def ignoreM_def os_Close_def returnM_def fun_upd_twist)
qed

section \<open>Any faults\<close>

text \<open>The content of a file by its name.\<close>

definition stored :: "FS \<Rightarrow> gostring \<Rightarrow> byte list option" where
  "stored fs name = map_option (fs_data fs) (fs_dir fs name)"

text \<open>
  What the names and inodes hold, how far numbers are used, and where a descriptor points.
\<close>

definition opened :: "(gostring \<rightharpoonup> nat) \<Rightarrow> (nat \<Rightarrow> byte list) \<Rightarrow> nat \<Rightarrow> nat \<Rightarrow> nat \<Rightarrow> (nat \<Rightarrow> bool) \<Rightarrow> FS \<Rightarrow> bool" where
  "opened D d N f i at fs \<longleftrightarrow> fs_dir fs = D \<and> fs_data fs = d \<and> fs_next fs = N
     \<and> (\<exists>p. fs_fds fs f = Some (i, p) \<and> at p)"

abbreviation anywhere :: "nat \<Rightarrow> bool" where
  "anywhere \<equiv> (\<lambda>_. True)"

lemma opened_weaken: "opened D d N f i at fs \<Longrightarrow> (\<And>p. at p \<Longrightarrow> at' p) \<Longrightarrow> opened D d N f i at' fs"
  by (auto simp: opened_def)

lemma guards_SeekStart:
  "guards (opened D d N f i at) (os_SeekStart f off) (\<lambda>_. opened D d N f i (\<lambda>p. p = nat off)) (opened D d N f i anywhere)"
  by (auto simp: guards_def os_SeekStart_def fs_defs opened_def returnM_def Let_def split: option.splits if_splits)

lemma guards_SeekCurrent:
  "guards (opened D d N f i at) (os_SeekCurrent f) (\<lambda>_. opened D d N f i at) (opened D d N f i anywhere)"
  by (auto simp: guards_def os_SeekCurrent_def fs_defs opened_def returnM_def Let_def split: option.splits)

lemma guards_SeekEnd:
  "guards (opened D d N f i at) (os_SeekEnd f) (\<lambda>_. opened D d N f i anywhere) (opened D d N f i anywhere)"
  by (auto simp: guards_def os_SeekEnd_def fs_defs opened_def returnM_def Let_def split: option.splits)

lemma guards_Fstat:
  "guards (opened D d N f i at) (os_Fstat f) (\<lambda>n s. opened D d N f i at s \<and> n = length (d i)) (opened D d N f i anywhere)"
  by (auto simp: guards_def os_Fstat_def fs_defs opened_def returnM_def Let_def split: option.splits)

lemma guards_Read:
  "guards (opened D d N f i (\<lambda>p. p = q)) (os_Read f n)
     (\<lambda>bs s. opened D d N f i (\<lambda>p. p = q + length bs) s \<and> bs = take n (drop q (d i))) (opened D d N f i anywhere)"
  by (auto simp: guards_def os_Read_def fs_defs opened_def returnM_def failM_def bindM_def Let_def split: option.splits if_splits)

lemma guards_ReadAll:
  "guards (opened D d N f i (\<lambda>p. p = q)) (io_ReadAll f)
     (\<lambda>bs s. opened D d N f i anywhere s \<and> bs = drop q (d i)) (opened D d N f i anywhere)"
  by (auto simp: guards_def io_ReadAll_def fs_defs opened_def returnM_def bindM_def Let_def split: option.splits)

lemma guards_ComputeChecksum:
  "guards (opened D d N f i (\<lambda>p. p = q)) (ComputeChecksum sha f)
     (\<lambda>cs s. opened D d N f i anywhere s \<and> cs = sha (drop q (d i))) (opened D d N f i anywhere)"
  unfolding ComputeChecksum_def by (rule guards_bind [OF guards_ReadAll]) (rule guards_return, simp)

lemma guards_readChecksum:
  "guards (opened D d N f i (\<lambda>p. p = 0)) (readChecksum f)
     (\<lambda>cs s. opened D d N f i (\<lambda>p. p = 37) s \<and> cs = take 32 (drop 5 (d i)))
     (opened D d N f i anywhere)"
  unfolding readChecksum_def
  by (intro guards_bind [OF guards_Read] guards_if guards_fail guards_return guards_pre [OF guards_bind [OF guards_Read]])
    (auto intro: opened_weaken elim!: opened_weaken simp: opened_def)

lemma guards_CheckChecksum:
  "guards (opened D d N (f_fd f) i anywhere) (CheckChecksum sha f)
     (\<lambda>b s. opened D d N (f_fd f) i anywhere s \<and> (b \<longleftrightarrow> sha (drop 37 (d i)) = f_checksum f))
     (opened D d N (f_fd f) i anywhere)"
  unfolding guards_def CheckChecksum_def os_SeekCurrent_def os_SeekStart_def ComputeChecksum_def io_ReadAll_def
    fs_defs step_defs opened_def Let_def
  by (auto split: option.splits if_splits)

text \<open>
  Apart from the temporary file, the names keep leading to what they led to, except that the
  file's own name may lead to a copy without the header; files that were there keep their
  contents.
\<close>

definition published :: "gostring \<Rightarrow> gostring \<Rightarrow> (gostring \<rightharpoonup> nat) \<Rightarrow> (nat \<Rightarrow> byte list) \<Rightarrow> nat \<Rightarrow> nat \<Rightarrow> FS \<Rightarrow> bool" where
  "published tmp name D d N i fs \<longleftrightarrow>
     (\<forall>n. n \<noteq> tmp \<longrightarrow> n \<noteq> name \<longrightarrow> fs_dir fs n = D n) \<and> (\<forall>j < N. fs_data fs j = d j)
     \<and> (fs_dir fs name = D name \<or> (\<exists>j. fs_dir fs name = Some j \<and> fs_data fs j = drop 37 (d i)))"

lemma published_start: "opened D d N f i at fs \<Longrightarrow> published tmp name D d N i fs"
  by (simp add: opened_def published_def)

lemma guards_publish:
  assumes "tmp \<noteq> name" and "f < N" and "i < N"
  shows "guards (opened D d N f i (\<lambda>p. p = 37))
    (bindM (os_CreateTemp tmp) (\<lambda>t.
       bindM (tryM (bindM (io_Copy t f) (\<lambda>_. os_Rename tmp name))) (\<lambda>res.
       thenM (ignoreM (os_Close t)) (case res of Inl _ \<Rightarrow> returnM () | Inr e \<Rightarrow> failM e))))
    (\<lambda>_. published tmp name D d N i) (published tmp name D d N i)"
  using assms
  unfolding guards_def os_CreateTemp_def os_Open_def io_Copy_def os_Rename_def os_Close_def
    fs_defs step_defs opened_def published_def Let_def put_bytes_def
  by (auto split: option.splits if_splits)

lemma guards_StripChecksum:
  assumes "tmp \<noteq> f_name f" and "f_fd f < N" and "i < N"
  shows "guards (opened D d N (f_fd f) i anywhere) (StripChecksum tmp f)
    (\<lambda>_. published tmp (f_name f) D d N i) (published tmp (f_name f) D d N i)"
  unfolding StripChecksum_def
  by (intro guards_if guards_fail published_start guards_bind [OF guards_weaken [OF guards_SeekStart]]
      guards_bind [OF guards_weaken [OF guards_readChecksum]] guards_pre [OF guards_publish [OF assms]])
    (auto intro: published_start)

lemma guards_Remove:
  "guards (opened D d N (f_fd f) i anywhere) (File_Remove (Some f))
    (\<lambda>_ s. fs_dir s = D(f_name f := None) \<and> fs_data s = d) (\<lambda>s. fs_dir s = D \<and> fs_data s = d)"
  unfolding guards_def File_Remove_def os_Close_def os_Remove_def fs_defs step_defs opened_def Let_def
  by (auto split: option.splits if_splits)

lemma OpenFile_reads:
  assumes "OpenFile sha name fs = (r, fs')"
  shows "fs_dir fs' = fs_dir fs \<and> fs_data fs' = fs_data fs
    \<and> (\<forall>f. r = Ok f \<longrightarrow> fileRegex name \<and> f_name f = name \<and> \<not> isClientFile f
        \<and> (\<exists>i. fs_dir fs name = Some i \<and> fs_fds fs' (f_fd f) = Some (i, 0)
             \<and> f_checksum f = sha (fs_data fs i) \<and> f_stat f = length (fs_data fs i)))"
  using assms
  unfolding OpenFile_def os_Stat_def os_Open_def os_SeekStart_def os_Fstat_def ComputeChecksum_def io_ReadAll_def
    fs_defs step_defs Let_def
  by (auto split: option.splits if_splits)

lemma fileRegex_confined:
  assumes "fileRegex name"
  shows "name \<noteq> [] \<and> 0x2F \<notin> set name \<and> hd name \<noteq> 0x2E"
proof -
  let ?s = "takeWhile nameChar name" and ?e = "dropWhile nameChar name"
  have n: "name = ?s @ ?e" by simp
  from assms have s: "?s \<noteq> []" and e: "?e = [] \<or> (\<exists>rest. ?e = 0x2E # rest \<and> list_all wordChar rest)"
    by (auto simp: fileRegex_def Let_def split: list.splits)
  have no: "\<not> nameChar 0x2F" "\<not> wordChar 0x2F" "\<not> nameChar 0x2E" by (simp_all add: nameChar_def wordChar_def)
  then have "0x2F \<notin> set ?s" by (blast dest: set_takeWhileD)
  moreover from e have "0x2F \<notin> set ?e"
  proof
    assume "\<exists>rest. ?e = 0x2E # rest \<and> list_all wordChar rest"
    then obtain rest where "?e = 0x2E # rest" "list_all wordChar rest" by blast
    with no(2) show ?thesis by (auto simp: list_all_iff)
  qed (simp only: list.set empty_iff not_False_eq_True)
  ultimately have "0x2F \<notin> set name" using n by (metis Un_iff set_append)
  moreover have "nameChar (hd name)" using s by (cases name) (auto split: if_splits)
  with no(3) have "hd name \<noteq> 0x2E" by metis
  ultimately show ?thesis using s by auto
qed

end
