(* ===== verification/Brft_Conn.thy ===== *)
theory Brft_Conn
  imports Btp_Session Brft_File
begin

text \<open>
  brft/conn.go, stream.go and conf.go: the connection of the file transfer layer with its table
  of streams, the sender goroutine, the closing of streams and of the connection, and the steps
  the handlers of both sides share. A goroutine is modelled by its steps from one receive to
  the next; every step is a state transformer that may return, fail, wait or panic.
\<close>

section \<open>Options (conf.go)\<close>

record BOptions =
  ignoreChecksumMissmatch :: bool
  compressionOptions :: "byte list"
  chunkSizeFactor :: byte
  activeStreamTimeout :: int
  BtpOptions :: ConnOptions

definition CompressionReqHeaderAlgorithmGzip :: byte where
  "CompressionReqHeaderAlgorithmGzip = 1"

definition BOptions_Clone :: "BOptions \<Rightarrow> BOptions" where
  "BOptions_Clone c = \<lparr>ignoreChecksumMissmatch = ignoreChecksumMissmatch c,
     compressionOptions = compressionOptions c, chunkSizeFactor = chunkSizeFactor c,
     activeStreamTimeout = activeStreamTimeout c, BtpOptions = ConnOptions_Clone (BtpOptions c)\<rparr>"

definition NewDefaultBOptions :: "bool \<Rightarrow> BOptions" where
  "NewDefaultBOptions useCompression = \<lparr>ignoreChecksumMissmatch = False,
     compressionOptions = (if useCompression then [CompressionReqHeaderAlgorithmGzip] else []),
     chunkSizeFactor = 0, activeStreamTimeout = 20 * 1000000000, BtpOptions = NewDefaultOptions\<rparr>"

definition GetPreferredCompression :: "BOptions \<Rightarrow> byte option" where
  "GetPreferredCompression c = (case compressionOptions c of [] \<Rightarrow> None | a # _ \<Rightarrow> Some a)"

section \<open>Reasons for closing a stream (messages/close.go)\<close>

definition CloseReasonUndefined :: byte where "CloseReasonUndefined = 0"
definition CloseReasonTransferComplete :: byte where "CloseReasonTransferComplete = 1"
definition CloseReasonChecksumInvalid :: byte where "CloseReasonChecksumInvalid = 2"
definition CloseReasonInvalidOffset :: byte where "CloseReasonInvalidOffset = 3"
definition CloseReasonResumeNoChecksum :: byte where "CloseReasonResumeNoChecksum = 6"
definition CloseReasonFileNotFound :: byte where "CloseReasonFileNotFound = 7"
definition CloseReasonUnsupportedOptionalHeader :: byte where "CloseReasonUnsupportedOptionalHeader = 8"
definition CloseReasonUnexpectedOptionalHeader :: byte where "CloseReasonUnexpectedOptionalHeader = 9"

lemmas close_reasons = CloseReasonUndefined_def CloseReasonTransferComplete_def
  CloseReasonChecksumInvalid_def CloseReasonInvalidOffset_def CloseReasonResumeNoChecksum_def
  CloseReasonFileNotFound_def CloseReasonUnsupportedOptionalHeader_def CloseReasonUnexpectedOptionalHeader_def

section \<open>State\<close>

text \<open>Where the goroutine of a stream waits.\<close>

datatype pc = SAwaitReq | SAwaitStart | SSending | CAwaitResp | CReading | Returned

text \<open>
  The channels \<open>in\<close> and \<open>progress\<close> are only closed together. A blocking send on \<open>in\<close> takes place
  when it is done, so its capacity does not appear; \<open>progress\<close> is written without blocking.
\<close>

record BStream =
  s_f :: "File option"
  s_fileName :: gostring
  s_requestedChecksum :: "byte list"
  s_totalSize :: u64
  s_totalTransmitted :: u64
  s_totalPayloadTransmitted :: u64
  s_progress :: "(u64 \<times> u64) list"
  s_progressCap :: nat
  s_comp :: bool
  s_chunkSize :: int
  s_isResumption :: bool
  s_offset :: u64
  s_in :: "BRFTMessage list"
  s_closed :: bool
  s_pc :: pc

text \<open>
  The table of streams is the set of the identifiers in it; the stream objects are found by
  their identifier also after they were removed, since their goroutine still holds them.
\<close>

record BConn =
  c_conn :: Conn
  c_isClient :: bool
  c_table :: "u16 set"
  c_streams :: "u16 \<Rightarrow> BStream"
  c_wg :: nat
  c_close :: bool
  c_metaLocked :: bool
  c_metaRequests :: "nat list"
  c_metaChans :: "nat \<Rightarrow> MetaResp list"
  c_outCtrl :: "byte list list"
  c_outData :: "byte list list"
  c_outClosed :: bool
  c_options :: BOptions
  c_fs :: FS

text \<open>
  What the code takes from outside: cryptobyte, the UDP socket and clock of the connection,
  the hash and the compression of the standard library, the name of a temporary file and the
  path that \<open>filepath.Join\<close> gives for a name.
\<close>

record 'b Env =
  env_cb :: "'b cryptobyte"
  env_write :: udp_write
  env_now :: int
  env_sha :: "byte list \<Rightarrow> byte list"
  env_compress :: "byte list \<Rightarrow> byte list outcome"
  env_decompress :: "byte list \<Rightarrow> byte list outcome"
  env_tmp :: gostring
  env_path :: "gostring \<Rightarrow> gostring"

section \<open>New connections (client.go, server.go)\<close>

definition DefaultCompressionEnabled :: bool where "DefaultCompressionEnabled = True"

text \<open>The stream object of an identifier that was never used: there is none, and no goroutine.\<close>

definition noStream :: BStream where
  "noStream = \<lparr>s_f = None, s_fileName = [], s_requestedChecksum = [], s_totalSize = 0, s_totalTransmitted = 0,
     s_totalPayloadTransmitted = 0, s_progress = [], s_progressCap = 0, s_comp = False, s_chunkSize = 0,
     s_isResumption = False, s_offset = 0, s_in = [], s_closed = True, s_pc = Returned\<rparr>"

text \<open>The one goroutine waited for is the sender, which the handler of the connection starts.\<close>

definition newBConn :: "bool \<Rightarrow> BOptions \<Rightarrow> Conn \<Rightarrow> FS \<Rightarrow> BConn" where
  "newBConn isClient opts conn fs = \<lparr>c_conn = conn, c_isClient = isClient, c_table = {}, c_streams = (\<lambda>_. noStream),
     c_wg = 1, c_close = False, c_metaLocked = False, c_metaRequests = [], c_metaChans = (\<lambda>_. []),
     c_outCtrl = [], c_outData = [], c_outClosed = False, c_options = opts, c_fs = fs\<rparr>"

text \<open>
  \<open>addr\<close> is the result of resolving the address, \<open>dial\<close> is \<open>btp.Dial\<close>; no options are \<open>None\<close>.
\<close>

definition Brft_Dial :: "'a outcome \<Rightarrow> BOptions option \<Rightarrow> (ConnOptions \<Rightarrow> 'a \<Rightarrow> Conn outcome) \<Rightarrow> FS \<Rightarrow> BConn outcome" where
  "Brft_Dial addr options dial fs =
     (let opts = (case options of None \<Rightarrow> NewDefaultBOptions DefaultCompressionEnabled | Some opts \<Rightarrow> opts)
      in case addr of
          Err e \<Rightarrow> Err (Errorf ''unable to resolve server address'' (Some e))
        | Block \<Rightarrow> Block | Panic p \<Rightarrow> Panic p
        | Ok raddr \<Rightarrow> (case dial (BtpOptions opts) raddr of
              Err e \<Rightarrow> Err (Errorf ''unable to create connection'' (Some e))
            | Block \<Rightarrow> Block | Panic p \<Rightarrow> Panic p
            | Ok conn \<Rightarrow> Ok (newBConn True opts conn fs)))"

record 'l Server =
  srv_listener :: 'l
  numConns :: int
  srv_options :: BOptions

text \<open>The logger is taken from the argument, also when that is nil.\<close>

definition NewServer :: "BOptions option \<Rightarrow> 'a outcome \<Rightarrow> (ConnOptions \<Rightarrow> 'a \<Rightarrow> 'l outcome) \<Rightarrow> 'l Server outcome" where
  "NewServer options addr listen =
     (let opt = (case options of None \<Rightarrow> NewDefaultBOptions DefaultCompressionEnabled | Some opts \<Rightarrow> opts)
      in bindO addr (\<lambda>laddr.
         if options = None then Panic ''nil pointer dereference''
         else bindO (listen (BtpOptions opt) laddr) (\<lambda>l.
           Ok \<lparr>srv_listener = l, numConns = 0, srv_options = opt\<rparr>)))"

text \<open>One pass of the loop of \<open>ListenAndServe\<close> with the result of \<open>Accept\<close>.\<close>

definition serveOne :: "Conn outcome \<Rightarrow> FS \<Rightarrow> 'l Server \<Rightarrow> BConn option outcome \<times> 'l Server" where
  "serveOne res fs s = (case res of
       Err e \<Rightarrow> (Ok None, s)
     | Block \<Rightarrow> (Block, s) | Panic p \<Rightarrow> (Panic p, s)
     | Ok conn \<Rightarrow> (Ok (Some (newBConn False (BOptions_Clone (srv_options s)) conn fs)),
         s\<lparr>numConns := numConns s + 1\<rparr>))"

section \<open>Access to the parts of a connection\<close>

definition fsM :: "(FS, 'a) parser \<Rightarrow> (BConn, 'a) parser" where
  "fsM m = zoomM c_fs (\<lambda>fs c. c\<lparr>c_fs := fs\<rparr>) m"

definition connM :: "(Conn, 'a) parser \<Rightarrow> (BConn, 'a) parser" where
  "connM m = zoomM c_conn (\<lambda>b c. c\<lparr>c_conn := b\<rparr>) m"

definition updS :: "u16 \<Rightarrow> (BStream \<Rightarrow> BStream) \<Rightarrow> (BConn, unit) parser" where
  "updS sid g = modifyM (\<lambda>c. c\<lparr>c_streams := (c_streams c)(sid := g (c_streams c sid))\<rparr>)"

abbreviation getS :: "u16 \<Rightarrow> (BConn, BStream) parser" where
  "getS sid \<equiv> getM (\<lambda>c. c_streams c sid)"

text \<open>A method call on the file of a stream that has none yet.\<close>

definition withFile :: "u16 \<Rightarrow> (File \<Rightarrow> (BConn, 'a) parser) \<Rightarrow> (BConn, 'a) parser" where
  "withFile sid k = bindM (getS sid) (\<lambda>s. case s_f s of
     None \<Rightarrow> panicM ''nil pointer dereference'' | Some f \<Rightarrow> k f)"

text \<open>\<open>Size\<close> updates the file it is called on.\<close>

definition fileSize :: "u16 \<Rightarrow> (BConn, u64) parser" where
  "fileSize sid = withFile sid (\<lambda>f. bindM (fsM (File_Size f)) (\<lambda>(n, f').
     thenM (updS sid (\<lambda>s. s\<lparr>s_f := Some f'\<rparr>)) (returnM n)))"

section \<open>Channels\<close>

text \<open>
  In a select with the channel \<open>close\<close> both cases may be ready; \<open>pick\<close> says that \<open>close\<close> is
  taken. A receive gives \<open>None\<close> for \<open>close\<close>, \<open>Some None\<close> for the nil message of a closed
  channel.
\<close>

definition recvIn :: "bool \<Rightarrow> u16 \<Rightarrow> (BConn, BRFTMessage option option) parser" where
  "recvIn pick sid = (\<lambda>c. let s = c_streams c sid in
     if c_close c \<and> (pick \<or> s_in s = [] \<and> \<not> s_closed s) then (Ok None, c)
     else case s_in s of
       m # ms \<Rightarrow> (Ok (Some (Some m)), c\<lparr>c_streams := (c_streams c)(sid := s\<lparr>s_in := ms\<rparr>)\<rparr>)
     | [] \<Rightarrow> if s_closed s then (Ok (Some None), c) else (Block, c))"

definition pushIn :: "u16 \<Rightarrow> BRFTMessage \<Rightarrow> (BConn, unit) parser" where
  "pushIn sid m = bindM (getS sid) (\<lambda>s.
     if s_closed s then panicM ''send on closed channel''
     else updS sid (\<lambda>s. s\<lparr>s_in := s_in s @ [m]\<rparr>))"

text \<open>The result says whether the data was sent.\<close>

definition selectCtrl :: "bool \<Rightarrow> byte list \<Rightarrow> (BConn, bool) parser" where
  "selectCtrl pick d = (\<lambda>c. if c_close c \<and> pick then (Ok False, c)
     else if c_outClosed c then (Panic ''send on closed channel'', c)
     else (Ok True, c\<lparr>c_outCtrl := c_outCtrl c @ [d]\<rparr>))"

definition selectData :: "bool \<Rightarrow> byte list \<Rightarrow> (BConn, bool) parser" where
  "selectData pick d = (\<lambda>c. if c_close c \<and> pick then (Ok False, c)
     else if c_outClosed c then (Panic ''send on closed channel'', c)
     else (Ok True, c\<lparr>c_outData := c_outData c @ [d]\<rparr>))"

section \<open>Progress\<close>

definition updateProgress :: "u16 \<Rightarrow> nat \<Rightarrow> nat \<Rightarrow> (BConn, unit) parser" where
  "updateProgress sid lenTransmitted lenDecoded =
     thenM (updS sid (\<lambda>s. s\<lparr>s_totalTransmitted := s_totalTransmitted s + of_nat lenTransmitted,
        s_totalPayloadTransmitted := s_totalPayloadTransmitted s + of_nat lenDecoded\<rparr>))
     (bindM (getS sid) (\<lambda>s. if s_closed s then panicM ''send on closed channel''
        else (let prog = (s_totalSize s, s_totalPayloadTransmitted s) in
          updS sid (\<lambda>s. if length (s_progress s) < s_progressCap s then s\<lparr>s_progress := s_progress s @ [prog]\<rparr>
            else if s_progress s = [] then s
            else s\<lparr>s_progress := tl (s_progress s) @ [prog]\<rparr>))))"

section \<open>Closing\<close>

text \<open>The wait for the goroutines ends when none is left.\<close>

definition BConn_Close :: "'b Env \<Rightarrow> (BConn, unit) parser" where
  "BConn_Close env = thenM (modifyM (\<lambda>c. c\<lparr>c_close := True\<rparr>)) (\<lambda>c.
     if c_wg c > 0 then (Block, c)
     else if c_outClosed c then (Panic ''close of closed channel'', c)
     else case Conn_Close (env_cb env) (env_write env) (env_now env) (c_conn c) of
       (x, b) \<Rightarrow> (x, c\<lparr>c_outClosed := True, c_conn := b\<rparr>))"

definition sendClosePacket :: "'b Env \<Rightarrow> bool \<Rightarrow> u16 \<Rightarrow> byte \<Rightarrow> (BConn, unit) parser" where
  "sendClosePacket env pick sid r =
     bindM (tryM (liftO (Close_Encode (env_cb env) \<lparr>bc_StreamID = sid, bc_Reason = r\<rparr>))) (\<lambda>res.
       case res of Inr e \<Rightarrow> returnM ()
       | Inl data \<Rightarrow> bindM (selectData pick data) (\<lambda>_. returnM ()))"

definition CloseStream :: "'b Env \<Rightarrow> bool \<Rightarrow> u16 \<Rightarrow> bool \<Rightarrow> byte \<Rightarrow> (BConn, unit) parser" where
  "CloseStream env pick sid sendPkt r =
     thenM (modifyM (\<lambda>c. c\<lparr>c_table := c_table c - {sid}\<rparr>))
     (bindM (getM (\<lambda>c. c_table c = {})) (\<lambda>allFinished.
      bindM (getS sid) (\<lambda>s.
      thenM (ignoreM (fsM (File_Close (s_f s))))
      (if s_closed s then panicM ''close of closed channel''
       else thenM (updS sid (\<lambda>s. s\<lparr>s_closed := True\<rparr>))
         (thenM (whenM sendPkt (sendClosePacket env pick sid r))
         (whenM allFinished
           (thenM (modifyM (\<lambda>c. c\<lparr>c_conn := ResetReadTimeout (c_conn c)\<rparr>))
             (bindM (getM c_isClient) (\<lambda>isClient. whenM isClient (ignoreM (BConn_Close env)))))))))))"

text \<open>A handler closes its stream, returns, and runs the deferred \<open>wg.Done\<close>.\<close>

definition finish :: "'b Env \<Rightarrow> bool \<Rightarrow> u16 \<Rightarrow> bool \<Rightarrow> byte \<Rightarrow> (BConn, unit) parser" where
  "finish env pick sid sendPkt r =
     thenM (CloseStream env pick sid sendPkt r)
     (thenM (updS sid (\<lambda>s. s\<lparr>s_pc := Returned\<rparr>)) (modifyM (\<lambda>c. c\<lparr>c_wg := c_wg c - 1\<rparr>)))"

text \<open>\<open>go c.handle...Stream(s)\<close>, with the \<open>wg.Add\<close> at its start.\<close>

definition spawn :: "u16 \<Rightarrow> BStream \<Rightarrow> (BConn, unit) parser" where
  "spawn sid s = modifyM (\<lambda>c. c\<lparr>c_streams := (c_streams c)(sid := s), c_table := insert sid (c_table c),
     c_wg := c_wg c + 1\<rparr>)"

definition getStream :: "u16 \<Rightarrow> BConn \<Rightarrow> BStream option" where
  "getStream sid c = (if sid \<in> c_table c then Some (c_streams c sid) else None)"

section \<open>The sender\<close>

definition writeOut :: "'b Env \<Rightarrow> byte list \<Rightarrow> (BConn, unit) parser" where
  "writeOut env msg = (\<lambda>c. case Conn_Write msg (c_conn c) of
      None \<Rightarrow> (Block, c)
    | Some (Err e, b) \<Rightarrow> thenM (ignoreM (BConn_Close env)) (failM e) (c\<lparr>c_conn := b\<rparr>)
    | Some (Ok n, b) \<Rightarrow> (Ok (), c\<lparr>c_conn := b\<rparr>)
    | Some (Block, b) \<Rightarrow> (Block, c\<lparr>c_conn := b\<rparr>)
    | Some (Panic p, b) \<Rightarrow> (Panic p, c\<lparr>c_conn := b\<rparr>))"

text \<open>
  One pass of the loop; \<open>Ok False\<close> when it returns. The control channel is looked at first, the
  data channel only when it is empty.
\<close>

definition sendMessages :: "'b Env \<Rightarrow> bool \<Rightarrow> (BConn, bool) parser" where
  "sendMessages env pick = (\<lambda>c.
     if c_close c \<and> (pick \<or> c_outCtrl c = []) then (Ok False, c\<lparr>c_wg := c_wg c - 1\<rparr>)
     else case c_outCtrl c of
       msg # rest \<Rightarrow> thenM (writeOut env msg) (returnM True) (c\<lparr>c_outCtrl := rest\<rparr>)
     | [] \<Rightarrow> case c_outData c of
         msg # rest \<Rightarrow> thenM (writeOut env msg) (returnM True) (c\<lparr>c_outData := rest\<rparr>)
       | [] \<Rightarrow> (Ok True, c))"

end
