(* ===== verification/Brft_Server.thy ===== *)
theory Brft_Server
  imports Brft_Conn
begin

text \<open>
  brft/server.go: the handler of a server connection (\<open>serverDispatch\<close>), the goroutine of a
  stream as three steps (negotiation, start of the transmission, one chunk) and the metadata
  request. The precedence of the response status is from messages/fileresp.go, the smallest
  file that is compressed from compression/gzip.go.
\<close>

section \<open>Negotiation\<close>

definition FileRespStatusReserved :: byte where "FileRespStatusReserved = 0"
definition FileRespStatusOk :: byte where "FileRespStatusOk = 1"
definition FileRespStatusFileChanged :: byte where "FileRespStatusFileChanged = 2"
definition FileRespStatusUnsupportedOptionalHeader :: byte where "FileRespStatusUnsupportedOptionalHeader = 3"
definition FileRespStatusUnexpectedOptionalHeader :: byte where "FileRespStatusUnexpectedOptionalHeader = 4"

lemmas resp_statuses = FileRespStatusReserved_def FileRespStatusOk_def FileRespStatusFileChanged_def
  FileRespStatusUnsupportedOptionalHeader_def FileRespStatusUnexpectedOptionalHeader_def

definition fileRespStatusPrecedence :: "byte \<Rightarrow> int" where
  "fileRespStatusPrecedence s =
     (if s = FileRespStatusReserved then 0
      else if s = FileRespStatusOk then 1
      else if s = FileRespStatusFileChanged then 4
      else if s = FileRespStatusUnsupportedOptionalHeader then 2
      else if s = FileRespStatusUnexpectedOptionalHeader then 3
      else 0)"

definition HasPrecedence :: "byte \<Rightarrow> byte \<Rightarrow> bool" where
  "HasPrecedence s other \<longleftrightarrow> fileRespStatusPrecedence s > fileRespStatusPrecedence other"

definition CompressionRespHeaderStatusOk :: byte where "CompressionRespHeaderStatusOk = 1"
definition CompressionRespHeaderStatusNoCompression :: byte where "CompressionRespHeaderStatusNoCompression = 2"
definition CompressionRespHeaderStatusUnknownAlgorithm :: byte where "CompressionRespHeaderStatusUnknownAlgorithm = 3"
definition CompressionRespHeaderStatusFileTooSmall :: byte where "CompressionRespHeaderStatusFileTooSmall = 4"

lemmas compression_statuses = CompressionRespHeaderStatusOk_def CompressionRespHeaderStatusNoCompression_def
  CompressionRespHeaderStatusUnknownAlgorithm_def CompressionRespHeaderStatusFileTooSmall_def

definition MinFileSize :: u64 where "MinFileSize = 65536"

definition IsSet :: "byte list \<Rightarrow> byte \<Rightarrow> bool" where
  "IsSet flags f \<longleftrightarrow> f \<in> set flags"

definition zeroChecksum :: "byte list" where
  "zeroChecksum = replicate ChecksumSize 0"

text \<open>The state of the loop over the optional headers of the request.\<close>

record Negotiated =
  n_status :: byte
  n_comp :: bool
  n_chunkSize :: int
  n_optHeaders :: "OptionalHeader list"

definition raiseStatus :: "byte \<Rightarrow> Negotiated \<Rightarrow> Negotiated" where
  "raiseStatus st n = (if HasPrecedence st (n_status n) then n\<lparr>n_status := st\<rparr> else n)"

definition addReply :: "byte \<Rightarrow> Negotiated \<Rightarrow> Negotiated" where
  "addReply st n = n\<lparr>n_optHeaders := n_optHeaders n @ [NewCompressionRespOptionalHeader st]\<rparr>"

fun negotiateOne :: "u64 \<Rightarrow> OptionalHeader \<Rightarrow> Negotiated \<Rightarrow> Negotiated option" where
  "negotiateOne fsize (CompressionReqOptionalHeader b alg mul) n =
     Some (if alg \<noteq> CompressionReqHeaderAlgorithmGzip
       then addReply CompressionRespHeaderStatusUnknownAlgorithm n
       else if fsize < MinFileSize
       then (addReply CompressionRespHeaderStatusFileTooSmall n)\<lparr>n_comp := False\<rparr>
       else (addReply CompressionRespHeaderStatusOk n)\<lparr>n_comp := True, n_chunkSize := ComputeChunkSize mul\<rparr>)"
| "negotiateOne fsize (CompressionRespOptionalHeader b st) n =
     Some (raiseStatus FileRespStatusUnexpectedOptionalHeader n)"
| "negotiateOne fsize (UnknownOptionalHeader b d) n =
     Some (raiseStatus FileRespStatusUnsupportedOptionalHeader n)"
| "negotiateOne fsize NilHeader n = None"

fun negotiate :: "u64 \<Rightarrow> OptionalHeader list \<Rightarrow> Negotiated \<Rightarrow> Negotiated option" where
  "negotiate fsize [] n = Some n"
| "negotiate fsize (h # hs) n = (case negotiateOne fsize h n of None \<Rightarrow> None | Some n' \<Rightarrow> negotiate fsize hs n')"

section \<open>The goroutine of a stream\<close>

text \<open>
  In each step \<open>pk 0\<close> is the choice of the receive, \<open>pk 1\<close> of the send, and \<open>pk 2\<close> of the send
  of a close packet.
\<close>

definition serverAnswer :: "'b Env \<Rightarrow> (nat \<Rightarrow> bool) \<Rightarrow> u16 \<Rightarrow> FileReq \<Rightarrow> File \<Rightarrow> u64 \<Rightarrow> (BConn, unit) parser" where
  "serverAnswer env pk sid req f fsize =
     bindM (getS sid) (\<lambda>s.
     case negotiate fsize (fq_OptHeaders req)
        \<lparr>n_status = FileRespStatusOk, n_comp = s_comp s, n_chunkSize = s_chunkSize s, n_optHeaders = []\<rparr> of
       None \<Rightarrow> finish env (pk 2) sid True CloseReasonUndefined
     | Some n \<Rightarrow>
        thenM (updS sid (\<lambda>s. s\<lparr>s_comp := n_comp n, s_chunkSize := n_chunkSize n\<rparr>))
        (bindM (tryM (liftO (FileResp_Encode (env_cb env) \<lparr>fp_Status = n_status n, fp_OptHeaders = n_optHeaders n,
            fp_StreamID = sid, fp_FileSize = fsize, fp_Checksum = f_checksum f\<rparr>))) (\<lambda>res.
         case res of
           Inr e \<Rightarrow> finish env (pk 2) sid True CloseReasonUndefined
         | Inl data \<Rightarrow> bindM (selectCtrl (pk 1) data) (\<lambda>sent.
             if sent then updS sid (\<lambda>s. s\<lparr>s_pc := SAwaitStart\<rparr>)
             else finish env (pk 2) sid False 0))))"

definition serverNegotiate :: "'b Env \<Rightarrow> (nat \<Rightarrow> bool) \<Rightarrow> u16 \<Rightarrow> FileReq \<Rightarrow> (BConn, unit) parser" where
  "serverNegotiate env pk sid req =
     bindM (tryM (fsM (OpenFile (env_sha env) (fq_FileName req)))) (\<lambda>opened.
     case opened of
       Inr e \<Rightarrow> finish env (pk 2) sid True (if isNotExist e then CloseReasonFileNotFound else CloseReasonUndefined)
     | Inl f \<Rightarrow>
        thenM (updS sid (\<lambda>s. s\<lparr>s_f := Some f, s_fileName := fq_FileName req, s_requestedChecksum := fq_Checksum req\<rparr>))
        (bindM (fileSize sid) (\<lambda>size.
         thenM (updS sid (\<lambda>s. s\<lparr>s_totalSize := size\<rparr>))
         (if IsSet (fq_Flags req) FileReqFlagResumption \<and> fq_Checksum req = zeroChecksum
          then finish env (pk 2) sid True CloseReasonResumeNoChecksum
          else thenM (whenM (IsSet (fq_Flags req) FileReqFlagResumption)
                       (updS sid (\<lambda>s. s\<lparr>s_isResumption := True\<rparr>)))
            (if fq_Checksum req \<noteq> zeroChecksum \<and> fq_Checksum req \<noteq> f_checksum f
             then finish env (pk 2) sid True CloseReasonChecksumInvalid
             else serverAnswer env pk sid req f size)))))"

definition serverReq :: "'b Env \<Rightarrow> (nat \<Rightarrow> bool) \<Rightarrow> u16 \<Rightarrow> (BConn, unit) parser" where
  "serverReq env pk sid = bindM (recvIn (pk 0) sid) (\<lambda>msg. case msg of
       None \<Rightarrow> finish env (pk 2) sid False 0
     | Some (Some (BFileReq req)) \<Rightarrow> serverNegotiate env pk sid req
     | Some (Some (BCloseMsg v)) \<Rightarrow> finish env (pk 2) sid False 0
     | Some _ \<Rightarrow> finish env (pk 2) sid True CloseReasonUndefined)"

definition serverStart :: "'b Env \<Rightarrow> (nat \<Rightarrow> bool) \<Rightarrow> u16 \<Rightarrow> (BConn, unit) parser" where
  "serverStart env pk sid = bindM (recvIn (pk 0) sid) (\<lambda>msg. case msg of
       None \<Rightarrow> finish env (pk 2) sid False 0
     | Some (Some (BStart st)) \<Rightarrow> withFile sid (\<lambda>f.
         if st_Checksum st \<noteq> f_checksum f then finish env (pk 2) sid True CloseReasonChecksumInvalid
         else bindM (fileSize sid) (\<lambda>size.
           if st_Offset st \<ge> size then finish env (pk 2) sid True CloseReasonInvalidOffset
           else thenM (ignoreM (fsM (SeekOffset f (st_Offset st))))
             (updS sid (\<lambda>s. s\<lparr>s_pc := SSending\<rparr>))))
     | Some (Some (BCloseMsg v)) \<Rightarrow> finish env (pk 2) sid False 0
     | Some _ \<Rightarrow> finish env (pk 2) sid True CloseReasonUndefined)"

text \<open>One pass of the loop that sends the file; \<open>d\<close> is the data of the packet.\<close>

definition sendChunk :: "'b Env \<Rightarrow> (nat \<Rightarrow> bool) \<Rightarrow> u16 \<Rightarrow> byte list \<Rightarrow> nat \<Rightarrow> bool \<Rightarrow> (BConn, unit) parser" where
  "sendChunk env pk sid d dLen lastPacket =
     bindM (tryM (liftO (Data_Encode (env_cb env) \<lparr>bd_StreamID = sid, bd_Data = d\<rparr>))) (\<lambda>res.
     case res of
       Inr e \<Rightarrow> finish env (pk 2) sid True CloseReasonUndefined
     | Inl data \<Rightarrow> bindM (selectData (pk 1) data) (\<lambda>sent.
         if \<not> sent then finish env (pk 2) sid False 0
         else thenM (updateProgress sid (length d) dLen)
           (whenM lastPacket (finish env (pk 2) sid True CloseReasonTransferComplete))))"

definition serverChunk :: "'b Env \<Rightarrow> (nat \<Rightarrow> bool) \<Rightarrow> u16 \<Rightarrow> (BConn, unit) parser" where
  "serverChunk env pk sid = bindM (getS sid) (\<lambda>s.
     let n = nat (s_chunkSize s) in
     withFile sid (\<lambda>f. bindM (tryM (fsM (File_Read f n))) (\<lambda>res. case res of
       Inr e \<Rightarrow> finish env (pk 2) sid True CloseReasonUndefined
     | Inl bs \<Rightarrow>
        (if s_comp s
         then bindM (tryM (liftO (env_compress env bs))) (\<lambda>z. case z of
             Inr e \<Rightarrow> finish env (pk 2) sid True CloseReasonUndefined
           | Inl d \<Rightarrow> sendChunk env pk sid d (length bs) (length bs < n))
         else sendChunk env pk sid bs (length bs) (length bs < n)))))"

definition serverStep :: "'b Env \<Rightarrow> (nat \<Rightarrow> bool) \<Rightarrow> u16 \<Rightarrow> (BConn, unit) parser" where
  "serverStep env pk sid = bindM (getS sid) (\<lambda>s. case s_pc s of
       SAwaitReq \<Rightarrow> serverReq env pk sid
     | SAwaitStart \<Rightarrow> serverStart env pk sid
     | SSending \<Rightarrow> serverChunk env pk sid
     | _ \<Rightarrow> returnM ())"

section \<open>Metadata requests\<close>

definition sendEmptyResponse :: "'b Env \<Rightarrow> (BConn, unit) parser" where
  "sendEmptyResponse env =
     bindM (liftO (MetaResp_Encode (env_cb env) \<lparr>mr_Items = [], isExtended = False\<rparr>)) (\<lambda>data.
     bindM (selectCtrl False data) (\<lambda>_. returnM ()))"

fun sendMetaResps :: "'b Env \<Rightarrow> bool \<Rightarrow> MetaResp list \<Rightarrow> (BConn, unit) parser" where
  "sendMetaResps env pick [] = returnM ()"
| "sendMetaResps env pick (r # rs) =
     bindM (tryM (liftO (MetaResp_Encode (env_cb env) r))) (\<lambda>res. case res of
       Inr e \<Rightarrow> sendMetaResps env pick rs
     | Inl data \<Rightarrow> bindM (selectCtrl pick data) (\<lambda>sent.
         if sent then sendMetaResps env pick rs else returnM ()))"

text \<open>
  \<open>listing\<close> is what \<open>ReadDir\<close> returns: the names, and which are directories. The name of an
  open file is the path it was opened with.
\<close>

definition handleMetaDataReq ::
  "'b Env \<Rightarrow> bool \<Rightarrow> (gostring \<times> bool) list outcome \<Rightarrow> MetaReq \<Rightarrow> (BConn, unit) parser" where
  "handleMetaDataReq env pick listing req =
     (if mq_FileName req = []
      then bindM (tryM (liftO listing)) (\<lambda>res. case res of
          Inr e \<Rightarrow> sendEmptyResponse env
        | Inl entries \<Rightarrow> sendMetaResps env pick (NewMetaResps True
            (map (\<lambda>(name, _). \<lparr>mi_FileName = name, mi_FileSize = None, mi_Checksum = []\<rparr>)
              (filter (\<lambda>(_, isDir). \<not> isDir) entries))))
      else bindM (tryM (fsM (OpenFile (env_sha env) (mq_FileName req)))) (\<lambda>res. case res of
          Inr e \<Rightarrow> sendEmptyResponse env
        | Inl f \<Rightarrow> bindM (fsM (File_Size f)) (\<lambda>(size, f).
            sendMetaResps env pick (NewMetaResps False
              [\<lparr>mi_FileName = env_path env (f_name f), mi_FileSize = Some size, mi_Checksum = f_checksum f\<rparr>]))))"

section \<open>The handler of the connection\<close>

definition isDuplicateStreamID :: "u16 \<Rightarrow> BConn \<Rightarrow> bool" where
  "isDuplicateStreamID newId c \<longleftrightarrow> (c_table c \<noteq> {} \<and> (newId \<in> c_table c \<or> newId = 0))"

definition newServerStream :: "BConn \<Rightarrow> FileReq \<Rightarrow> BStream" where
  "newServerStream c msg = \<lparr>s_f = None, s_fileName = [], s_requestedChecksum = [], s_totalSize = 0,
     s_totalTransmitted = 0, s_totalPayloadTransmitted = 0, s_progress = [], s_progressCap = 0,
     s_comp = False, s_chunkSize = ComputeChunkSize (chunkSizeFactor (c_options c)),
     s_isResumption = False, s_offset = 0, s_in = [BFileReq msg], s_closed = False, s_pc = SAwaitReq\<rparr>"

definition serverOnFileReq :: "'b Env \<Rightarrow> bool \<Rightarrow> FileReq \<Rightarrow> (BConn, unit) parser" where
  "serverOnFileReq env pick msg = bindM (getM (\<lambda>c. c)) (\<lambda>c.
     if isDuplicateStreamID (fq_StreamID msg) c
     then sendClosePacket env pick (fq_StreamID msg) CloseReasonUndefined
     else spawn (fq_StreamID msg) (newServerStream c msg))"

text \<open>The stream is used before it is compared with nil.\<close>

definition serverOnStart :: "'b Env \<Rightarrow> bool \<Rightarrow> StartTransmission \<Rightarrow> (BConn, unit) parser" where
  "serverOnStart env pick msg = (let sid = st_StreamID msg in
     bindM (getM (getStream sid)) (\<lambda>s. case s of
       None \<Rightarrow> panicM ''nil pointer dereference''
     | Some _ \<Rightarrow> withFile sid (\<lambda>f.
         if f_checksum f \<noteq> st_Checksum msg then sendClosePacket env pick sid CloseReasonChecksumInvalid
         else bindM (if st_Offset msg \<noteq> 0 then fileSize sid else returnM 0) (\<lambda>size.
           if st_Offset msg \<noteq> 0 \<and> st_Offset msg \<ge> size
           then sendClosePacket env pick sid CloseReasonInvalidOffset
           else thenM (updS sid (\<lambda>s. s\<lparr>s_offset := st_Offset msg\<rparr>)) (pushIn sid (BStart msg))))))"

definition onClosePacket :: "BClose \<Rightarrow> (BConn, unit) parser" where
  "onClosePacket msg = bindM (getM (getStream (bc_StreamID msg))) (\<lambda>s. case s of
       None \<Rightarrow> returnM ()
     | Some _ \<Rightarrow> pushIn (bc_StreamID msg) (BCloseMsg msg))"

text \<open>\<open>closeConn\<close> logs the error of \<open>Close\<close>; after an unexpected message the loop goes on.\<close>

definition closeConn :: "'b Env \<Rightarrow> (BConn, unit) parser" where
  "closeConn env = ignoreM (BConn_Close env)"

definition serverDispatch ::
  "'b Env \<Rightarrow> bool \<Rightarrow> (gostring \<times> bool) list outcome \<Rightarrow> BRFTMessage \<Rightarrow> (BConn, unit) parser" where
  "serverDispatch env pick listing m = (case m of
       BFileReq msg \<Rightarrow> serverOnFileReq env pick msg
     | BStart msg \<Rightarrow> serverOnStart env pick msg
     | BCloseMsg msg \<Rightarrow> onClosePacket msg
     | BMetaReq msg \<Rightarrow> handleMetaDataReq env pick listing msg
     | _ \<Rightarrow> closeConn env)"

text \<open>One pass of the loop of the handler; \<open>Ok False\<close> when it returns.\<close>

definition serverPass :: "'b Env \<Rightarrow> bool \<Rightarrow> (gostring \<times> bool) list outcome \<Rightarrow> (BConn, bool) parser" where
  "serverPass env pick listing = bindM (tryM (connM (readMsg Conn_Read))) (\<lambda>res. case res of
       Inr e \<Rightarrow> thenM (closeConn env) (returnM False)
     | Inl (m, h) \<Rightarrow> thenM (serverDispatch env pick listing m) (returnM True))"

end
