(* ===== verification/Brft_Client.thy ===== *)
theory Brft_Client
  imports Brft_Server
begin

text \<open>
  brft/client.go: the handler of a client connection (\<open>clientDispatch\<close>), the start of a download
  and the goroutine of its stream as two steps (the response, and one message of the transfer),
  the request of metadata, and the choice of stream identifiers (\<open>newStreamID\<close> of server.go).
\<close>

section \<open>Stream identifiers\<close>

text \<open>
  \<open>newStreamID\<close> draws numbers until one is free. The argument holds the numbers the random
  source gives; \<open>None\<close> when the loop needs more of them. \<open>exists\<close> is set once and for all.
\<close>

fun newStreamIDLoop :: "bool \<Rightarrow> u16 set \<Rightarrow> u32 list \<Rightarrow> u16 option" where
  "newStreamIDLoop exists table [] = None"
| "newStreamIDLoop exists table (r # rs) =
     (let newId = ucast r :: u16;
          exists = exists \<or> table \<noteq> {} \<and> (newId \<in> table \<or> newId = 0)
      in if \<not> exists then Some newId else newStreamIDLoop exists table rs)"

definition newStreamID :: "BConn \<Rightarrow> u32 list \<Rightarrow> u16 option" where
  "newStreamID c rs = newStreamIDLoop False (c_table c) rs"

section \<open>Starting a download\<close>

fun isInvalidChecksum :: "go_error \<Rightarrow> bool" where
  "isInvalidChecksum ErrInvalidChecksum = True"
| "isInvalidChecksum (Errorf m (Some e)) = isInvalidChecksum e"
| "isInvalidChecksum _ = False"

definition newClientStream :: "gostring \<Rightarrow> byte list \<Rightarrow> BStream" where
  "newClientStream name checksum = \<lparr>s_f = None, s_fileName = name, s_requestedChecksum = checksum,
     s_totalSize = 0, s_totalTransmitted = 0, s_totalPayloadTransmitted = 0, s_progress = [],
     s_progressCap = 100, s_comp = False, s_chunkSize = 0, s_isResumption = False, s_offset = 0,
     s_in = [], s_closed = False, s_pc = CAwaitResp\<rparr>"

text \<open>
  What is found of an earlier download: the request and the stream afterwards. The size is
  asked for three times, the first time for the log.
\<close>

definition resume :: "FileReq \<Rightarrow> BStream \<Rightarrow> File \<Rightarrow> (FS, FileReq \<times> BStream) parser" where
  "resume req s f =
     bindM (File_Size f) (\<lambda>(_, f).
     bindM (File_Size f) (\<lambda>(off, f).
     bindM (File_Size f) (\<lambda>(total, f).
     thenM (ignoreM (File_Close (Some f)))
     (returnM (req\<lparr>fq_Flags := fq_Flags req @ [FileReqFlagResumption], fq_Checksum := f_checksum f\<rparr>,
        s\<lparr>s_offset := off, s_totalPayloadTransmitted := total, s_isResumption := True\<rparr>)))))"

definition findPrevious :: "gostring \<Rightarrow> FileReq \<Rightarrow> BStream \<Rightarrow> (FS, FileReq \<times> BStream) parser" where
  "findPrevious name req s = bindM (tryM (NewFile name None)) (\<lambda>res. case res of
       Inr e \<Rightarrow> if isInvalidChecksum e then failM (New ''file already exists'') else returnM (req, s)
     | Inl f \<Rightarrow> resume req s f)"

definition requestCompression :: "BOptions \<Rightarrow> FileReq \<times> BStream \<Rightarrow> FileReq \<times> BStream" where
  "requestCompression opts p = (case p of (req, s) \<Rightarrow> (case GetPreferredCompression opts of
       None \<Rightarrow> (req, s)
     | Some alg \<Rightarrow> (let h = NewCompressionReqOptionalHeader alg (chunkSizeFactor opts) in
         (req\<lparr>fq_OptHeaders := fq_OptHeaders req @ [h]\<rparr>, s\<lparr>s_chunkSize := the (ChunkSize h)\<rparr>))))"

record DownloadInfo =
  StartOffset :: u64
  di_Checksum :: "byte list"

text \<open>\<open>sid\<close> is the identifier from \<open>newStreamID\<close>; a nil checksum is \<open>None\<close>.\<close>

definition DownloadFile ::
  "'b Env \<Rightarrow> bool \<Rightarrow> u16 \<Rightarrow> gostring \<Rightarrow> byte list option \<Rightarrow> (BConn, DownloadInfo) parser" where
  "DownloadFile env pick sid name checksum = bindM (getM (\<lambda>c. c)) (\<lambda>c.
     if \<not> c_isClient c then failM ErrExpectedClientConnection
     else if checksum \<noteq> None \<and> length (the checksum) \<noteq> ChecksumSize then failM ErrInvalidChecksum
     else (let cs = (case checksum of None \<Rightarrow> zeroChecksum | Some cs \<Rightarrow> cs);
               req = \<lparr>fq_StreamID = sid, fq_Flags = [], fq_OptHeaders = [], fq_FileName = name, fq_Checksum = cs\<rparr>
       in bindM (fsM (findPrevious name req (newClientStream name cs))) (\<lambda>found.
          case requestCompression (c_options c) found of (req, s) \<Rightarrow>
          bindM (mapErrM (\<lambda>e. Errorf ''unable to encode FileRequest'' (Some e))
                  (liftO (FileReq_Encode (env_cb env) req))) (\<lambda>data.
          bindM (selectCtrl pick data) (\<lambda>sent.
            if \<not> sent then failM (New ''channel closed before MetaDataRequest finished'')
            else thenM (spawn sid s)
              (returnM \<lparr>StartOffset = s_offset s, di_Checksum = s_requestedChecksum s\<rparr>))))))"

text \<open>
  Several downloads: one goroutine per file, here one after the other in the order of the list;
  the result is what was started and the first error, if any.
\<close>

fun downloadAll :: "'b Env \<Rightarrow> bool \<Rightarrow> (u16 \<times> gostring \<times> byte list option) list \<Rightarrow>
    (BConn, (gostring \<times> DownloadInfo) list \<times> go_error option) parser" where
  "downloadAll env pick [] = returnM ([], None)"
| "downloadAll env pick ((sid, name, cs) # files) =
     bindM (tryM (DownloadFile env pick sid name cs)) (\<lambda>res.
     bindM (downloadAll env pick files) (\<lambda>(infos, err).
     returnM (case res of Inl info \<Rightarrow> ((name, info) # infos, err) | Inr e \<Rightarrow> (infos, Some e))))"

definition DownloadFiles :: "'b Env \<Rightarrow> bool \<Rightarrow> (u16 \<times> gostring \<times> byte list option) list \<Rightarrow>
    (BConn, (gostring \<times> DownloadInfo) list \<times> go_error option) parser" where
  "DownloadFiles env pick files =
     (if files = [] then failM (New ''no files give'') else downloadAll env pick files)"

section \<open>The goroutine of a stream\<close>

text \<open>The loop over the optional headers of the response: the compression, or the reason to close.\<close>

fun acceptHeaders :: "OptionalHeader list \<Rightarrow> bool \<Rightarrow> bool + byte" where
  "acceptHeaders [] z = Inl z"
| "acceptHeaders (CompressionRespOptionalHeader b st # hs) z =
     acceptHeaders hs (if st = CompressionRespHeaderStatusOk then True else z)"
| "acceptHeaders (CompressionReqOptionalHeader b a m # hs) z = Inr CloseReasonUnexpectedOptionalHeader"
| "acceptHeaders (UnknownOptionalHeader b d # hs) z = Inr CloseReasonUnsupportedOptionalHeader"
| "acceptHeaders (NilHeader # hs) z = Inr CloseReasonUnsupportedOptionalHeader"

definition clientAccept :: "'b Env \<Rightarrow> (nat \<Rightarrow> bool) \<Rightarrow> u16 \<Rightarrow> FileResp \<Rightarrow> (BConn, unit) parser" where
  "clientAccept env pk sid resp = bindM (getS sid) (\<lambda>s.
     bindM (tryM (fsM (NewFile (s_fileName s) (Some (fp_Checksum resp))))) (\<lambda>res. case res of
       Inr e \<Rightarrow> finish env (pk 2) sid True CloseReasonUndefined
     | Inl f \<Rightarrow>
        thenM (updS sid (\<lambda>s. s\<lparr>s_f := Some f, s_totalSize := fp_FileSize resp\<rparr>))
        (bindM (tryM (liftO (StartTransmission_Encode (env_cb env)
            \<lparr>st_StreamID = fp_StreamID resp, st_Checksum = fp_Checksum resp,
             st_Offset = (if s_isResumption s then s_offset s else 0)\<rparr>))) (\<lambda>res. case res of
           Inr e \<Rightarrow> finish env (pk 2) sid True CloseReasonUndefined
         | Inl data \<Rightarrow> bindM (selectCtrl (pk 1) data) (\<lambda>sent.
             if \<not> sent then finish env (pk 2) sid False 0
             else thenM (modifyM (\<lambda>c. c\<lparr>c_conn := SetReadTimeout (activeStreamTimeout (c_options c)) (c_conn c)\<rparr>))
               (updS sid (\<lambda>s. s\<lparr>s_pc := CReading\<rparr>)))))))"

text \<open>The message logged for a wrong checksum reads the checksum of the stream's file.\<close>

definition clientResp :: "'b Env \<Rightarrow> (nat \<Rightarrow> bool) \<Rightarrow> u16 \<Rightarrow> (BConn, unit) parser" where
  "clientResp env pk sid = bindM (recvIn (pk 0) sid) (\<lambda>msg. case msg of
       None \<Rightarrow> finish env (pk 2) sid False 0
     | Some (Some (BFileResp resp)) \<Rightarrow> bindM (getS sid) (\<lambda>s.
         if s_requestedChecksum s \<noteq> zeroChecksum \<and> s_requestedChecksum s \<noteq> fp_Checksum resp
         then withFile sid (\<lambda>f. finish env (pk 2) sid True CloseReasonChecksumInvalid)
         else case acceptHeaders (fp_OptHeaders resp) (s_comp s) of
             Inr reason \<Rightarrow> finish env (pk 2) sid True reason
           | Inl z \<Rightarrow> thenM (updS sid (\<lambda>s. s\<lparr>s_comp := z\<rparr>)) (clientAccept env pk sid resp))
     | Some (Some (BCloseMsg v)) \<Rightarrow> finish env (pk 2) sid False 0
     | Some _ \<Rightarrow> finish env (pk 2) sid True CloseReasonUndefined)"

definition storeChunk :: "'b Env \<Rightarrow> (nat \<Rightarrow> bool) \<Rightarrow> u16 \<Rightarrow> nat \<Rightarrow> byte list \<Rightarrow> (BConn, unit) parser" where
  "storeChunk env pk sid dLen d = withFile sid (\<lambda>f.
     bindM (tryM (fsM (File_Write f d))) (\<lambda>res. case res of
       Inr e \<Rightarrow> finish env (pk 2) sid True CloseReasonUndefined
     | Inl n \<Rightarrow> if n \<noteq> length d then finish env (pk 2) sid True CloseReasonUndefined
        else updateProgress sid dLen (length d)))"

definition clientData :: "'b Env \<Rightarrow> (nat \<Rightarrow> bool) \<Rightarrow> u16 \<Rightarrow> byte list \<Rightarrow> (BConn, unit) parser" where
  "clientData env pk sid d =
     thenM (modifyM (\<lambda>c. c\<lparr>c_conn := SetReadTimeout (activeStreamTimeout (c_options c)) (c_conn c)\<rparr>))
     (bindM (getS sid) (\<lambda>s.
       if s_comp s
       then bindM (tryM (liftO (env_decompress env d))) (\<lambda>z. case z of
           Inr e \<Rightarrow> finish env (pk 2) sid True CloseReasonUndefined
         | Inl d' \<Rightarrow> storeChunk env pk sid (length d) d')
       else storeChunk env pk sid (length d) d))"

text \<open>The file is checked and stripped of its header when the transfer is complete.\<close>

definition completeFile :: "'b Env \<Rightarrow> File \<Rightarrow> (FS, unit) parser" where
  "completeFile env f = bindM (tryM (CheckChecksum (env_sha env) f)) (\<lambda>res. case res of
       Inr e \<Rightarrow> returnM ()
     | Inl False \<Rightarrow> ignoreM (File_Remove (Some f))
     | Inl True \<Rightarrow> ignoreM (StripChecksum (env_tmp env) f))"

text \<open>After an unexpected message the loop goes on.\<close>

definition clientRead :: "'b Env \<Rightarrow> (nat \<Rightarrow> bool) \<Rightarrow> u16 \<Rightarrow> (BConn, unit) parser" where
  "clientRead env pk sid = bindM (recvIn (pk 0) sid) (\<lambda>msg. case msg of
       None \<Rightarrow> finish env (pk 2) sid False 0
     | Some (Some (BDataMsg m)) \<Rightarrow> clientData env pk sid (bd_Data m)
     | Some (Some (BCloseMsg m)) \<Rightarrow>
         thenM (whenM (bc_Reason m = CloseReasonTransferComplete)
            (withFile sid (\<lambda>f. fsM (completeFile env f))))
           (finish env (pk 2) sid False 0)
     | Some _ \<Rightarrow> CloseStream env (pk 2) sid True CloseReasonUndefined)"

definition clientStep :: "'b Env \<Rightarrow> (nat \<Rightarrow> bool) \<Rightarrow> u16 \<Rightarrow> (BConn, unit) parser" where
  "clientStep env pk sid = bindM (getS sid) (\<lambda>s. case s_pc s of
       CAwaitResp \<Rightarrow> clientResp env pk sid
     | CReading \<Rightarrow> clientRead env pk sid
     | _ \<Rightarrow> returnM ())"

section \<open>Metadata\<close>

text \<open>
  The first part of \<open>ListFileMetaData\<close>: the request is registered and sent; \<open>ref\<close> is its new
  channel, from which \<open>collectResps\<close> takes the responses. The mutex is free unless the handler
  of the connection kept it.
\<close>

definition ListFileMetaData :: "'b Env \<Rightarrow> bool \<Rightarrow> nat \<Rightarrow> gostring \<Rightarrow> (BConn, unit) parser" where
  "ListFileMetaData env pick ref fileName = bindM (getM (\<lambda>c. c)) (\<lambda>c.
     if \<not> c_isClient c then failM ErrExpectedClientConnection
     else bindM (mapErrM (\<lambda>e. Errorf ''unable to encode MetaDataReq'' (Some e))
         (liftO (MetaReq_Encode (env_cb env) \<lparr>mq_FileName = fileName\<rparr>))) (\<lambda>data.
       if c_metaLocked c then (\<lambda>c. (Block, c))
       else thenM (modifyM (\<lambda>c. c\<lparr>c_metaRequests := c_metaRequests c @ [ref],
              c_metaChans := (c_metaChans c)(ref := [])\<rparr>))
         (bindM (selectCtrl pick data) (\<lambda>sent.
            if sent then returnM () else failM (New ''channel closed before MetaDataRequest finished'')))))"

text \<open>Without a request the handler leaves the case before it unlocks the mutex.\<close>

definition onMetaResp :: "MetaResp \<Rightarrow> (BConn, unit) parser" where
  "onMetaResp msg = (\<lambda>c. if c_metaLocked c then (Block, c)
     else case c_metaRequests c of
       [] \<Rightarrow> (Ok (), c\<lparr>c_metaLocked := True\<rparr>)
     | ref # rest \<Rightarrow> (Ok (), c\<lparr>c_metaChans := (c_metaChans c)(ref := c_metaChans c ref @ [msg]),
         c_metaRequests := (if length (mr_Items msg) < MaxMetaItemsNum then rest else ref # rest)\<rparr>))"

section \<open>The handler of the connection\<close>

definition forStream :: "'b Env \<Rightarrow> bool \<Rightarrow> u16 \<Rightarrow> BRFTMessage \<Rightarrow> (BConn, unit) parser" where
  "forStream env pick sid m = bindM (getM (getStream sid)) (\<lambda>s. case s of
       Some _ \<Rightarrow> pushIn sid m
     | None \<Rightarrow> sendClosePacket env pick sid CloseReasonUndefined)"

definition clientDispatch :: "'b Env \<Rightarrow> bool \<Rightarrow> BRFTMessage \<Rightarrow> (BConn, unit) parser" where
  "clientDispatch env pick m = (case m of
       BFileResp msg \<Rightarrow> forStream env pick (fp_StreamID msg) m
     | BDataMsg msg \<Rightarrow> forStream env pick (bd_StreamID msg) m
     | BCloseMsg msg \<Rightarrow> onClosePacket msg
     | BMetaResp msg \<Rightarrow> onMetaResp msg
     | _ \<Rightarrow> closeConn env)"

definition clientPass :: "'b Env \<Rightarrow> bool \<Rightarrow> (BConn, bool) parser" where
  "clientPass env pick = bindM (tryM (connM (readMsg Conn_Read))) (\<lambda>res. case res of
       Inr e \<Rightarrow> thenM (closeConn env) (returnM False)
     | Inl (m, h) \<Rightarrow> thenM (clientDispatch env pick m) (returnM True))"

end
