(* ===== verification/Brft_Steps.thy ===== *)
theory Brft_Steps
  imports Brft_Client
begin

text \<open>
  How the steps of the file transfer layer run: rules that evaluate them one operation at a
  time, the effect of the shared operations when nothing fails, and that \<open>Close\<close> waits for the
  goroutine that calls it.
\<close>

section \<open>Evaluating steps\<close>

lemma run_simps [simp]:
  "bindM (getM g) k c = k (g c) c"
  "bindM (modifyM h) k' c = k' () (h c)"
  "bindM (updS sid u) k' b = k' () (b\<lparr>c_streams := (c_streams b)(sid := u (c_streams b sid))\<rparr>)"
  "updS sid u b = (Ok (), b\<lparr>c_streams := (c_streams b)(sid := u (c_streams b sid))\<rparr>)"
  "modifyM h c = (Ok (), h c)"
  "getM g c = (Ok (g c), c)"
  by (simp_all add: bindM_def getM_def modifyM_def updS_def)

lemma returnM_run [simp]: "returnM x (c :: BConn) = (Ok x, c)"
  by (simp add: returnM_def)

lemma run_fs:
  "fsM m c = (case m (c_fs c) of (x, fs') \<Rightarrow> (x, c\<lparr>c_fs := fs'\<rparr>))"
  "bindM (fsM m) k c = (case m (c_fs c) of
     (Ok v, fs') \<Rightarrow> k v (c\<lparr>c_fs := fs'\<rparr>) | (Err e, fs') \<Rightarrow> (Err e, c\<lparr>c_fs := fs'\<rparr>)
   | (Block, fs') \<Rightarrow> (Block, c\<lparr>c_fs := fs'\<rparr>) | (Panic p, fs') \<Rightarrow> (Panic p, c\<lparr>c_fs := fs'\<rparr>))"
  "bindM (tryM (fsM m)) k' c = (case m (c_fs c) of
     (Ok v, fs') \<Rightarrow> k' (Inl v) (c\<lparr>c_fs := fs'\<rparr>) | (Err e, fs') \<Rightarrow> k' (Inr e) (c\<lparr>c_fs := fs'\<rparr>)
   | (Block, fs') \<Rightarrow> (Block, c\<lparr>c_fs := fs'\<rparr>) | (Panic p, fs') \<Rightarrow> (Panic p, c\<lparr>c_fs := fs'\<rparr>))"
  by (simp_all add: fsM_def zoomM_def bindM_def tryM_def split: prod.splits outcome.splits)

lemma bind_Ok: "m c = (Ok x, c') \<Longrightarrow> bindM m k c = k x c'"
  by (simp add: bindM_def)

lemma ignore_Ok: "m c = (x, c') \<Longrightarrow> (\<exists>v. x = Ok v) \<or> (\<exists>e. x = Err e) \<Longrightarrow> bindM (ignoreM m) k c = k () c'"
  by (auto simp: bindM_def ignoreM_def tryM_def returnM_def)

lemma liftO_run [simp]:
  "bindM (tryM (returnM x)) k c = k (Inl x) c"
  "bindM (tryM (liftO (Err e))) k c = k (Inr e) c"
  by (simp_all add: bindM_def tryM_def liftO_def returnM_def)

lemma withFile_Some [simp]: "s_f (c_streams c sid) = Some f \<Longrightarrow> withFile sid k c = k f c"
  by (simp add: withFile_def)

lemma select_open [simp]:
  assumes "\<not> c_close c" and "\<not> c_outClosed c"
  shows "bindM (selectData pick d) k c = k True (c\<lparr>c_outData := c_outData c @ [d]\<rparr>)"
    and "bindM (selectCtrl pick d) k c = k True (c\<lparr>c_outCtrl := c_outCtrl c @ [d]\<rparr>)"
  using assms by (simp_all add: bindM_def selectData_def selectCtrl_def)

lemma File_Close_same:
  assumes "File_Close f fs = (r, fs')"
  shows "fs_dir fs' = fs_dir fs \<and> fs_data fs' = fs_data fs \<and> fs_next fs' = fs_next fs \<and> fs_fault fs' = fs_fault fs
    \<and> ((\<exists>v. r = Ok v) \<or> (\<exists>e. r = Err e))"
  using assms unfolding File_Close_def os_Close_def fs_defs returnM_def Let_def
  by (auto split: option.splits if_splits)

lemma close_file:
  "\<exists>fs'. (\<forall>k :: unit \<Rightarrow> (BConn, unit) parser. bindM (ignoreM (fsM (File_Close f))) k c = k () (c\<lparr>c_fs := fs'\<rparr>)) \<and> fs_dir fs' = fs_dir (c_fs c)
    \<and> fs_data fs' = fs_data (c_fs c) \<and> fs_next fs' = fs_next (c_fs c) \<and> fs_fault fs' = fs_fault (c_fs c)"
proof -
  obtain r fs' where F: "File_Close f (c_fs c) = (r, fs')" by fastforce
  note S = File_Close_same [OF F]
  have "fsM (File_Close f) c = (r, c\<lparr>c_fs := fs'\<rparr>)" by (simp add: run_fs F)
  then have "bindM (ignoreM (fsM (File_Close f))) k c = k () (c\<lparr>c_fs := fs'\<rparr>)" for k :: "unit \<Rightarrow> (BConn, unit) parser"
    using S by (intro ignore_Ok [where m = "fsM (File_Close f)"]) auto
  with S show ?thesis by (intro exI [of _ fs']) simp
qed

lemma recv_next [simp]:
  assumes "\<not> c_close c" and "s_in (c_streams c sid) = m # ms"
  shows "bindM (recvIn pick sid) k c = k (Some (Some m)) (c\<lparr>c_streams := (c_streams c)(sid := (c_streams c sid)\<lparr>s_in := ms\<rparr>)\<rparr>)"
  using assms by (simp add: bindM_def recvIn_def Let_def)

lemma bind_withFile [simp]:
  "s_f (c_streams c sid) = Some f \<Longrightarrow> bindM (withFile sid g) k c = bindM (g f) k c"
  by (simp add: withFile_def)

lemma pushIn_run:
  "\<not> s_closed (c_streams c sid) \<Longrightarrow> pushIn sid m c =
     (Ok (), c\<lparr>c_streams := (c_streams c)(sid := (c_streams c sid)\<lparr>s_in := s_in (c_streams c sid) @ [m]\<rparr>)\<rparr>)"
  by (simp add: pushIn_def)

abbreviation dataMsg :: "u16 \<Rightarrow> byte list \<Rightarrow> BRFTMessage" where
  "dataMsg sid d \<equiv> BDataMsg \<lparr>bd_StreamID = sid, bd_Data = d\<rparr>"

abbreviation closeMsg :: "u16 \<Rightarrow> byte \<Rightarrow> BRFTMessage" where
  "closeMsg sid r \<equiv> BCloseMsg \<lparr>bc_StreamID = sid, bc_Reason = r\<rparr>"

definition calm :: "BConn \<Rightarrow> bool" where
  "calm c \<longleftrightarrow> healthy (c_fs c) \<and> \<not> c_close c \<and> \<not> c_outClosed c"

definition progressed :: "nat \<Rightarrow> nat \<Rightarrow> BStream \<Rightarrow> BStream" where
  "progressed a b s =
     (let s = s\<lparr>s_totalTransmitted := s_totalTransmitted s + of_nat a,
            s_totalPayloadTransmitted := s_totalPayloadTransmitted s + of_nat b\<rparr>;
          prog = (s_totalSize s, s_totalPayloadTransmitted s)
      in if length (s_progress s) < s_progressCap s then s\<lparr>s_progress := s_progress s @ [prog]\<rparr>
         else if s_progress s = [] then s else s\<lparr>s_progress := tl (s_progress s) @ [prog]\<rparr>)"

lemma progressed_fields [simp]:
  "s_f (progressed a b s) = s_f s" "s_pc (progressed a b s) = s_pc s" "s_chunkSize (progressed a b s) = s_chunkSize s"
  "s_comp (progressed a b s) = s_comp s" "s_closed (progressed a b s) = s_closed s" "s_in (progressed a b s) = s_in s"
  "s_totalPayloadTransmitted (progressed a b s) = s_totalPayloadTransmitted s + of_nat b"
  by (simp_all add: progressed_def Let_def)

lemma updateProgress_run:
  "\<not> s_closed (c_streams c sid) \<Longrightarrow> bindM (updateProgress sid a b) k c
    = k () (c\<lparr>c_streams := (c_streams c)(sid := progressed a b (c_streams c sid))\<rparr>)"
  by (simp add: updateProgress_def progressed_def Let_def if_distrib if_distribR)

lemma updateProgress_last:
  "\<not> s_closed (c_streams c sid) \<Longrightarrow> updateProgress sid a b c
    = (Ok (), c\<lparr>c_streams := (c_streams c)(sid := progressed a b (c_streams c sid))\<rparr>)"
  by (simp add: updateProgress_def progressed_def Let_def if_distrib if_distribR)

lemma close_waits:
  "0 < c_wg c \<Longrightarrow> bindM (ignoreM (BConn_Close env)) k c = (Block, c\<lparr>c_close := True\<rparr>)"
  by (simp add: bindM_def ignoreM_def tryM_def BConn_Close_def modifyM_def)

lemma File_Size_total: "\<exists>n f' fs'. File_Size f fs = (Ok (n, f'), fs')"
  unfolding File_Size_def os_Fstat_def fs_defs step_defs Let_def by (auto split: option.splits)

text \<open>A step that leaves the transport as it was but for the read timeout.\<close>

definition reset :: "Conn \<Rightarrow> Conn \<Rightarrow> bool" where
  "reset b b' \<longleftrightarrow> (\<exists>t. b' = b\<lparr>currentReadTimeout := t\<rparr>)"

lemma reset_simps [simp]: "reset b b" "reset b (SetReadTimeout t b)" "reset b (ResetReadTimeout b)"
proof -
  have "b = b\<lparr>currentReadTimeout := currentReadTimeout b\<rparr>" by simp
  then show "reset b b" unfolding reset_def by (rule exI)
qed (auto simp: reset_def SetReadTimeout_def ResetReadTimeout_def)

lemma reset_trans: "reset a b \<Longrightarrow> reset b c \<Longrightarrow> reset a c"
  by (auto simp: reset_def)

abbreviation retimed :: "BConn \<Rightarrow> BConn \<Rightarrow> bool" where
  "retimed c c' \<equiv> reset (c_conn c) (c_conn c')"

context cryptobyte_laws
begin

lemma sendClosePacket_run:
  "\<not> c_close c \<Longrightarrow> \<not> c_outClosed c \<Longrightarrow> env_cb env = cb \<Longrightarrow> sendClosePacket env pick sid r c =
     (Ok (), c\<lparr>c_outData := c_outData c @ [brft_wire (BCloseMsg \<lparr>bc_StreamID = sid, bc_Reason = r\<rparr>)]\<rparr>)"
  using BEncode_wire [of "BCloseMsg \<lparr>bc_StreamID = sid, bc_Reason = r\<rparr>"]
  by (simp add: sendClosePacket_def)

lemma sendClosePacket_any:
  assumes "env_cb env = cb" and "\<not> c_outClosed c"
  shows "\<exists>q. sendClosePacket env pick sid r c = (Ok (), c\<lparr>c_outData := q\<rparr>)"
proof -
  have "\<exists>q b. selectData pick d c = (Ok b, c\<lparr>c_outData := q\<rparr>)" for d
    using assms(2) by (auto simp: selectData_def intro: exI [of _ "c_outData c"])
  then obtain q b where S: "selectData pick (brft_wire (closeMsg sid r)) c = (Ok b, c\<lparr>c_outData := q\<rparr>)" by blast
  have "Close_Encode cb \<lparr>bc_StreamID = sid, bc_Reason = r\<rparr> = Ok (brft_wire (closeMsg sid r))"
    using BEncode_wire [of "closeMsg sid r"] by simp
  then show ?thesis using assms(1) S by (intro exI [of _ q]) (simp add: sendClosePacket_def bind_Ok)
qed

text \<open>Closing a stream on the server.\<close>

lemma finish_server:
  assumes "env_cb env = cb" and "\<not> c_isClient c" and "\<not> c_close c" and "\<not> c_outClosed c" and "\<not> s_closed (c_streams c sid)"
  shows "\<exists>fs b. finish env pick sid True r c = (Ok (), c\<lparr>c_table := c_table c - {sid}, c_fs := fs,
      c_streams := (c_streams c)(sid := (c_streams c sid)\<lparr>s_closed := True, s_pc := Returned\<rparr>),
      c_outData := c_outData c @ [brft_wire (BCloseMsg \<lparr>bc_StreamID = sid, bc_Reason = r\<rparr>)],
      c_conn := b, c_wg := c_wg c - 1\<rparr>) \<and> fs_dir fs = fs_dir (c_fs c) \<and> fs_data fs = fs_data (c_fs c)
    \<and> retimed c (c\<lparr>c_conn := b\<rparr>)"
proof -
  let ?c = "c\<lparr>c_table := c_table c - {sid}\<rparr>"
  obtain fs' where F: "\<And>k :: unit \<Rightarrow> (BConn, unit) parser. bindM (ignoreM (fsM (File_Close (s_f (c_streams c sid))))) k ?c = k () (?c\<lparr>c_fs := fs'\<rparr>)"
    "fs_dir fs' = fs_dir (c_fs c)" "fs_data fs' = fs_data (c_fs c)"
    using close_file [of "s_f (c_streams c sid)" ?c] by auto
  show ?thesis
    using assms F(2,3)
    by (intro exI [of _ fs'] exI [of _ "if c_table c \<subseteq> {sid} then ResetReadTimeout (c_conn c) else c_conn c"])
      (simp add: finish_def CloseStream_def F whenM_def bind_Ok [OF sendClosePacket_run])
qed

end

end
