(* ===== verification/Brft_Invariants.thy ===== *)
theory Brft_Invariants
  imports Brft_Steps
begin

text \<open>
  Invariants of the steps of the file transfer layer when the system may fail at any call: rules
  for what a step keeps, the locale step_invariant for properties that the shared steps of both
  sides keep, all runs of a server connection, and what a reading client does to its files.
\<close>

section \<open>What a step keeps, whatever its outcome\<close>

definition keeps :: "('r \<Rightarrow> bool) \<Rightarrow> ('r, 'a) parser \<Rightarrow> bool" where
  "keeps P m \<longleftrightarrow> guards P m (\<lambda>_. P) P"

named_theorems keeping \<open>rules for what steps keep\<close>

lemma keeps_alt: "keeps P m \<longleftrightarrow> (\<forall>r x r'. P r \<longrightarrow> m r = (x, r') \<longrightarrow> P r')"
proof -
  have "(case x of Ok v \<Rightarrow> P r' | _ \<Rightarrow> P r') = P r'" for x :: "'b outcome" and r' by (cases x) simp_all
  then show ?thesis by (simp add: keeps_def guards_def)
qed

lemma keepsI: "(\<And>r x r'. P r \<Longrightarrow> m r = (x, r') \<Longrightarrow> P r') \<Longrightarrow> keeps P m"
  by (simp add: keeps_alt)

lemma keepsD: "keeps P m \<Longrightarrow> P r \<Longrightarrow> m r = (x, r') \<Longrightarrow> P r'"
  by (simp add: keeps_alt)

lemma keeps_bind [keeping]: "keeps P m \<Longrightarrow> (\<And>x. keeps P (k x)) \<Longrightarrow> keeps P (bindM m k)"
  unfolding keeps_def by (rule guards_bind)

lemma keeps_try [keeping]: "keeps P m \<Longrightarrow> keeps P (tryM m)"
  unfolding keeps_def by (rule guards_try) (rule guards_weaken, assumption+, simp_all)

lemma keeps_basic [keeping]:
  "keeps P (returnM x)" "keeps P (failM e)" "keeps P (panicM p)" "keeps P (getM f)" "keeps P (liftO v)"
  "keeps P (\<lambda>c. (y, c))"
  by (auto simp: keeps_alt step_defs liftO_def split: outcome.splits)

lemma keeps_tryO:
  "(\<And>v. x = Ok v \<Longrightarrow> keeps P (k (Inl v))) \<Longrightarrow> (\<And>e. keeps P (k (Inr e))) \<Longrightarrow> keeps P (bindM (tryM (liftO x)) k)"
proof -
  assume k: "\<And>v. x = Ok v \<Longrightarrow> keeps P (k (Inl v))" "\<And>e. keeps P (k (Inr e))"
  have e: "bindM (tryM (liftO x)) k = (case x of Ok v \<Rightarrow> k (Inl v) | Err e \<Rightarrow> k (Inr e) | Block \<Rightarrow> (\<lambda>r. (Block, r))
      | Panic p \<Rightarrow> (\<lambda>r. (Panic p, r)))"
    by (rule ext) (simp add: bindM_def tryM_def liftO_def returnM_def split: outcome.split)
  show ?thesis unfolding e using k by (cases x) (auto intro: keeps_basic)
qed

lemma keeps_ignore [keeping]: "keeps P m \<Longrightarrow> keeps P (ignoreM m)"
  unfolding ignoreM_def by (intro keeping)

lemma keeps_mapErr [keeping]: "keeps P m \<Longrightarrow> keeps P (mapErrM g m)"
  unfolding keeps_def by (rule guards_mapErr)

lemma keeps_if [keeping]: "(b \<Longrightarrow> keeps P m) \<Longrightarrow> (\<not> b \<Longrightarrow> keeps P n) \<Longrightarrow> keeps P (if b then m else n)"
  by simp

lemma keeps_when [keeping]: "(b \<Longrightarrow> keeps P m) \<Longrightarrow> keeps P (whenM b m)"
  by (simp add: whenM_def keeping)

lemma keeps_modify [keeping]: "(\<And>r. P r \<Longrightarrow> P (f r)) \<Longrightarrow> keeps P (modifyM f)"
  by (auto simp: keeps_alt modifyM_def)

lemma keeps_option [keeping]:
  "(x = None \<Longrightarrow> keeps P a) \<Longrightarrow> (\<And>y. x = Some y \<Longrightarrow> keeps P (b y)) \<Longrightarrow> keeps P (case x of None \<Rightarrow> a | Some y \<Rightarrow> b y)"
  by (cases x) simp_all

lemma keeps_sum [keeping]:
  "(\<And>y. x = Inl y \<Longrightarrow> keeps P (a y)) \<Longrightarrow> (\<And>y. x = Inr y \<Longrightarrow> keeps P (b y)) \<Longrightarrow> keeps P (case x of Inl y \<Rightarrow> a y | Inr y \<Rightarrow> b y)"
  by (cases x) simp_all

lemma keeps_prod [keeping]: "(\<And>y z. x = (y, z) \<Longrightarrow> keeps P (f y z)) \<Longrightarrow> keeps P (case x of (y, z) \<Rightarrow> f y z)"
  by (cases x) simp

lemma keeps_msg [keeping]:
  assumes "\<And>v. m = BFileReq v \<Longrightarrow> keeps P (a1 v)" "\<And>v. m = BFileResp v \<Longrightarrow> keeps P (a2 v)" "\<And>v. m = BDataMsg v \<Longrightarrow> keeps P (a3 v)"
    "\<And>v. m = BStart v \<Longrightarrow> keeps P (a4 v)" "\<And>v. m = BCloseMsg v \<Longrightarrow> keeps P (a5 v)" "\<And>v. m = BMetaReq v \<Longrightarrow> keeps P (a6 v)"
    "\<And>v. m = BMetaResp v \<Longrightarrow> keeps P (a7 v)"
  shows "keeps P (case_BRFTMessage a1 a2 a3 a4 a5 a6 a7 m)"
  using assms by (cases m) simp_all

lemma keeps_pc [keeping]:
  assumes "keeps P a1" "keeps P a2" "keeps P a3" "keeps P a4" "keeps P a5" "keeps P a6"
  shows "keeps P (case_pc a1 a2 a3 a4 a5 a6 s)"
  using assms by (cases s) simp_all

lemma keeps_bool [keeping]: "keeps P a \<Longrightarrow> keeps P b \<Longrightarrow> keeps P (case x of True \<Rightarrow> a | False \<Rightarrow> b)"
  by (cases x) simp_all

lemma keeps_zoom:
  assumes "keeps Q m" and "\<And>c. P c \<Longrightarrow> Q (get c)" and "\<And>c s. P c \<Longrightarrow> Q s \<Longrightarrow> P (upd s c)"
  shows "keeps P (zoomM get upd m)"
proof (rule keepsI)
  fix c x c' assume c: "P c" "zoomM get upd m c = (x, c')"
  obtain s where "m (get c) = (x, s)" "c' = upd s c" using c(2) by (auto simp: zoomM_def split: prod.splits)
  with c(1) assms keepsD [OF assms(1)] show "P c'" by metis
qed

text \<open>A call of the system whose result the rest of the step depends on.\<close>

lemma keeps_call:
  assumes "\<And>c y fs. P c \<Longrightarrow> m (c_fs c) = (y, fs) \<Longrightarrow>
      P (c\<lparr>c_fs := fs\<rparr>) \<and> (\<forall>v. y = Ok v \<longrightarrow> Q v)"
    and "\<And>e. keeps (P) (k (Inr e))"
    and "\<And>v. Q v \<Longrightarrow> keeps (P) (k (Inl v))"
  shows "keeps (P) (bindM (tryM (fsM m)) k)"
proof (rule keepsI)
  fix c x c' assume I: "P c" and r: "bindM (tryM (fsM m)) k c = (x, c')"
  obtain y fs where O: "m (c_fs c) = (y, fs)" by fastforce
  note A = assms(1) [OF I O]
  show "P c'"
  proof (cases y)
    case (Ok v)
    with A have "keeps (P) (k (Inl v))" using assms(3) by blast
    from keepsD [OF this] A r O Ok show ?thesis by (auto simp: run_fs)
  next
    case (Err e)
    from keepsD [OF assms(2)] A r O Err show ?thesis by (auto simp: run_fs)
  qed (use r O A in \<open>auto simp: run_fs\<close>)
qed

section \<open>Files\<close>

text \<open>Names and contents are the same, and no descriptor is new or points to another inode.\<close>

definition unchanged :: "FS \<Rightarrow> FS \<Rightarrow> bool" where
  "unchanged fs0 fs \<longleftrightarrow> fs_dir fs = fs_dir fs0 \<and> fs_data fs = fs_data fs0
     \<and> (\<forall>fd i p. fs_fds fs fd = Some (i, p) \<longrightarrow> (\<exists>p0. fs_fds fs0 fd = Some (i, p0)))"

lemma unchanged_refl [simp]: "unchanged fs fs"
  by (simp add: unchanged_def)

lemma keeps_os:
  "keeps (unchanged fs0) (os_Read h n)" "keeps (unchanged fs0) (os_SeekStart h k)" "keeps (unchanged fs0) (os_Fstat h)"
  "keeps (unchanged fs0) (os_Close h)" "keeps (unchanged fs0) (os_Stat name)" "keeps (unchanged fs0) (io_ReadAll h)"
  unfolding keeps_alt unchanged_def os_defs fs_defs step_defs Let_def
  by (auto split: option.splits if_splits)

lemma keeps_unchanged [keeping]:
  "keeps (unchanged fs0) (File_Close f)" "keeps (unchanged fs0) (File_Read g n)" "keeps (unchanged fs0) (File_Size g)"
  "keeps (unchanged fs0) (SeekOffset g off)"
proof -
  show "keeps (unchanged fs0) (File_Size g)"
    unfolding File_Size_def Let_def by (intro keeping keeps_os)
  then show "keeps (unchanged fs0) (SeekOffset g off)"
    unfolding SeekOffset_def by (intro keeping keeps_os)
  show "keeps (unchanged fs0) (File_Close f)" "keeps (unchanged fs0) (File_Read g n)"
    unfolding File_Close_def File_Read_def by (intro keeping keeps_os)+
qed

lemma OpenFile_descriptors:
  assumes "OpenFile sha name fs = (r, fs')"
  shows "\<forall>fd i p. fs_fds fs' fd = Some (i, p) \<longrightarrow>
    (\<exists>p0. fs_fds fs fd = Some (i, p0)) \<or> fileRegex name \<and> fs_dir fs name = Some i"
  using assms
  unfolding OpenFile_def os_Stat_def os_Open_def os_SeekStart_def os_Fstat_def ComputeChecksum_def io_ReadAll_def
    fs_defs step_defs Let_def
  by (auto split: option.splits if_splits)

section \<open>Invariants of the shared steps\<close>

text \<open>The encodings of close packets.\<close>

definition closes :: "'b Env \<Rightarrow> byte list set" where
  "closes env = {b. \<exists>m. Close_Encode (env_cb env) m = Ok b}"

text \<open>
  What a property of a connection needs so that the steps both sides share keep it: it reads
  only the files, names and pending messages of the streams, the system below, the queue of data,
  and which side this is; it allows close packets in that queue and messages that are \<open>fine\<close>; and
  it is kept when the system changes as \<open>same\<close> says, which closing a file has to keep to.
\<close>

locale step_invariant =
  fixes env :: "'b Env" and I :: "BConn \<Rightarrow> bool" and same :: "FS \<Rightarrow> FS \<Rightarrow> bool" and fine :: "BRFTMessage \<Rightarrow> bool"
  assumes other: "I (c\<lparr>c_conn := b\<rparr>) = I c" "I (c\<lparr>c_table := t\<rparr>) = I c" "I (c\<lparr>c_wg := n\<rparr>) = I c"
      "I (c\<lparr>c_close := z\<rparr>) = I c" "I (c\<lparr>c_outClosed := z\<rparr>) = I c" "I (c\<lparr>c_outCtrl := q\<rparr>) = I c"
    and queue: "I c \<Longrightarrow> set q \<subseteq> set (c_outData c) \<union> closes env \<Longrightarrow> I (c\<lparr>c_outData := q\<rparr>)"
    and files: "I c \<Longrightarrow> same (c_fs c) fs \<Longrightarrow> I (c\<lparr>c_fs := fs\<rparr>)"
    and same_refl: "same fs fs" and same_close: "keeps (same fs0) (File_Close f)"
    and streams: "I c \<Longrightarrow> s_f s = s_f (c_streams c sid) \<Longrightarrow> s_fileName s = s_fileName (c_streams c sid) \<Longrightarrow>
      (\<forall>m \<in> set (s_in s). m \<in> set (s_in (c_streams c sid)) \<or> fine m) \<Longrightarrow> I (c\<lparr>c_streams := (c_streams c)(sid := s)\<rparr>)"
begin

lemma fs: "(\<And>fs0. keeps (same fs0) m) \<Longrightarrow> keeps I (fsM m)"
proof (rule keepsI)
  fix c x c' assume m: "\<And>fs0. keeps (same fs0) m" and I: "I c" and r: "fsM m c = (x, c')"
  obtain fs where fs: "m (c_fs c) = (x, fs)" "c' = c\<lparr>c_fs := fs\<rparr>" using r by (auto simp: run_fs split: prod.splits)
  from keepsD [OF m same_refl fs(1)] I fs(2) show "I c'" by (simp add: files)
qed

lemma upd: "(\<And>s. s_f (u s) = s_f s \<and> s_fileName (u s) = s_fileName s \<and> s_in (u s) = s_in s) \<Longrightarrow> keeps I (updS sid u)"
  unfolding updS_def by (rule keeps_modify) (simp add: streams)

lemma basic:
  "keeps I (BConn_Close env')" "keeps I (recvIn pick sid)" "keeps I (selectCtrl pick d)"
  by (auto simp: keeps_alt BConn_Close_def recvIn_def selectCtrl_def bindM_def modifyM_def Let_def
      other streams split: if_splits list.splits prod.splits)

lemma modify:
  "keeps I (modifyM (\<lambda>c. c\<lparr>c_table := g c\<rparr>))" "keeps I (modifyM (\<lambda>c. c\<lparr>c_wg := n c\<rparr>))"
  "keeps I (modifyM (\<lambda>c. c\<lparr>c_conn := h c\<rparr>))"
  by (rule keeps_modify, simp add: other)+

lemma transport: "keeps I (connM m)"
  unfolding connM_def zoomM_def by (rule keepsI) (auto simp: other split: prod.splits)

lemmas kept = keeping fs upd basic modify same_close

lemma sendClose: "keeps I (sendClosePacket env pick sid r)"
proof -
  have "keeps I (selectData pick b)" if "b \<in> closes env" for b
    using that by (auto simp: keeps_alt selectData_def queue split: if_splits)
  then show ?thesis
    unfolding sendClosePacket_def closes_def liftO_def
    by (cases "Close_Encode (env_cb env) \<lparr>bc_StreamID = sid, bc_Reason = r\<rparr>")
      (auto simp: keeps_alt bindM_def tryM_def returnM_def split: prod.splits outcome.splits)
qed

lemma fin: "keeps I (finish env pick sid b r)"
  unfolding finish_def CloseStream_def by (intro kept sendClose; simp)

lemma closing: "keeps I (CloseStream env pick sid b r)"
  unfolding CloseStream_def by (intro kept sendClose; simp)

lemma push: "fine m \<Longrightarrow> keeps I (pushIn sid m)"
  unfolding pushIn_def updS_def by (intro kept keeps_modify; simp add: streams)

lemma progress: "keeps I (updateProgress sid a b)"
  unfolding updateProgress_def Let_def by (intro kept; simp)

lemma writes: "keeps I (writeOut env' msg)"
proof (rule keepsI)
  fix c x c' assume I: "I c" and r: "writeOut env' msg c = (x, c')"
  have "keeps I (thenM (ignoreM (BConn_Close env')) (failM e :: (BConn, unit) parser))" for e
    by (intro kept)
  note K = keepsD [OF this]
  from I r show "I c'"
    by (auto simp: writeOut_def other split: option.splits prod.splits outcome.splits dest!: K [rotated])
qed

lemma sends: "keeps I (sendMessages env' pick)"
proof (rule keepsI)
  fix c x c' assume I: "I c" and r: "sendMessages env' pick c = (x, c')"
  have "keeps I (thenM (writeOut env' msg) (returnM True))" for msg by (intro kept writes)
  note K = keepsD [OF this]
  have "I (c\<lparr>c_outData := q\<rparr>)" if "c_outData c = b # q" for b q using that I by (auto intro: queue)
  with I r show "I c'"
    by (auto simp: sendMessages_def other split: if_splits list.splits dest!: K [rotated])
qed

lemmas kept_ops = kept sendClose fin closing progress

end

section \<open>A server\<close>

text \<open>
  A file opened by the server: its name is confined to the directory, its checksum and its size
  are those of the content of that name.
\<close>

definition served :: "(byte list \<Rightarrow> byte list) \<Rightarrow> FS \<Rightarrow> File \<Rightarrow> bool" where
  "served sha fs f \<longleftrightarrow> \<not> isClientFile f \<and> fileRegex (f_name f)
     \<and> (\<exists>F. stored fs (f_name f) = Some F \<and> f_checksum f = sha F \<and> f_stat f = length F)"

text \<open>A piece of a file with such a name, and the data packets that carry one.\<close>

definition piece :: "FS \<Rightarrow> byte list \<Rightarrow> bool" where
  "piece fs x \<longleftrightarrow> (\<exists>name F k n. fileRegex name \<and> stored fs name = Some F \<and> x = take n (drop k F))"

definition pieces :: "'b Env \<Rightarrow> FS \<Rightarrow> byte list set" where
  "pieces env fs = {b. \<exists>m x. Data_Encode (env_cb env) m = Ok b \<and> piece fs x
     \<and> (bd_Data m = x \<or> env_compress env x = Ok (bd_Data m))}"

definition confined :: "FS \<Rightarrow> bool" where
  "confined fs \<longleftrightarrow> (\<forall>fd i p. fs_fds fs fd = Some (i, p) \<longrightarrow> (\<exists>name. fileRegex name \<and> fs_dir fs name = Some i))"

definition server_inv :: "'b Env \<Rightarrow> FS \<Rightarrow> BConn \<Rightarrow> bool" where
  "server_inv env fs0 c \<longleftrightarrow> \<not> c_isClient c
     \<and> fs_dir (c_fs c) = fs_dir fs0 \<and> fs_data (c_fs c) = fs_data fs0 \<and> confined (c_fs c)
     \<and> set (c_outData c) \<subseteq> closes env \<union> pieces env fs0
     \<and> (\<forall>sid f. s_f (c_streams c sid) = Some f \<longrightarrow> served (env_sha env) fs0 f)"

lemma confined_unchanged: "confined fs \<Longrightarrow> unchanged fs fs' \<Longrightarrow> confined fs'"
  unfolding confined_def unchanged_def by metis

interpretation srv: step_invariant env "server_inv env fs0" unchanged "\<lambda>_. True"
proof unfold_locales
  fix c fs assume "server_inv env fs0 c" "unchanged (c_fs c) fs"
  then show "server_inv env fs0 (c\<lparr>c_fs := fs\<rparr>)"
    using confined_unchanged [of "c_fs c" fs] by (simp add: server_inv_def unchanged_def)
qed (auto simp: server_inv_def keeps_unchanged split: if_splits)

lemma keeps_server_file:
  "(\<And>f. served (env_sha env) fs0 f \<Longrightarrow> keeps (server_inv env fs0) (k f)) \<Longrightarrow> keeps (server_inv env fs0) (withFile sid k)"
proof (rule keepsI)
  fix c x c' assume k: "\<And>f. served (env_sha env) fs0 f \<Longrightarrow> keeps (server_inv env fs0) (k f)"
    and I: "server_inv env fs0 c" and r: "withFile sid k c = (x, c')"
  show "server_inv env fs0 c'"
  proof (cases "s_f (c_streams c sid)")
    case (Some f)
    then have "served (env_sha env) fs0 f" using I by (auto simp: server_inv_def)
    with k I r Some show ?thesis by (auto dest: keepsD)
  qed (use I r in \<open>simp add: withFile_def panicM_def\<close>)
qed

lemma keeps_server_spawn: "keeps (server_inv env fs0) (spawn sid (newServerStream c0 m))"
  by (auto simp: keeps_alt spawn_def newServerStream_def modifyM_def server_inv_def split: if_splits)

lemma keeps_server_size: "keeps (server_inv env fs0) (fileSize sid)"
  unfolding fileSize_def
proof (rule keeps_server_file, rule keepsI)
  fix f c x c' assume f: "served (env_sha env) fs0 f" and I: "server_inv env fs0 c"
    and r: "bindM (fsM (File_Size f)) (\<lambda>(n, f'). thenM (updS sid (\<lambda>s. s\<lparr>s_f := Some f'\<rparr>)) (returnM n)) c = (x, c')"
  have "\<not> isClientFile f" using f by (simp add: served_def)
  with r I f show "server_inv env fs0 c'"
    by (auto simp: run_fs File_Size_server server_inv_def split: if_splits)
qed

lemmas keeps_server_ops = srv.kept_ops srv.push [OF TrueI] keeps_server_file keeps_server_spawn keeps_server_size

lemma keeps_server_open:
  assumes "\<And>e. keeps (server_inv env fs0) (k (Inr e))"
    and "\<And>f. served (env_sha env) fs0 f \<Longrightarrow> keeps (server_inv env fs0) (k (Inl f))"
  shows "keeps (server_inv env fs0) (bindM (tryM (fsM (OpenFile (env_sha env) name))) k)"
proof (rule keeps_call [OF _ assms])
  fix c y fs assume I: "server_inv env fs0 c" and O: "OpenFile (env_sha env) name (c_fs c) = (y, fs)"
  note F = OpenFile_reads [OF O]
  from I F OpenFile_descriptors [OF O] have "confined fs"
    unfolding server_inv_def confined_def by metis
  with I F show "server_inv env fs0 (c\<lparr>c_fs := fs\<rparr>) \<and> (\<forall>f. y = Ok f \<longrightarrow> served (env_sha env) fs0 f)"
    by (auto simp: server_inv_def served_def stored_def)
qed

lemma File_Read_data:
  assumes "File_Read f n fs = (Ok bs, fs')"
  shows "\<exists>i p. fs_fds fs (f_fd f) = Some (i, p) \<and> bs = take n (drop p (fs_data fs i))"
  using assms unfolding File_Read_def os_Read_def fs_defs step_defs Let_def
  by (auto split: option.splits if_splits)

lemma keeps_server_read:
  assumes "\<And>e. keeps (server_inv env fs0) (k (Inr e))"
    and "\<And>bs. piece fs0 bs \<Longrightarrow> keeps (server_inv env fs0) (k (Inl bs))"
  shows "keeps (server_inv env fs0) (bindM (tryM (fsM (File_Read f n))) k)"
proof (rule keeps_call [OF _ assms])
  fix c y fs assume I: "server_inv env fs0 c" and O: "File_Read f n (c_fs c) = (y, fs)"
  have "piece fs0 bs" if y: "y = Ok bs" for bs
  proof -
    obtain i p where "fs_fds (c_fs c) (f_fd f) = Some (i, p)" "bs = take n (drop p (fs_data (c_fs c) i))"
      using File_Read_data [OF O [unfolded y]] by blast
    with I show ?thesis by (fastforce simp: server_inv_def confined_def piece_def stored_def)
  qed
  moreover have "unchanged (c_fs c) fs" by (rule keepsD [OF keeps_unchanged(2) unchanged_refl O])
  ultimately show "server_inv env fs0 (c\<lparr>c_fs := fs\<rparr>) \<and> (\<forall>bs. y = Ok bs \<longrightarrow> piece fs0 bs)"
    using I by (simp add: srv.files)
qed

lemma keeps_server_set: "served (env_sha env) fs0 f \<Longrightarrow>
    keeps (server_inv env fs0) (updS sid (\<lambda>s. s\<lparr>s_f := Some f, s_fileName := n, s_requestedChecksum := cs\<rparr>))"
  unfolding updS_def by (rule keeps_modify) (auto simp: server_inv_def)

lemma keeps_serverAnswer: "keeps (server_inv env fs0) (serverAnswer env pk sid req f n)"
  unfolding serverAnswer_def by (intro keeps_server_ops; simp)

lemma keeps_serverReq: "keeps (server_inv env fs0) (serverReq env pk sid)"
  unfolding serverReq_def serverNegotiate_def
  by (intro keeps_server_open keeps_server_set keeps_server_ops keeps_serverAnswer; simp add: srv.fin keeps_server_set)

lemma keeps_serverStart: "keeps (server_inv env fs0) (serverStart env pk sid)"
  unfolding serverStart_def by (intro keeps_server_ops; simp)

lemma keeps_sendChunk:
  assumes "piece fs0 x" and "d = x \<or> env_compress env x = Ok d"
  shows "keeps (server_inv env fs0) (sendChunk env pk sid d l z)"
proof -
  have "keeps (server_inv env fs0) (selectData pick b)" if "Data_Encode (env_cb env) \<lparr>bd_StreamID = sid, bd_Data = d\<rparr> = Ok b" for pick b
    using that assms by (fastforce simp: keeps_alt selectData_def server_inv_def pieces_def split: if_splits)
  moreover have "keeps (server_inv env fs0) (if \<not> sent then finish env (pk 2) sid False 0
       else thenM (updateProgress sid (length d) l) (whenM z (finish env (pk 2) sid True CloseReasonTransferComplete)))" for sent
    by (intro keeps_server_ops)
  ultimately show ?thesis
    unfolding sendChunk_def by (intro keeps_tryO) (auto intro: srv.fin keeps_bind)
qed

lemma keeps_serverChunk: "keeps (server_inv env fs0) (serverChunk env pk sid)"
  unfolding serverChunk_def Let_def
proof (rule keeps_bind [OF keeps_basic(4)], rule keeps_server_file, rule keeps_server_read)
  fix s bs assume p: "piece fs0 bs"
  have "keeps (server_inv env fs0) (if s_comp s
      then bindM (tryM (liftO (env_compress env bs))) (\<lambda>z. case z of
          Inl d \<Rightarrow> sendChunk env pk sid d (length bs) (length bs < nat (s_chunkSize s))
        | Inr e \<Rightarrow> finish env (pk 2) sid True CloseReasonUndefined)
      else sendChunk env pk sid bs (length bs) (length bs < nat (s_chunkSize s)))"
    by (intro keeps_if keeps_tryO) (simp_all add: srv.fin keeps_sendChunk [OF p])
  then show "keeps (server_inv env fs0) (case Inl bs of
       Inr (e :: go_error) \<Rightarrow> finish env (pk 2) sid True CloseReasonUndefined
     | Inl bs \<Rightarrow> (if s_comp s
         then bindM (tryM (liftO (env_compress env bs))) (\<lambda>z. case z of
             Inr e \<Rightarrow> finish env (pk 2) sid True CloseReasonUndefined
           | Inl d \<Rightarrow> sendChunk env pk sid d (length bs) (length bs < nat (s_chunkSize s)))
         else sendChunk env pk sid bs (length bs) (length bs < nat (s_chunkSize s))))"
    by simp
qed (simp add: srv.fin)

lemma keeps_serverStep: "keeps (server_inv env fs0) (serverStep env pk sid)"
  unfolding serverStep_def by (intro keeps_server_ops keeps_serverReq keeps_serverStart keeps_serverChunk)

lemma keeps_sendMetaResps: "keeps (server_inv env fs0) (sendMetaResps env pick rs)"
  by (induction rs) (auto intro!: srv.kept)

lemma keeps_serverDispatch: "keeps (server_inv env fs0) (serverDispatch env pick listing m)"
  unfolding serverDispatch_def serverOnFileReq_def serverOnStart_def onClosePacket_def handleMetaDataReq_def
    sendEmptyResponse_def closeConn_def Let_def
  by (intro keeps_server_open keeps_server_ops keeps_sendMetaResps; simp)

lemma keeps_serverPass: "keeps (server_inv env fs0) (serverPass env pick listing)"
  unfolding serverPass_def closeConn_def by (intro keeps_server_ops keeps_serverDispatch srv.transport)

text \<open>
  A server connection over time: messages, whatever they are, or what the transport has to read,
  steps of the streams and of the sender, and changes of the transport below, in any order. What
  a step that waits or panics has done is also a state.
\<close>

inductive server_run :: "'b Env \<Rightarrow> BConn \<Rightarrow> BConn \<Rightarrow> bool" for env where
  run_start: "server_run env c c"
| run_message: "server_run env c c1 \<Longrightarrow> serverDispatch env pick listing m c1 = (r, c2) \<Longrightarrow> server_run env c c2"
| run_pass: "server_run env c c1 \<Longrightarrow> serverPass env pick listing c1 = (r', c2) \<Longrightarrow> server_run env c c2"
| run_stream: "server_run env c c1 \<Longrightarrow> serverStep env pk sid c1 = (r, c2) \<Longrightarrow> server_run env c c2"
| run_sender: "server_run env c c1 \<Longrightarrow> sendMessages env pick c1 = (r', c2) \<Longrightarrow> server_run env c c2"
| run_transport: "server_run env c c1 \<Longrightarrow> server_run env c (c1\<lparr>c_conn := b\<rparr>)"

lemma server_run_inv:
  assumes "server_run env c c'" and "server_inv env fs0 c"
  shows "server_inv env fs0 c'"
  using assms
proof induction
  case (run_message c c1 pick listing m r c2)
  then show ?case using keepsD [OF keeps_serverDispatch] by metis
next
  case (run_pass c c1 pick listing r' c2)
  then show ?case using keepsD [OF keeps_serverPass] by metis
next
  case (run_stream c c1 pk sid r c2)
  then show ?case using keepsD [OF keeps_serverStep] by metis
next
  case (run_sender c c1 pick r' c2)
  then show ?case using keepsD [OF srv.sends] by metis
qed (simp_all add: srv.other)

section \<open>A client that reads\<close>

text \<open>
  Compared with the names \<open>D\<close> and contents \<open>d\<close> of before: other names lead to what they led to
  and other contents are the same; the name of the file was not touched, or it was removed since
  its content does not have the checksum, or it leads to a copy of the content, which has it.
\<close>

definition verified :: "(byte list \<Rightarrow> byte list) \<Rightarrow> gostring \<Rightarrow> File \<Rightarrow> (gostring \<rightharpoonup> nat) \<Rightarrow> (nat \<Rightarrow> byte list) \<Rightarrow> nat \<Rightarrow> nat \<Rightarrow> FS \<Rightarrow> bool" where
  "verified sha tmp f D d N i fs \<longleftrightarrow>
     (\<forall>n. n \<noteq> tmp \<longrightarrow> n \<noteq> f_name f \<longrightarrow> fs_dir fs n = D n) \<and> (\<forall>j < N. j \<noteq> i \<longrightarrow> fs_data fs j = d j)
     \<and> (fs_dir fs (f_name f) = D (f_name f)
       \<or> fs_dir fs (f_name f) = None \<and> sha (drop 37 (d i)) \<noteq> f_checksum f
       \<or> (\<exists>j. fs_dir fs (f_name f) = Some j \<and> fs_data fs j = drop 37 (d i) \<and> sha (drop 37 (d i)) = f_checksum f))"

lemma verified_opened: "opened D d N f' i at fs \<Longrightarrow> verified sha tmp f D d N i fs"
  by (simp add: opened_def verified_def)

lemma verified_unchanged: "verified sha tmp f D d N i fs \<Longrightarrow> unchanged fs fs' \<Longrightarrow> verified sha tmp f D d N i fs'"
  by (simp add: verified_def unchanged_def)

lemma guards_completeFile:
  assumes "env_tmp env \<noteq> f_name f" and "f_fd f < N" and "i < N"
  shows "guards (opened D d N (f_fd f) i anywhere) (completeFile env f)
    (\<lambda>_. verified (env_sha env) (env_tmp env) f D d N i) (verified (env_sha env) (env_tmp env) f D d N i)"
proof -
  let ?V = "verified (env_sha env) (env_tmp env) f D d N i" and ?O = "opened D d N (f_fd f) i anywhere"
  let ?ok = "env_sha env (drop 37 (d i)) = f_checksum f"
  have check: "guards ?O (tryM (CheckChecksum (env_sha env) f))
      (\<lambda>res s. ?O s \<and> (\<forall>b. res = Inl b \<longrightarrow> (b \<longleftrightarrow> ?ok))) ?V"
    by (rule guards_try, rule guards_weaken [OF guards_CheckChecksum]) (auto intro: verified_opened)
  have remove: "guards (\<lambda>s. ?O s \<and> \<not> ?ok) (ignoreM (File_Remove (Some f))) (\<lambda>_. ?V) ?V"
    if "\<not> ?ok"
    by (rule guards_ignore [where R = ?V], rule guards_weaken [OF guards_Remove [where D = D and d = d and N = N and i = i]])
      (use that in \<open>auto simp: verified_def\<close>)
  have strip: "guards (\<lambda>s. ?O s \<and> ?ok) (ignoreM (StripChecksum (env_tmp env) f)) (\<lambda>_. ?V) ?V" if ?ok
    by (rule guards_ignore [where R = ?V], rule guards_weaken [OF guards_StripChecksum [OF assms, where D = D and d = d]])
      (use that in \<open>auto simp: verified_def published_def\<close>)
  show ?thesis
    unfolding completeFile_def
  proof (rule guards_bind [OF check])
    fix res
    show "guards (\<lambda>s. ?O s \<and> (\<forall>b. res = Inl b \<longrightarrow> (b \<longleftrightarrow> ?ok)))
        (case res of Inl True \<Rightarrow> ignoreM (StripChecksum (env_tmp env) f) | Inl False \<Rightarrow> ignoreM (File_Remove (Some f))
          | Inr e \<Rightarrow> returnM ()) (\<lambda>_. ?V) ?V"
    proof (cases res)
      case (Inl b)
      then show ?thesis
        using remove strip by (cases b; cases ?ok) (auto simp: guards_def)
    qed (auto intro!: guards_return intro: verified_opened)
  qed
qed

interpretation vfs: step_invariant env "\<lambda>c. verified sha tmp f D d N i (c_fs c)" unchanged "\<lambda>_. True"
  by unfold_locales (auto intro: verified_unchanged keeps_unchanged)

lemma guards_kept: "keeps V m \<Longrightarrow> (\<And>c. P c \<Longrightarrow> V c) \<Longrightarrow> guards P m (\<lambda>_. V) V"
  unfolding keeps_def by (rule guards_weaken)

lemma guards_fsM:
  assumes "guards P' m Q E" and "\<And>c. P c \<Longrightarrow> P' (c_fs c)"
  shows "guards P (fsM m) (\<lambda>x c. Q x (c_fs c)) (\<lambda>c. E (c_fs c))"
proof (rule guardsI)
  fix c x c' assume c: "P c" "fsM m c = (x, c')"
  obtain fs where fs: "m (c_fs c) = (x, fs)" "c' = c\<lparr>c_fs := fs\<rparr>" using c(2) by (auto simp: run_fs split: prod.splits)
  from guardsD [OF assms(1) assms(2) [OF c(1)] fs(1)] fs(2)
  show "case x of Ok v \<Rightarrow> Q v (c_fs c') | _ \<Rightarrow> E (c_fs c')" by (cases x) simp_all
qed

definition reading :: "u16 \<Rightarrow> File \<Rightarrow> (gostring \<rightharpoonup> nat) \<Rightarrow> (nat \<Rightarrow> byte list) \<Rightarrow> nat \<Rightarrow> nat \<Rightarrow> BConn \<Rightarrow> bool" where
  "reading sid f D d N i c \<longleftrightarrow> s_f (c_streams c sid) = Some f \<and> opened D d N (f_fd f) i anywhere (c_fs c)"

lemma guards_reading_file:
  "guards P' (k f) Q E \<Longrightarrow> (\<And>c. reading sid f D d N i c \<Longrightarrow> P' c) \<Longrightarrow> guards (reading sid f D d N i) (withFile sid k) Q E"
  by (auto simp: guards_def reading_def)

lemma keeps_reading:
  "keeps (reading sid f D d N i) (recvIn pick sid)" "keeps (reading sid f D d N i) (modifyM (\<lambda>c. c\<lparr>c_conn := h c\<rparr>))"
  by (auto simp: keeps_alt recvIn_def reading_def modifyM_def Let_def split: if_splits list.splits)

lemma guards_File_Write:
  "guards (opened D d N (f_fd f) i anywhere) (File_Write f bs)
    (\<lambda>_. verified sha tmp f D d N i) (verified sha tmp f D d N i)"
  unfolding guards_def File_Write_def os_Write_def fs_defs step_defs opened_def verified_def Let_def
  by (auto split: option.splits)

lemma guards_storeChunk:
  "guards (reading sid f D d N i) (storeChunk env pk sid l bs)
    (\<lambda>_ c. verified sha tmp f D d N i (c_fs c)) (\<lambda>c. verified sha tmp f D d N i (c_fs c))"
  unfolding storeChunk_def
proof (rule guards_reading_file)
  let ?V = "\<lambda>c. verified sha tmp f D d N i (c_fs c)" and ?P = "\<lambda>c. opened D d N (f_fd f) i anywhere (c_fs c)"
  have W: "guards ?P (tryM (fsM (File_Write f bs))) (\<lambda>_. ?V) ?V"
    by (rule guards_try, rule guards_weaken [OF guards_fsM [where P = ?P, OF guards_File_Write]]) auto
  show "guards ?P (bindM (tryM (fsM (File_Write f bs))) (\<lambda>res. case res of
       Inr e \<Rightarrow> finish env (pk 2) sid True CloseReasonUndefined
     | Inl n \<Rightarrow> if n \<noteq> length bs then finish env (pk 2) sid True CloseReasonUndefined
        else updateProgress sid l (length bs))) (\<lambda>_. ?V) ?V"
    by (rule guards_bind [OF W], rule guards_kept) (auto intro!: vfs.kept_ops)
qed (simp add: reading_def)

lemma reading_verified: "reading sid f D d N i c \<Longrightarrow> verified sha tmp f D d N i (c_fs c)"
  by (auto simp: reading_def intro: verified_opened)

lemma guards_clientData:
  "guards (reading sid f D d N i) (clientData env pk sid bs)
    (\<lambda>_ c. verified sha tmp f D d N i (c_fs c)) (\<lambda>c. verified sha tmp f D d N i (c_fs c))"
proof -
  let ?R = "reading sid f D d N i" and ?V = "\<lambda>c. verified sha tmp f D d N i (c_fs c)"
  have keep: "guards ?R m (\<lambda>_. ?R) ?V" if "keeps ?R m" for m :: "(BConn, 'z) parser"
    using that unfolding keeps_def by (rule guards_weaken) (auto intro: reading_verified)
  have fin: "guards ?R (finish env (pk 2) sid True CloseReasonUndefined) (\<lambda>_. ?V) ?V"
    by (rule guards_kept [OF vfs.fin]) (rule reading_verified)
  show ?thesis
    unfolding clientData_def
    by (intro guards_bind [OF keep] keeps_reading keeping)
      (auto intro!: guards_bind [OF keep] keeping guards_storeChunk fin split: sum.split)
qed

lemma clientRead_verified:
  assumes "env_tmp env \<noteq> f_name f" and "f_fd f < N" and "i < N"
  shows "guards (reading sid f D d N i) (clientRead env pk sid)
    (\<lambda>_ c. verified (env_sha env) (env_tmp env) f D d N i (c_fs c))
    (\<lambda>c. verified (env_sha env) (env_tmp env) f D d N i (c_fs c))"
proof -
  let ?R = "reading sid f D d N i" and ?V = "\<lambda>c. verified (env_sha env) (env_tmp env) f D d N i (c_fs c)"
  have recv: "guards ?R (recvIn (pk 0) sid) (\<lambda>_. ?R) ?V"
    using keeps_reading(1) unfolding keeps_def by (rule guards_weaken) (auto intro: reading_verified)
  have fin: "guards ?R (finish env (pk 2) sid b r) (\<lambda>_. ?V) ?V" for b r
    by (rule guards_kept [OF vfs.fin]) (rule reading_verified)
  have other: "guards ?R (CloseStream env (pk 2) sid True r) (\<lambda>_. ?V) ?V" for r
    by (rule guards_kept [OF vfs.closing]) (rule reading_verified)
  have complete: "guards ?R (withFile sid (\<lambda>f. fsM (completeFile env f))) (\<lambda>_. ?V) ?V"
    by (rule guards_reading_file [where P' = "\<lambda>c. opened D d N (f_fd f) i anywhere (c_fs c)"],
        rule guards_fsM [OF guards_completeFile [OF assms]]) (simp_all add: reading_def)
  have closing: "guards ?R (thenM (whenM b (withFile sid (\<lambda>f. fsM (completeFile env f)))) (finish env (pk 2) sid False 0))
      (\<lambda>_. ?V) ?V" for b
    by (rule guards_bind [where R = "\<lambda>_. ?V"], rule guards_when [OF complete], rule reading_verified, assumption)
      (rule vfs.fin [unfolded keeps_def])
  show ?thesis
    unfolding clientRead_def
    by (rule guards_bind [OF recv]) (auto intro!: fin other closing guards_clientData split: option.split BRFTMessage.split)
qed

end
