(* ===== verification/Brft_Sending.thy ===== *)
theory Brft_Sending
  imports Brft_Steps
begin

text \<open>
  The server's side of a transfer on a system without faults: a valid request is answered, the
  transmission started at the offset asked for, and the file sent in chunks.
\<close>

section \<open>Sending a file\<close>

primrec repeatM :: "nat \<Rightarrow> ('r, unit) parser \<Rightarrow> ('r, unit) parser" where
  "repeatM 0 m = returnM ()"
| "repeatM (Suc k) m = thenM m (repeatM k m)"

fun chunks :: "nat \<Rightarrow> byte list \<Rightarrow> byte list list" where
  "chunks n xs = (if n = 0 \<or> xs = [] then [] else take n xs # chunks n (drop n xs))"

declare chunks.simps [simp del]

lemma chunks_Nil [simp]: "chunks n [] = []"
  by (simp add: chunks.simps)

lemma concat_chunks: "0 < n \<Longrightarrow> concat (chunks n xs) = xs"
  by (induction n xs rule: chunks.induct) (subst chunks.simps, simp)

lemma dvd_minus_nat: "n \<le> m \<Longrightarrow> n dvd m - n \<longleftrightarrow> n dvd (m :: nat)"
  by (metis dvd_minus_self le_antisym not_less)

text \<open>What a chunk becomes before it is sent.\<close>

definition packs :: "'b Env \<Rightarrow> bool \<Rightarrow> byte list \<Rightarrow> byte list \<Rightarrow> bool" where
  "packs env z x d \<longleftrightarrow> (if z then env_compress env x = Ok d else d = x) \<and> length d < 2 ^ 24"

definition sending :: "u16 \<Rightarrow> File \<Rightarrow> nat \<Rightarrow> byte list \<Rightarrow> nat \<Rightarrow> bool \<Rightarrow> nat \<Rightarrow> BConn \<Rightarrow> bool" where
  "sending sid f i F n z pos c \<longleftrightarrow> calm c \<and> \<not> c_isClient c
     \<and> fs_fds (c_fs c) (f_fd f) = Some (i, pos) \<and> fs_data (c_fs c) i = F
     \<and> s_pc (c_streams c sid) = SSending \<and> s_f (c_streams c sid) = Some f
     \<and> s_chunkSize (c_streams c sid) = int n \<and> s_comp (c_streams c sid) = z \<and> \<not> s_closed (c_streams c sid)"

lemma File_Read_run:
  assumes "healthy fs" and "fs_fds fs (f_fd f) = Some (i, p)" and "0 < n"
  shows "File_Read f n fs = (if p < length (fs_data fs i)
    then (Ok (take n (drop p (fs_data fs i))),
      fs\<lparr>fs_fds := (fs_fds fs)(f_fd f \<mapsto> (i, p + length (take n (drop p (fs_data fs i))))), fs_calls := fs_calls fs + 1\<rparr>)
    else (Err EOF, fs\<lparr>fs_fds := (fs_fds fs)(f_fd f \<mapsto> (i, p)), fs_calls := fs_calls fs + 1\<rparr>))"
  using assms
  by (auto simp: File_Read_def os_Read_def bindM_def readAt_def seekTo_def returnM_def failM_def Let_def min_def)

text \<open>The reason in the last packet.\<close>

definition lastReason :: "nat \<Rightarrow> nat \<Rightarrow> byte" where
  "lastReason n rest = (if n dvd rest then CloseReasonUndefined else CloseReasonTransferComplete)"

definition sent :: "u16 \<Rightarrow> byte list list \<Rightarrow> byte \<Rightarrow> BConn \<Rightarrow> BConn \<Rightarrow> bool" where
  "sent sid ds r c c' \<longleftrightarrow> c_outCtrl c' = c_outCtrl c
     \<and> c_outData c' = c_outData c @ map (\<lambda>d. brft_wire (dataMsg sid d)) ds @ [brft_wire (closeMsg sid r)]
     \<and> c_table c' = c_table c - {sid} \<and> s_pc (c_streams c' sid) = Returned \<and> c_wg c' = c_wg c - 1
     \<and> c_close c' = c_close c \<and> retimed c c'
     \<and> fs_dir (c_fs c') = fs_dir (c_fs c) \<and> fs_data (c_fs c') = fs_data (c_fs c)"

context cryptobyte_laws
begin

lemma Data_Encode_run: "length d < 2 ^ 24 \<Longrightarrow>
    Data_Encode cb \<lparr>bd_StreamID = sid, bd_Data = d\<rparr> = Ok (brft_wire (dataMsg sid d))"
  using BEncode_wire [of "dataMsg sid d"] by simp

lemma serverStep_sends:
  assumes "env_cb env = cb" and "sending sid f i F n z pos c" and "0 < n" and "pos < length F"
    and "packs env z (take n (drop pos F)) d"
  shows "\<exists>c1. sending sid f i F n z (pos + length (take n (drop pos F))) c1 \<and> c_outCtrl c1 = c_outCtrl c
    \<and> c_outData c1 = c_outData c @ [brft_wire (dataMsg sid d)] \<and> c_table c1 = c_table c \<and> c_wg c1 = c_wg c
    \<and> fs_dir (c_fs c1) = fs_dir (c_fs c) \<and> fs_data (c_fs c1) = fs_data (c_fs c) \<and> c_close c1 = c_close c \<and> c_conn c1 = c_conn c
    \<and> serverStep env pk sid c = (if length (take n (drop pos F)) < n
         then finish env (pk 2) sid True CloseReasonTransferComplete c1 else (Ok (), c1))"
proof -
  let ?bs = "take n (drop pos F)"
  let ?fs = "(c_fs c)\<lparr>fs_fds := (fs_fds (c_fs c))(f_fd f \<mapsto> (i, pos + length ?bs)), fs_calls := fs_calls (c_fs c) + 1\<rparr>"
  let ?c1 = "c\<lparr>c_fs := ?fs\<rparr>"
  let ?c2 = "?c1\<lparr>c_outData := c_outData c @ [brft_wire (dataMsg sid d)]\<rparr>"
  let ?c3 = "?c2\<lparr>c_streams := (c_streams c)(sid := progressed (length d) (length ?bs) (c_streams c sid))\<rparr>"
  note S = assms(2) [unfolded sending_def calm_def]
  have R: "File_Read f n (c_fs c) = (Ok ?bs, ?fs)"
    using S assms(3,4) by (subst File_Read_run [where i = i and p = pos]) auto
  have "length d < 2 ^ 24" using assms(5) by (simp add: packs_def)
  then have K: "sendChunk env pk sid d (length ?bs) l ?c1
      = (if l then finish env (pk 2) sid True CloseReasonTransferComplete else returnM ()) ?c3" for l
    using S assms(1) by (simp add: sendChunk_def Data_Encode_run updateProgress_run whenM_def)
  have "serverStep env pk sid c = sendChunk env pk sid d (length ?bs) (length ?bs < n) ?c1"
    using S assms(5) by (simp add: serverStep_def serverChunk_def Let_def run_fs R packs_def)
  with K S show ?thesis
    by (intro exI [of _ ?c3]) (simp add: sending_def calm_def)
qed

lemma serverStep_eof:
  assumes "env_cb env = cb" and "sending sid f i F n z pos c" and "0 < n" and "length F \<le> pos"
  shows "\<exists>c1. sending sid f i F n z pos c1 \<and> c_outCtrl c1 = c_outCtrl c \<and> c_outData c1 = c_outData c
    \<and> c_table c1 = c_table c \<and> c_wg c1 = c_wg c \<and> fs_dir (c_fs c1) = fs_dir (c_fs c) \<and> fs_data (c_fs c1) = fs_data (c_fs c)
    \<and> c_close c1 = c_close c \<and> c_conn c1 = c_conn c
    \<and> serverStep env pk sid c = finish env (pk 2) sid True CloseReasonUndefined c1"
proof -
  let ?fs = "(c_fs c)\<lparr>fs_fds := (fs_fds (c_fs c))(f_fd f \<mapsto> (i, pos)), fs_calls := fs_calls (c_fs c) + 1\<rparr>"
  note S = assms(2) [unfolded sending_def calm_def]
  have "File_Read f n (c_fs c) = (Err EOF, ?fs)"
    using S assms(3,4) by (subst File_Read_run [where i = i and p = pos]) auto
  with S show ?thesis
    by (intro exI [of _ "c\<lparr>c_fs := ?fs\<rparr>"]) (simp add: serverStep_def serverChunk_def Let_def run_fs sending_def calm_def)
qed

lemma finish_sent:
  assumes "env_cb env = cb" and "sending sid f i F n z pos c1"
  shows "\<exists>c'. finish env pick sid True r c1 = (Ok (), c') \<and> sent sid [] r c1 c'"
  using finish_server [of env c1 sid pick r] assms by (auto simp: sending_def calm_def sent_def)

lemma sent_none:
  assumes "sent sid [] r c1 c'" and "c_outCtrl c1 = c_outCtrl c" and "c_outData c1 = c_outData c"
    and "c_table c1 = c_table c" and "c_wg c1 = c_wg c"
    and "fs_dir (c_fs c1) = fs_dir (c_fs c)" and "fs_data (c_fs c1) = fs_data (c_fs c)"
    and "c_close c1 = c_close c" and "c_conn c1 = c_conn c"
  shows "sent sid [] r c c'"
  using assms by (simp add: sent_def)

lemma sent_more:
  assumes "sent sid ds r c1 c'" and "c_outCtrl c1 = c_outCtrl c" and "c_outData c1 = c_outData c @ [brft_wire (dataMsg sid d)]"
    and "c_table c1 = c_table c" and "c_wg c1 = c_wg c"
    and "fs_dir (c_fs c1) = fs_dir (c_fs c)" and "fs_data (c_fs c1) = fs_data (c_fs c)"
    and "c_close c1 = c_close c" and "c_conn c1 = c_conn c"
  shows "sent sid (d # ds) r c c'"
  using assms by (simp add: sent_def)

lemma server_sends:
  assumes "env_cb env = cb" and "sending sid f i F n z pos c" and "0 < n" and "pos \<le> length F"
    and "list_all2 (packs env z) (chunks n (drop pos F)) ds"
  shows "\<exists>c'. repeatM (length ds + (if n dvd length F - pos then 1 else 0)) (serverStep env pk sid) c = (Ok (), c')
    \<and> sent sid ds (lastReason n (length F - pos)) c c'"
  using assms(2-)
proof (induction "length F - pos" arbitrary: pos c ds rule: less_induct)
  case less
  show ?case
  proof (cases "pos = length F")
    case True
    then obtain c1 where c1: "sending sid f i F n z pos c1" "c_outCtrl c1 = c_outCtrl c" "c_outData c1 = c_outData c"
      "c_table c1 = c_table c" "c_wg c1 = c_wg c" "fs_dir (c_fs c1) = fs_dir (c_fs c)" "fs_data (c_fs c1) = fs_data (c_fs c)"
      "c_close c1 = c_close c" "c_conn c1 = c_conn c"
      "serverStep env pk sid c = finish env (pk 2) sid True CloseReasonUndefined c1"
      using serverStep_eof [OF assms(1) less.prems(1,2), of pk] by auto
    from True less.prems(4) have "ds = []" by simp
    with True c1 finish_sent [OF assms(1) c1(1), of "pk 2" CloseReasonUndefined] show ?thesis
      by (auto simp: bindM_def lastReason_def intro!: sent_none [OF _ c1(2-9)])
  next
    case False
    let ?bs = "take n (drop pos F)"
    from False less.prems(3) have pos: "pos < length F" by simp
    with less.prems(2) have ch: "chunks n (drop pos F) = ?bs # chunks n (drop n (drop pos F))"
      by (subst chunks.simps) simp
    with less.prems(4) obtain d es where ds: "ds = d # es" "packs env z ?bs d"
      "list_all2 (packs env z) (chunks n (drop n (drop pos F))) es"
      by (auto simp: list_all2_Cons1)
    from serverStep_sends [OF assms(1) less.prems(1,2) pos ds(2), of pk] obtain c1
      where c1: "sending sid f i F n z (pos + length ?bs) c1" "c_outCtrl c1 = c_outCtrl c"
        "c_outData c1 = c_outData c @ [brft_wire (dataMsg sid d)]" "c_table c1 = c_table c" "c_wg c1 = c_wg c"
        "fs_dir (c_fs c1) = fs_dir (c_fs c)" "fs_data (c_fs c1) = fs_data (c_fs c)"
        "c_close c1 = c_close c" "c_conn c1 = c_conn c"
        "serverStep env pk sid c = (if length ?bs < n then finish env (pk 2) sid True CloseReasonTransferComplete c1 else (Ok (), c1))"
      by blast
    show ?thesis
    proof (cases "length ?bs < n")
      case True
      then have "es = []" "\<not> n dvd length F - pos"
        using ds(3) pos nat_dvd_not_less [of "length F - pos" n] by auto
      with True c1 ds(1) finish_sent [OF assms(1) c1(1), of "pk 2" CloseReasonTransferComplete] show ?thesis
        by (auto simp: bindM_def lastReason_def intro!: sent_more [OF _ c1(2-9)])
    next
      case more: False
      then have len: "length ?bs = n" "pos + n \<le> length F" using pos by auto
      have "\<exists>c'. repeatM (length es + (if n dvd length F - (pos + n) then 1 else 0)) (serverStep env pk sid) c1 = (Ok (), c')
          \<and> sent sid es (lastReason n (length F - (pos + n))) c1 c'"
        using less.hyps [of "pos + n" c1 es] len less.prems(2) c1(1) ds(3) by (simp add: add.commute)
      moreover have "n dvd length F - (pos + n) \<longleftrightarrow> n dvd length F - pos"
        using dvd_minus_nat [of n "length F - pos"] len(2) by (simp add: diff_diff_left)
      ultimately show ?thesis
        using c1(10) more ds(1) by (auto simp: bind_Ok lastReason_def intro!: sent_more [OF _ c1(2-9)])
    qed
  qed
qed

end

section \<open>The server accepts a request\<close>

definition awaiting :: "u16 \<Rightarrow> File \<Rightarrow> nat \<Rightarrow> byte list \<Rightarrow> byte list \<Rightarrow> nat \<Rightarrow> bool \<Rightarrow> BConn \<Rightarrow> bool" where
  "awaiting sid f i F cs n z c \<longleftrightarrow> calm c \<and> \<not> c_isClient c
     \<and> fs_fds (c_fs c) (f_fd f) = Some (i, 0) \<and> fs_data (c_fs c) i = F
     \<and> \<not> isClientFile f \<and> f_stat f = length F \<and> f_checksum f = cs \<and> sid \<in> c_table c
     \<and> s_pc (c_streams c sid) = SAwaitStart \<and> s_f (c_streams c sid) = Some f \<and> s_in (c_streams c sid) = []
     \<and> s_chunkSize (c_streams c sid) = int n \<and> s_comp (c_streams c sid) = z \<and> \<not> s_closed (c_streams c sid)"

context cryptobyte_laws
begin

lemma server_accepts:
  fixes req :: FileReq and c :: BConn and env :: "'b Env" and i k :: nat and n :: Negotiated
  defines "sid \<equiv> fq_StreamID req" and "F \<equiv> fs_data (c_fs c) i"
  defines "f \<equiv> \<lparr>f_fd = fs_next (c_fs c), f_stat = length F, isClientFile = False, f_name = fq_FileName req, f_checksum = env_sha env F\<rparr>"
  defines "resp \<equiv> \<lparr>fp_Status = n_status n, fp_OptHeaders = n_optHeaders n, fp_StreamID = sid,
      fp_FileSize = of_nat (length F), fp_Checksum = env_sha env F\<rparr>"
  assumes "env_cb env = cb" and "calm c" and "\<not> c_isClient c" and "\<not> isDuplicateStreamID sid c"
    and "fileRegex (fq_FileName req)" and "fs_dir (c_fs c) (fq_FileName req) = Some i"
    and "fq_Checksum req = zeroChecksum \<and> \<not> IsSet (fq_Flags req) FileReqFlagResumption
      \<or> fq_Checksum req \<noteq> zeroChecksum \<and> fq_Checksum req = env_sha env F"
    and "negotiate (of_nat (length F)) (fq_OptHeaders req) \<lparr>n_status = FileRespStatusOk, n_comp = False,
        n_chunkSize = ComputeChunkSize (chunkSizeFactor (c_options c)), n_optHeaders = []\<rparr> = Some n"
    and "msg_ok (BFileResp resp)" and "n_chunkSize n = int k"
  shows "\<exists>c1. thenM (serverDispatch env pick listing (BFileReq req)) (serverStep env pk sid) c = (Ok (), c1)
    \<and> awaiting sid f i F (env_sha env F) k (n_comp n) c1 \<and> c_outCtrl c1 = c_outCtrl c @ [brft_wire (BFileResp resp)]
    \<and> c_outData c1 = c_outData c \<and> c_table c1 = insert sid (c_table c) \<and> c_wg c1 = c_wg c + 1
    \<and> fs_dir (c_fs c1) = fs_dir (c_fs c) \<and> fs_data (c_fs c1) = fs_data (c_fs c) \<and> c_close c1 = c_close c \<and> retimed c c1"
proof -
  have E: "FileResp_Encode cb resp = Ok (brft_wire (BFileResp resp))"
    using BEncode_wire [OF assms(13)] by simp
  have O: "OpenFile (env_sha env) (fq_FileName req) (c_fs c) = (Ok f, (c_fs c)\<lparr>fs_fds := (fs_fds (c_fs c))(fs_next (c_fs c) \<mapsto> (i, 0)),
      fs_next := fs_next (c_fs c) + 1, fs_calls := fs_calls (c_fs c) + 5\<rparr>)"
    using OpenFile_ok [OF _ assms(9,10)] assms(6) by (simp add: calm_def f_def F_def)
  have f: "\<not> isClientFile f" "f_checksum f = env_sha env F" "f_stat f = length F" by (simp_all add: f_def)
  note S = File_Size_server [OF f(1)]
  have sid: "fq_StreamID req = sid" by (simp add: sid_def)
  note run = serverDispatch_def serverOnFileReq_def spawn_def newServerStream_def serverStep_def serverReq_def
        serverNegotiate_def calm_def run_fs O fileSize_def S f whenM_def serverAnswer_def sid
  show ?thesis
    using assms(5-8,11,12,14) E
    by (cases "IsSet (fq_Flags req) FileReqFlagResumption"; cases "fq_Checksum req = zeroChecksum")
      (simp_all add: run awaiting_def F_def [symmetric] resp_def, simp_all add: f_def)
qed

lemma server_starts:
  assumes "awaiting sid f i F cs k z c" and "unat off < length F" and "length F < 2 ^ 63"
  shows "\<exists>c1. thenM (serverDispatch env pick listing (BStart \<lparr>st_StreamID = sid, st_Checksum = cs, st_Offset = off\<rparr>))
      (serverStep env pk sid) c = (Ok (), c1)
    \<and> sending sid f i F k z (unat off) c1 \<and> c_outCtrl c1 = c_outCtrl c \<and> c_outData c1 = c_outData c
    \<and> c_table c1 = c_table c \<and> c_wg c1 = c_wg c
    \<and> fs_dir (c_fs c1) = fs_dir (c_fs c) \<and> fs_data (c_fs c1) = fs_data (c_fs c) \<and> c_close c1 = c_close c \<and> retimed c c1"
proof -
  note A = assms(1) [unfolded awaiting_def calm_def]
  have u: "unat (of_nat (length F) :: u64) = length F"
    using assms(3) by (simp add: unat_of_nat take_bit_nat_eq_self)
  then have less: "\<not> off \<ge> of_nat (length F)" using assms(2) by (simp add: word_le_nat_alt)
  have S: "File_Size f fs = (Ok (of_nat (length F), f), fs)" for fs
    using A File_Size_server [of f] by simp
  have K: "SeekOffset f off fs = (Ok (), fs\<lparr>fs_fds := (fs_fds fs)(f_fd f \<mapsto> (i, unat off)), fs_calls := fs_calls fs + 1\<rparr>)"
    if "healthy fs" "fs_fds fs (f_fd f) = Some (i, 0)" for fs
    using SeekOffset_server [OF that] A less assms(2,3) by simp
  have I: "bindM (ignoreM (fsM (SeekOffset f off))) k' b = k' () (b\<lparr>c_fs := (c_fs b)\<lparr>fs_fds := (fs_fds (c_fs b))(f_fd f \<mapsto> (i, unat off)),
      fs_calls := fs_calls (c_fs b) + 1\<rparr>\<rparr>)"
    if "healthy (c_fs b)" "fs_fds (c_fs b) (f_fd f) = Some (i, 0)" for b and k' :: "unit \<Rightarrow> (BConn, unit) parser"
    using K [OF that] by (simp add: ignoreM_def run_fs)
  note run = serverDispatch_def serverOnStart_def Let_def getStream_def fileSize_def run_fs S bind_Ok [OF pushIn_run]
    serverStep_def serverStart_def sending_def calm_def
  show ?thesis
  proof (cases "off = 0")
    case True
    with A less show ?thesis by (simp add: run I [unfolded True])
  next
    case False
    with A less show ?thesis by (simp add: run I)
  qed
qed

end

end
