(* ===== verification/Brft_Receiving.thy ===== *)
theory Brft_Receiving
  imports Brft_Steps
begin

text \<open>
  The client's side of a transfer on a system without faults: the request for a new or a partly
  downloaded file, the acceptance of the response, the data written to the pending file, and
  the end.
\<close>

section \<open>The client\<close>

definition asking :: "u16 \<Rightarrow> gostring \<Rightarrow> byte list \<Rightarrow> nat option \<Rightarrow> BConn \<Rightarrow> bool" where
  "asking sid name cs0 prev c \<longleftrightarrow> calm c \<and> c_isClient c \<and> 0 < c_wg c \<and> sid \<in> c_table c
     \<and> s_pc (c_streams c sid) = CAwaitResp \<and> s_f (c_streams c sid) = None \<and> s_fileName (c_streams c sid) = name
     \<and> s_requestedChecksum (c_streams c sid) = cs0 \<and> \<not> s_comp (c_streams c sid) \<and> s_in (c_streams c sid) = []
     \<and> \<not> s_closed (c_streams c sid) \<and> s_isResumption (c_streams c sid) = (prev \<noteq> None)
     \<and> s_offset (c_streams c sid) = (case prev of None \<Rightarrow> 0 | Some k \<Rightarrow> of_nat k)"

definition receiving :: "u16 \<Rightarrow> File \<Rightarrow> nat \<Rightarrow> gostring \<Rightarrow> byte list \<Rightarrow> bool \<Rightarrow> byte list \<Rightarrow> BConn \<Rightarrow> bool" where
  "receiving sid f i name cs z dat c \<longleftrightarrow> calm c \<and> c_isClient c \<and> 0 < c_wg c \<and> sid \<in> c_table c
     \<and> fs_fds (c_fs c) (f_fd f) = Some (i, 37 + length dat) \<and> fs_data (c_fs c) i = pending cs dat
     \<and> fs_dir (c_fs c) name = Some i \<and> f_fd f < fs_next (c_fs c) \<and> i < fs_next (c_fs c)
     \<and> isClientFile f \<and> f_name f = name \<and> f_checksum f = cs \<and> length cs = 32
     \<and> s_pc (c_streams c sid) = CReading \<and> s_f (c_streams c sid) = Some f \<and> s_in (c_streams c sid) = []
     \<and> s_comp (c_streams c sid) = z \<and> \<not> s_closed (c_streams c sid)"

definition unpacks :: "'b Env \<Rightarrow> bool \<Rightarrow> byte list \<Rightarrow> byte list \<Rightarrow> bool" where
  "unpacks env z d x \<longleftrightarrow> (if z then env_decompress env d = Ok x else x = d)"

text \<open>The handler of the connection and the goroutine of the stream take one message.\<close>

definition deliver :: "'b Env \<Rightarrow> (nat \<Rightarrow> bool) \<Rightarrow> u16 \<Rightarrow> BRFTMessage \<Rightarrow> (BConn, unit) parser" where
  "deliver env pk sid m = thenM (clientDispatch env (pk 2) m) (clientStep env pk sid)"

primrec deliverAll :: "'b Env \<Rightarrow> (nat \<Rightarrow> bool) \<Rightarrow> u16 \<Rightarrow> BRFTMessage list \<Rightarrow> (BConn, unit) parser" where
  "deliverAll env pk sid [] = returnM ()"
| "deliverAll env pk sid (m # ms) = thenM (deliver env pk sid m) (deliverAll env pk sid ms)"

lemma finish_client:
  assumes "c_isClient c" and "0 < c_wg c" and "\<not> s_closed (c_streams c sid)"
  shows "\<exists>c'. finish env pick sid False r c = (if c_table c \<subseteq> {sid} then Block else Ok (), c')
    \<and> fs_dir (c_fs c') = fs_dir (c_fs c) \<and> fs_data (c_fs c') = fs_data (c_fs c) \<and> c_outClosed c' = c_outClosed c"
proof -
  let ?c = "c\<lparr>c_table := c_table c - {sid}\<rparr>"
  obtain fs' where F: "\<And>k :: unit \<Rightarrow> (BConn, unit) parser. bindM (ignoreM (fsM (File_Close (s_f (c_streams c sid))))) k ?c = k () (?c\<lparr>c_fs := fs'\<rparr>)"
    "fs_dir fs' = fs_dir (c_fs c)" "fs_data fs' = fs_data (c_fs c)"
    using close_file [of "s_f (c_streams c sid)" ?c] by auto
  show ?thesis
    using assms F(2,3)
    by (cases "c_table c \<subseteq> {sid}")
      (simp_all add: finish_def CloseStream_def F whenM_def close_waits)
qed

lemma storeChunk_run:
  assumes "receiving sid f i name cs z dat c"
  shows "storeChunk env pk sid l x c = (Ok (), c\<lparr>c_fs := (c_fs c)\<lparr>fs_data := (fs_data (c_fs c))(i := pending cs (dat @ x)),
      fs_fds := (fs_fds (c_fs c))(f_fd f \<mapsto> (i, 37 + length dat + length x)), fs_calls := fs_calls (c_fs c) + 1\<rparr>,
      c_streams := (c_streams c)(sid := progressed l (length x) (c_streams c sid))\<rparr>)"
proof -
  note R = assms [unfolded receiving_def calm_def]
  have P: "put_bytes (pending cs dat) (37 + length dat) x = pending cs (dat @ x)"
    using R by (cases "x = []") (simp_all add: put_bytes_def pending_def)
  show ?thesis
    using R P by (simp add: storeChunk_def run_fs File_Write_def os_Write_def writeAt_def seekTo_def updateProgress_last)
qed

lemma deliver_data:
  assumes "receiving sid f i name cs z dat c" and "unpacks env z d x"
  shows "\<exists>c1. deliver env pk sid (dataMsg sid d) c = (Ok (), c1) \<and> receiving sid f i name cs z (dat @ x) c1
    \<and> c_table c1 = c_table c \<and> fs_dir (c_fs c1) = fs_dir (c_fs c) \<and> retimed c c1"
proof -
  note R = assms(1) [unfolded receiving_def calm_def]
  let ?c = "c\<lparr>c_conn := SetReadTimeout (activeStreamTimeout (c_options c)) (c_conn c)\<rparr>"
  have r: "receiving sid f i name cs z dat ?c" using assms(1) by (simp add: receiving_def calm_def)
  note st = storeChunk_run [OF r, of env pk "length d" x]
  have "deliver env pk sid (dataMsg sid d) c = storeChunk env pk sid (length d) x ?c"
    using R assms(2)
    by (simp add: deliver_def clientDispatch_def forStream_def getStream_def bind_Ok [OF pushIn_run] clientStep_def
        clientRead_def clientData_def unpacks_def fun_upd_idem)
  with st R show ?thesis by (simp add: receiving_def calm_def)
qed

lemma deliver_all_data:
  assumes "receiving sid f i name cs z dat c" and "list_all2 (unpacks env z) ds xs"
  shows "\<exists>c1. deliverAll env pk sid (map (dataMsg sid) ds) c = (Ok (), c1) \<and> receiving sid f i name cs z (dat @ concat xs) c1
    \<and> c_table c1 = c_table c \<and> fs_dir (c_fs c1) = fs_dir (c_fs c)"
  using assms(2,1)
proof (induction ds xs arbitrary: c dat rule: list_all2_induct)
  case (Cons d ds x xs)
  from deliver_data [OF Cons.prems Cons.hyps(1), of pk] obtain c1
    where c1: "deliver env pk sid (dataMsg sid d) c = (Ok (), c1)" "receiving sid f i name cs z (dat @ x) c1"
      "c_table c1 = c_table c" "fs_dir (c_fs c1) = fs_dir (c_fs c)" by blast
  from Cons.IH [OF c1(2)] c1 show ?case by (auto simp: bind_Ok)
qed simp

lemma completeFile_ok:
  assumes "healthy fs" and "fs_fds fs (f_fd f) = Some (i, p)" and "isClientFile f" and "fs_dir fs (f_name f) = Some i"
    and "fs_data fs i = pending cs d" and "length cs = ChecksumSize" and "env_sha env d = f_checksum f"
    and "fs_dir fs (env_tmp env) = None" and "f_fd f < fs_next fs" and "i < fs_next fs"
  shows "\<exists>fs'. completeFile env f fs = (Ok (), fs') \<and> stored fs' (f_name f) = Some d"
proof -
  have t: "env_tmp env \<noteq> f_name f" using assms(4,8) by auto
  let ?fs = "fs\<lparr>fs_calls := fs_calls fs + 4\<rparr>"
  obtain fs' where S: "StripChecksum (env_tmp env) f ?fs = (Ok (), fs')"
    "fs_dir fs' = (fs_dir fs)(f_name f \<mapsto> fs_next fs)" "fs_data fs' = (fs_data fs)(fs_next fs := d)"
    using StripChecksum_ok [of ?fs f i p cs d "env_tmp env"] assms t by auto
  then show ?thesis
    using CheckChecksum_ok [OF assms(1-3,5,6), of "env_sha env"] assms(7)
    by (simp add: completeFile_def bindM_def tryM_def ignoreM_def returnM_def stored_def)
qed

lemma deliver_complete:
  assumes "receiving sid f i name cs z dat c" and "env_sha env dat = cs" and "fs_dir (c_fs c) (env_tmp env) = None"
  shows "\<exists>c1. deliver env pk sid (closeMsg sid CloseReasonTransferComplete) c = (if c_table c = {sid} then Block else Ok (), c1)
    \<and> stored (c_fs c1) name = Some dat \<and> \<not> c_outClosed c1"
proof -
  note R = assms(1) [unfolded receiving_def calm_def]
  have "fs_data (c_fs c) i = pending cs dat" "length cs = ChecksumSize" using R by simp_all
  with R assms(2,3) obtain fs' where F: "completeFile env f (c_fs c) = (Ok (), fs')" "stored fs' name = Some dat"
    using completeFile_ok [of "c_fs c" f i _ cs dat env] by auto
  let ?c = "c\<lparr>c_fs := fs'\<rparr>"
  have sub: "c_table c \<subseteq> {sid} \<longleftrightarrow> c_table c = {sid}" using R by auto
  have "deliver env pk sid (closeMsg sid CloseReasonTransferComplete) c = finish env (pk 2) sid False 0 ?c"
    using R F(1)
    by (simp add: deliver_def clientDispatch_def onClosePacket_def getStream_def bind_Ok [OF pushIn_run] clientStep_def
        clientRead_def whenM_def run_fs fun_upd_idem)
  moreover obtain c' where "finish env (pk 2) sid False 0 ?c = (if c_table c = {sid} then Block else Ok (), c')"
    "fs_dir (c_fs c') = fs_dir fs'" "fs_data (c_fs c') = fs_data fs'" "\<not> c_outClosed c'"
    using finish_client [of ?c sid env "pk 2" 0] R sub by (auto simp del: split_paired_Ex)
  ultimately show ?thesis
    using F(2) by (intro exI [of _ c']) (simp add: stored_def)
qed

text \<open>Any other reason leaves what has arrived.\<close>

lemma deliver_close:
  assumes "receiving sid f i name cs z dat c" and "r \<noteq> CloseReasonTransferComplete"
  shows "\<exists>c1. deliver env pk sid (closeMsg sid r) c = (if c_table c = {sid} then Block else Ok (), c1)
    \<and> stored (c_fs c1) name = Some (pending cs dat) \<and> \<not> c_outClosed c1"
proof -
  note R = assms(1) [unfolded receiving_def calm_def]
  have sub: "c_table c \<subseteq> {sid} \<longleftrightarrow> c_table c = {sid}" using R by auto
  have "deliver env pk sid (closeMsg sid r) c = finish env (pk 2) sid False 0 c"
    using R assms(2)
    by (simp add: deliver_def clientDispatch_def onClosePacket_def getStream_def bind_Ok [OF pushIn_run] clientStep_def
        clientRead_def whenM_def fun_upd_idem)
  moreover obtain c' where "finish env (pk 2) sid False 0 c = (if c_table c = {sid} then Block else Ok (), c')"
    "fs_dir (c_fs c') = fs_dir (c_fs c)" "fs_data (c_fs c') = fs_data (c_fs c)" "\<not> c_outClosed c'"
    using finish_client [of c sid env "pk 2" 0] R sub by (auto simp del: split_paired_Ex)
  ultimately show ?thesis
    using R by (intro exI [of _ c']) (simp add: stored_def)
qed

section \<open>The client asks\<close>

text \<open>What the client has of the file: nothing, or the part of an earlier download.\<close>

definition local_part :: "FS \<Rightarrow> gostring \<Rightarrow> byte list \<Rightarrow> byte list option \<Rightarrow> bool" where
  "local_part fs name cs prev \<longleftrightarrow> (case prev of
     None \<Rightarrow> fs_dir fs name = None
   | Some d \<Rightarrow> \<exists>i. fs_dir fs name = Some i \<and> i < fs_next fs \<and> fs_data fs i = pending cs d)"

definition offsetOf :: "byte list option \<Rightarrow> u64" where
  "offsetOf prev = (case prev of None \<Rightarrow> 0 | Some d \<Rightarrow> of_nat (length d))"

definition clientReq :: "BOptions \<Rightarrow> u16 \<Rightarrow> gostring \<Rightarrow> byte list \<Rightarrow> byte list \<Rightarrow> byte list option \<Rightarrow> FileReq" where
  "clientReq opts sid name cs0 cs prev = \<lparr>fq_StreamID = sid,
     fq_Flags = (if prev = None then [] else [FileReqFlagResumption]),
     fq_OptHeaders = (case GetPreferredCompression opts of None \<Rightarrow> []
       | Some alg \<Rightarrow> [NewCompressionReqOptionalHeader alg (chunkSizeFactor opts)]),
     fq_FileName = name, fq_Checksum = (if prev = None then cs0 else cs)\<rparr>"

lemma findPrevious_run:
  assumes "healthy fs" and "local_part fs name cs prev" and "length cs = ChecksumSize" and "prev \<noteq> None \<longrightarrow> length (the prev) < 2 ^ 63"
  shows "\<exists>fs'. findPrevious name req s fs = (Ok (if prev = None then (req, s)
      else (req\<lparr>fq_Flags := fq_Flags req @ [FileReqFlagResumption], fq_Checksum := cs\<rparr>,
        s\<lparr>s_offset := offsetOf prev, s_totalPayloadTransmitted := offsetOf prev, s_isResumption := True\<rparr>)), fs')
    \<and> healthy fs' \<and> local_part fs' name cs prev \<and> fs_dir fs' = fs_dir fs \<and> fs_next fs \<le> fs_next fs'"
proof (cases prev)
  case None
  with assms(1,2) NewFile_missing [of fs name] show ?thesis
    by (simp add: findPrevious_def bindM_def tryM_def returnM_def local_part_def)
next
  case (Some d)
  then obtain i where i: "fs_dir fs name = Some i" "fs_data fs i = pending cs d" "i < fs_next fs"
    using assms(2) by (auto simp: local_part_def)
  have "(of_nat (length (pending cs d)) :: u64) - 37 = of_nat (length d)"
    using assms(3) by simp
  then show ?thesis
    using Some i assms(1,3)
    by (simp add: findPrevious_def NewFile_pending bindM_def tryM_def resume_def File_Size_client ignoreM_def returnM_def
        File_Close_def os_Close_def local_part_def offsetOf_def)
qed

context cryptobyte_laws
begin

lemma client_asks:
  fixes checksum cs prev sid name c
  defines "cs0 \<equiv> (case checksum of None \<Rightarrow> zeroChecksum | Some x \<Rightarrow> x)"
  defines "req \<equiv> clientReq (c_options c) sid name cs0 cs prev"
  assumes "env_cb env = cb" and "calm c" and "c_isClient c" and "local_part (c_fs c) name cs prev" and "length cs = ChecksumSize"
    and "prev \<noteq> None \<longrightarrow> length (the prev) < 2 ^ 63" and "length cs0 = ChecksumSize" and "length name \<le> 255"
  shows "\<exists>info c1. DownloadFile env pick sid name checksum c = (Ok info, c1) \<and> c_outCtrl c1 = c_outCtrl c @ [brft_wire (BFileReq req)]
    \<and> asking sid name cs0 (map_option length prev) c1 \<and> local_part (c_fs c1) name cs prev \<and> c_table c1 = insert sid (c_table c)
    \<and> fs_dir (c_fs c1) = fs_dir (c_fs c) \<and> c_options c1 = c_options c \<and> retimed c c1"
proof -
  let ?req = "\<lparr>fq_StreamID = sid, fq_Flags = [], fq_OptHeaders = [], fq_FileName = name, fq_Checksum = cs0\<rparr>"
  let ?s = "newClientStream name cs0"
  obtain fs' where P: "findPrevious name ?req ?s (c_fs c) = (Ok (if prev = None then (?req, ?s)
      else (?req\<lparr>fq_Flags := fq_Flags ?req @ [FileReqFlagResumption], fq_Checksum := cs\<rparr>,
        ?s\<lparr>s_offset := offsetOf prev, s_totalPayloadTransmitted := offsetOf prev, s_isResumption := True\<rparr>)), fs')"
    "healthy fs'" "local_part fs' name cs prev" "fs_dir fs' = fs_dir (c_fs c)"
    using findPrevious_run [OF _ assms(6-8)] assms(4) by (auto simp: calm_def)
  have valid: "\<not> (checksum \<noteq> None \<and> length (the checksum) \<noteq> ChecksumSize)"
    using assms(9) by (cases checksum) (simp_all add: cs0_def)
  have cs0: "(case checksum of None \<Rightarrow> zeroChecksum | Some cs \<Rightarrow> cs) = cs0" by (simp add: cs0_def)
  have "msg_ok (BFileReq req)"
    using assms(7,9,10) by (simp add: req_def clientReq_def opts_ok_def NewCompressionReqOptionalHeader_def split: option.split)
  then have "FileReq_Encode cb req = Ok (brft_wire (BFileReq req))"
    using BEncode_wire [of "BFileReq req"] by simp
  then show ?thesis
    using assms(3-5) P valid cs0
    by (cases prev; cases "GetPreferredCompression (c_options c)"; cases checksum)
      (simp_all add: DownloadFile_def Let_def run_fs requestCompression_def req_def clientReq_def calm_def
        spawn_def asking_def newClientStream_def offsetOf_def)
qed

text \<open>The response is accepted and the transmission started.\<close>

lemma client_accepts:
  assumes "env_cb env = cb" and "asking sid name cs0 (map_option length prev) c" and "local_part (c_fs c) name cs prev"
    and "cs0 = zeroChecksum \<or> cs0 = cs" and "fp_Checksum resp = cs" and "fp_StreamID resp = sid"
    and "length cs = ChecksumSize" and "acceptHeaders (fp_OptHeaders resp) False = Inl z"
  shows "\<exists>f i c1. deliver env pk sid (BFileResp resp) c = (Ok (), c1) \<and> receiving sid f i name cs z (case prev of None \<Rightarrow> [] | Some d \<Rightarrow> d) c1
    \<and> c_outCtrl c1 = c_outCtrl c @ [brft_wire (BStart \<lparr>st_StreamID = sid, st_Checksum = cs, st_Offset = offsetOf prev\<rparr>)]
    \<and> c_table c1 = c_table c \<and> (\<forall>n. n \<noteq> name \<longrightarrow> fs_dir (c_fs c1) n = fs_dir (c_fs c) n) \<and> retimed c c1"
proof -
  note A = assms(2) [unfolded asking_def calm_def]
  let ?st = "\<lparr>st_StreamID = sid, st_Checksum = cs, st_Offset = offsetOf prev\<rparr>"
  have E: "StartTransmission_Encode cb ?st = Ok (brft_wire (BStart ?st))"
    using BEncode_wire [of "BStart ?st"] assms(7) by simp
  have off: "(if prev \<noteq> None then (case map_option length prev of None \<Rightarrow> 0 | Some k \<Rightarrow> of_nat k) else 0 :: u64) = offsetOf prev"
    by (simp add: offsetOf_def split: option.split)
  note run = deliver_def clientDispatch_def forStream_def getStream_def bind_Ok [OF pushIn_run] clientStep_def clientResp_def
    clientAccept_def run_fs E receiving_def calm_def
  show ?thesis
  proof (cases prev)
    case None
    then have "fs_dir (c_fs c) name = None" using assms(3) by (simp add: local_part_def)
    with A have N: "NewFile name (Some cs) (c_fs c) = (Ok \<lparr>f_fd = fs_next (c_fs c), f_stat = 37, isClientFile = True,
        f_name = name, f_checksum = cs\<rparr>, (c_fs c)\<lparr>fs_dir := (fs_dir (c_fs c))(name \<mapsto> fs_next (c_fs c)),
        fs_data := (fs_data (c_fs c))(fs_next (c_fs c) := pending cs []),
        fs_fds := (fs_fds (c_fs c))(fs_next (c_fs c) \<mapsto> (fs_next (c_fs c), 37)),
        fs_next := fs_next (c_fs c) + 1, fs_calls := fs_calls (c_fs c) + 6\<rparr>)"
      using NewFile_new [of "c_fs c" name cs] assms(7) by simp
    show ?thesis
      using A None assms(1,4-8) E N
      by (intro exI [of _ "\<lparr>f_fd = fs_next (c_fs c), f_stat = 37, isClientFile = True, f_name = name, f_checksum = cs\<rparr>"]
          exI [of _ "fs_next (c_fs c)"]) (auto simp: run offsetOf_def)
  next
    case (Some d)
    then obtain i where i: "fs_dir (c_fs c) name = Some i" "fs_data (c_fs c) i = pending cs d" "i < fs_next (c_fs c)"
      using assms(3) by (auto simp: local_part_def)
    note N = NewFile_pending [OF _ i(1,2) assms(7), of "Some cs"]
    show ?thesis
      using A Some assms(1,4-8) E N i
      by (intro exI [of _ "\<lparr>f_fd = fs_next (c_fs c), f_stat = 37 + length d, isClientFile = True, f_name = name, f_checksum = cs\<rparr>"]
          exI [of _ i]) (auto simp: run offsetOf_def)
  qed
qed
end

end
