(* ===== verification/Brft_Link.thy ===== *)
theory Brft_Link
  imports Brft_Steps
begin

text \<open>
  What the file transfer layer needs of the layer below: the next message that one side has
  queued reaches the handler of the other side. The locale states it; here it is interpreted on a
  link without a transport, where the bytes are parsed as they were queued, and in
  Brft_Over_Transport on two connections of btp with a network between them.
\<close>

section \<open>Two sides\<close>

definition list_read :: "byte list reader" where
  "list_read r n = (if n \<le> length r then (Ok (take n r), drop n r) else (Err EOF, r))"

interpretation list_source: stream_source list_read "\<lambda>r. r"
  by unfold_locales (auto simp: list_read_def)

definition parse :: "byte list \<Rightarrow> BRFTMessage outcome" where
  "parse b = bindO (fst (readMsg list_read b)) (\<lambda>(m, h). Ok m)"

lemma parse_wire: "msg_ok m \<Longrightarrow> parse (brft_wire m) = Ok (decoded m)"
  using parsesD [OF list_source.parses_readMsg [of m], of "brft_wire m" "[]"] by (auto simp: parse_def)

definition onClient :: "(BConn, 'a) parser \<Rightarrow> (BConn \<times> BConn, 'a) parser" where
  "onClient m = zoomM fst (\<lambda>c p. (c, snd p)) m"

definition onServer :: "(BConn, 'a) parser \<Rightarrow> (BConn \<times> BConn, 'a) parser" where
  "onServer m = zoomM snd (\<lambda>c p. (fst p, c)) m"

lemma on_run:
  "bindM (onClient m) k p = (case m (fst p) of
     (Ok v, c) \<Rightarrow> k v (c, snd p) | (Err e, c) \<Rightarrow> (Err e, (c, snd p))
   | (Block, c) \<Rightarrow> (Block, (c, snd p)) | (Panic x, c) \<Rightarrow> (Panic x, (c, snd p)))"
  "bindM (onServer m) k p = (case m (snd p) of
     (Ok v, c) \<Rightarrow> k v (fst p, c) | (Err e, c) \<Rightarrow> (Err e, (fst p, c))
   | (Block, c) \<Rightarrow> (Block, (fst p, c)) | (Panic x, c) \<Rightarrow> (Panic x, (fst p, c)))"
  "onClient m p = (case m (fst p) of (x, c) \<Rightarrow> (x, (c, snd p)))"
  "onServer m p = (case m (snd p) of (x, c) \<Rightarrow> (x, (fst p, c)))"
  by (simp_all add: onClient_def onServer_def zoomM_def bindM_def split: prod.splits outcome.splits)

text \<open>The next message for the sender, as \<open>sendMessages\<close> takes it: control messages go first.\<close>

definition next_out :: "BConn \<Rightarrow> (byte list \<times> BConn) option" where
  "next_out c = (case c_outCtrl c of
     b # bs \<Rightarrow> Some (b, c\<lparr>c_outCtrl := bs\<rparr>)
   | [] \<Rightarrow> (case c_outData c of b # bs \<Rightarrow> Some (b, c\<lparr>c_outData := bs\<rparr>) | [] \<Rightarrow> None))"

lemma next_out_ctrl: "c_outCtrl c = b # bs \<Longrightarrow> next_out c = Some (b, c\<lparr>c_outCtrl := bs\<rparr>)"
  by (simp add: next_out_def)

lemma next_out_data: "c_outCtrl c = [] \<Longrightarrow> c_outData c = b # bs \<Longrightarrow> next_out c = Some (b, c\<lparr>c_outData := bs\<rparr>)"
  by (simp add: next_out_def)

section \<open>A link that may fail\<close>

text \<open>A result that satisfies \<open>Q\<close>, unless it is one of the failures of the link.\<close>

definition unless :: "(go_error \<Rightarrow> bool) \<Rightarrow> 'a outcome \<times> 's \<Rightarrow> ('a outcome \<times> 's \<Rightarrow> bool) \<Rightarrow> bool" where
  "unless late x Q \<longleftrightarrow> (\<exists>e p. x = (Err e, p) \<and> late e) \<or> Q x"

lemma unlessI: "Q x \<Longrightarrow> unless late x Q"
  by (simp add: unless_def)

lemma unless_bind:
  assumes "unless late (m p) A" and "\<And>x. A x \<Longrightarrow> \<exists>v q. x = (Ok v, q) \<and> unless late (k v q) Q"
  shows "unless late (bindM m k p) Q"
  using assms(1) assms(2) [of "m p"] by (auto simp: unless_def bindM_def)

lemma unless_mono: "unless late x A \<Longrightarrow> (\<And>y. A y \<Longrightarrow> B y) \<Longrightarrow> unless late x B"
  unfolding unless_def by blast

lemma unless_never: "unless (\<lambda>_. False) x Q \<longleftrightarrow> Q x"
  by (simp add: unless_def)

text \<open>
  \<open>up\<close> takes the client's next message to the server, \<open>down\<close> the server's to the client. Messages
  of at most \<open>room\<close> bytes get through; the connections stay \<open>linked\<close>, also when the handlers set
  the read timeout.
\<close>

locale message_link =
  fixes up :: "(BConn \<times> BConn, BRFTMessage) parser" and down :: "(BConn \<times> BConn, BRFTMessage) parser"
    and linked :: "Conn \<Rightarrow> Conn \<Rightarrow> bool" and room :: nat and late :: "go_error \<Rightarrow> bool"
  assumes up: "linked (c_conn c) (c_conn s) \<Longrightarrow> \<not> c_close c \<Longrightarrow> next_out c = Some (brft_wire m, c1)
      \<Longrightarrow> msg_ok m \<Longrightarrow> length (brft_wire m) \<le> room \<Longrightarrow>
      unless late (up (c, s)) (\<lambda>x. \<exists>a b. x = (Ok (decoded m), (c1\<lparr>c_conn := a\<rparr>, s\<lparr>c_conn := b\<rparr>)) \<and> linked a b)"
    and down: "linked (c_conn c) (c_conn s) \<Longrightarrow> \<not> c_close s \<Longrightarrow> next_out s = Some (brft_wire m, s1)
      \<Longrightarrow> msg_ok m \<Longrightarrow> length (brft_wire m) \<le> room \<Longrightarrow>
      unless late (down (c, s)) (\<lambda>x. \<exists>a b. x = (Ok (decoded m), (c\<lparr>c_conn := a\<rparr>, s1\<lparr>c_conn := b\<rparr>)) \<and> linked a b)"
    and timeouts: "linked a b \<Longrightarrow> reset a a' \<Longrightarrow> reset b b' \<Longrightarrow> linked a' b'"

section \<open>The link without a transport\<close>

definition pop :: "(BConn, BRFTMessage) parser" where
  "pop = (\<lambda>c. case next_out c of None \<Rightarrow> (Block, c) | Some (b, c1) \<Rightarrow> (parse b, c1))"

lemma pop_run: "next_out c = Some (brft_wire m, c1) \<Longrightarrow> msg_ok m \<Longrightarrow> pop c = (Ok (decoded m), c1)"
  by (simp add: pop_def parse_wire)

lemma next_out_conn: "next_out c = Some (b, c1) \<Longrightarrow> c1\<lparr>c_conn := c_conn c\<rparr> = c1"
  by (auto simp: next_out_def split: list.splits)

interpretation direct: message_link "onClient pop" "onServer pop" "\<lambda>_ _. True" room "\<lambda>_. False" for room
proof unfold_locales
  fix c s c1 m assume a: "next_out c = Some (brft_wire m, c1)" "msg_ok m"
  show "unless (\<lambda>_. False) (onClient pop (c, s))
      (\<lambda>x. \<exists>a b. x = (Ok (decoded m), (c1\<lparr>c_conn := a\<rparr>, s\<lparr>c_conn := b\<rparr>)) \<and> True)"
    unfolding unless_never on_run
    by (intro exI [of _ "c_conn c"] exI [of _ "c_conn s"]) (simp add: pop_run [OF a] next_out_conn [OF a(1)])
next
  fix c s s1 m assume a: "next_out s = Some (brft_wire m, s1)" "msg_ok m"
  show "unless (\<lambda>_. False) (onServer pop (c, s))
      (\<lambda>x. \<exists>a b. x = (Ok (decoded m), (c\<lparr>c_conn := a\<rparr>, s1\<lparr>c_conn := b\<rparr>)) \<and> True)"
    unfolding unless_never on_run
    by (intro exI [of _ "c_conn c"] exI [of _ "c_conn s"]) (simp add: pop_run [OF a] next_out_conn [OF a(1)])
qed simp

end
