(* ===== verification/Brft_Download.thy ===== *)
theory Brft_Download
  imports Brft_Sending Brft_Receiving Brft_Link
begin

text \<open>
  A download from the request to the file at the client, composed of the operations of both
  sides, over any link that brings the messages of one side to the other.
\<close>

section \<open>From the request to the file\<close>

definition never :: "nat \<Rightarrow> bool" where
  "never n = False"

text \<open>A message reaches the handler, which passes it to the goroutine of the stream.\<close>

definition serverTakes :: "'b Env \<Rightarrow> u16 \<Rightarrow> BRFTMessage \<Rightarrow> (BConn, unit) parser" where
  "serverTakes env sid m = thenM (serverDispatch env False (Ok []) m) (serverStep env never sid)"

definition toServer :: "(BConn \<times> BConn, BRFTMessage) parser \<Rightarrow> 'b Env \<Rightarrow> u16 \<Rightarrow> (BConn \<times> BConn, unit) parser" where
  "toServer up env sid = bindM up (\<lambda>m. onServer (serverTakes env sid m))"

definition toClient :: "(BConn \<times> BConn, BRFTMessage) parser \<Rightarrow> 'b Env \<Rightarrow> u16 \<Rightarrow> (BConn \<times> BConn, unit) parser" where
  "toClient down env sid = bindM down (\<lambda>m. onClient (deliver env never sid m))"

text \<open>
  The client asks, the server answers, the client starts the transmission. Then \<open>k\<close> is the
  number of passes of the server's loop, after which all that it has queued goes to the client.
\<close>

definition startTransfer :: "(BConn \<times> BConn, BRFTMessage) parser \<Rightarrow> (BConn \<times> BConn, BRFTMessage) parser \<Rightarrow>
    'b Env \<Rightarrow> 'b Env \<Rightarrow> u16 \<Rightarrow> gostring \<Rightarrow> byte list option \<Rightarrow> (BConn \<times> BConn, unit) parser" where
  "startTransfer up down envC envS sid name checksum =
     bindM (onClient (DownloadFile envC False sid name checksum)) (\<lambda>_.
     thenM (toServer up envS sid)
     (thenM (toClient down envC sid)
     (toServer up envS sid)))"

definition allToClient :: "(BConn \<times> BConn, BRFTMessage) parser \<Rightarrow> 'b Env \<Rightarrow> u16 \<Rightarrow> (BConn \<times> BConn, unit) parser" where
  "allToClient down env sid = (\<lambda>p. repeatM (length (c_outData (snd p))) (toClient down env sid) p)"

definition download_over :: "(BConn \<times> BConn, BRFTMessage) parser \<Rightarrow> (BConn \<times> BConn, BRFTMessage) parser \<Rightarrow>
    'b Env \<Rightarrow> 'b Env \<Rightarrow> u16 \<Rightarrow> gostring \<Rightarrow> byte list option \<Rightarrow> nat \<Rightarrow> (BConn \<times> BConn, unit) parser" where
  "download_over up down envC envS sid name checksum k =
     thenM (startTransfer up down envC envS sid name checksum)
     (thenM (onServer (repeatM k (serverStep envS never sid)))
     (allToClient down envC sid))"

abbreviation download ::
  "'b Env \<Rightarrow> 'b Env \<Rightarrow> u16 \<Rightarrow> gostring \<Rightarrow> byte list option \<Rightarrow> nat \<Rightarrow> (BConn \<times> BConn, unit) parser" where
  "download \<equiv> download_over (onClient pop) (onServer pop)"

lemma repeatM_last: "repeatM (Suc k) m = thenM (repeatM k m) m"
proof (induction k)
  case 0
  have "bindM m (\<lambda>_. returnM ()) = m" by (rule ext) (simp add: step_defs split: prod.split outcome.split)
  moreover have "bindM (returnM ()) (\<lambda>_. m) = m" by (rule ext) simp
  ultimately show ?case by simp
next
  case (Suc k)
  have "repeatM (Suc (Suc k)) m = bindM m (\<lambda>_. bindM (repeatM k m) (\<lambda>_. m))" by (simp only: repeatM.simps(2) Suc [symmetric])
  also have "\<dots> = bindM (repeatM (Suc k) m) (\<lambda>_. m)" by (simp only: repeatM.simps(2) bindM_assoc)
  finally show ?case .
qed

lemma length_chunks: "0 < n \<Longrightarrow> length (chunks n xs) + (if n dvd length xs then 1 else 0) = length xs div n + 1"
proof (induction n xs rule: chunks.induct)
  case (1 n xs)
  show ?case
  proof (cases "xs = []")
    case False
    show ?thesis
    proof (cases "length xs < n")
      case True
      with False nat_dvd_not_less [of "length xs" n] show ?thesis by (auto simp: chunks.simps [of n xs])
    next
      case False
      then have "n dvd length xs - n \<longleftrightarrow> n dvd length xs" "(length xs - n) div n + 1 = length xs div n"
        using dvd_minus_nat [of n "length xs"] "1.prems" by (auto simp: le_div_geq)
      with "1" \<open>xs \<noteq> []\<close> show ?thesis by (simp add: chunks.simps [of n xs])
    qed
  qed simp
qed

lemma chunks_bound: "x \<in> set (chunks n xs) \<Longrightarrow> length x \<le> n"
  by (induction n xs rule: chunks.induct) (subst (asm) (2) chunks.simps, auto split: if_splits)

text \<open>The compression both sides agree on, and the size of the chunks.\<close>

definition agreedCompression :: "BOptions \<Rightarrow> byte list \<Rightarrow> bool" where
  "agreedCompression optsC F \<longleftrightarrow>
     GetPreferredCompression optsC = Some CompressionReqHeaderAlgorithmGzip \<and> unat MinFileSize \<le> length F"

definition agreedChunk :: "BOptions \<Rightarrow> BOptions \<Rightarrow> byte list \<Rightarrow> nat" where
  "agreedChunk optsC optsS F =
     nat (ComputeChunkSize (chunkSizeFactor (if agreedCompression optsC F then optsC else optsS)))"

lemma agreedChunk_pos: "0 < agreedChunk optsC optsS F"
  by (simp add: agreedChunk_def ComputeChunkSize_def add_nonneg_pos)

lemma negotiate_request:
  assumes "length F < 2 ^ 63"
  shows "\<exists>hs. negotiate (of_nat (length F)) (fq_OptHeaders (clientReq optsC sid name cs0 cs prev))
      \<lparr>n_status = FileRespStatusOk, n_comp = False, n_chunkSize = ComputeChunkSize (chunkSizeFactor optsS), n_optHeaders = []\<rparr>
    = Some \<lparr>n_status = FileRespStatusOk, n_comp = agreedCompression optsC F, n_chunkSize = int (agreedChunk optsC optsS F), n_optHeaders = hs\<rparr>
    \<and> opts_ok hs \<and> length (opts_wire hs) \<le> 4 \<and> acceptHeaders hs False = Inl (agreedCompression optsC F)"
proof -
  have "unat (of_nat (length F) :: u64) = length F" using assms by (simp add: unat_of_nat take_bit_nat_eq_self)
  then have m: "(of_nat (length F) :: u64) < MinFileSize \<longleftrightarrow> \<not> unat MinFileSize \<le> length F"
    by (simp add: word_less_nat_alt not_le)
  have p: "0 \<le> ComputeChunkSize x" for x by (simp add: ComputeChunkSize_def)
  show ?thesis
  proof (cases "GetPreferredCompression optsC")
    case None
    then show ?thesis by (simp add: clientReq_def agreedCompression_def agreedChunk_def p opts_ok_def opts_wire_def)
  next
    case (Some alg)
    then show ?thesis
      by (simp add: clientReq_def agreedCompression_def agreedChunk_def p opts_ok_def m NewCompressionReqOptionalHeader_def
          addReply_def NewCompressionRespOptionalHeader_def compression_statuses opts_wire_def opt_wire_def base_wire_def)
  qed
qed

lemma decoded_request: "length cs0 = ChecksumSize \<Longrightarrow> length cs = ChecksumSize \<Longrightarrow>
    decoded (BFileReq (clientReq opts sid name cs0 cs prev)) = BFileReq (clientReq opts sid name cs0 cs prev)"
  by (auto simp: clientReq_def sent_checksum_def)

text \<open>A law of the compressor, for the chunks that are sent: they fit a packet.\<close>

definition compressor_within :: "'b Env \<Rightarrow> 'b Env \<Rightarrow> bool \<Rightarrow> nat \<Rightarrow> nat \<Rightarrow> bool" where
  "compressor_within envC envS z n B \<longleftrightarrow> (if z
     then \<forall>x. length x \<le> n \<longrightarrow> (\<exists>d. env_compress envS x = Ok d \<and> env_decompress envC d = Ok x \<and> length d < B)
     else n < B)"

definition compressor_ok :: "'b Env \<Rightarrow> 'b Env \<Rightarrow> bool \<Rightarrow> nat \<Rightarrow> bool" where
  "compressor_ok envC envS z n \<longleftrightarrow> compressor_within envC envS z n (2 ^ 24)"

lemma packed_chunks:
  assumes "compressor_within envC envS z n B" and "B \<le> 2 ^ 24" and "\<forall>x \<in> set xs. length x \<le> n"
  shows "\<exists>ds. list_all2 (packs envS z) xs ds \<and> list_all2 (unpacks envC z) ds xs \<and> (\<forall>d \<in> set ds. length d < B)"
  using assms(3)
proof (induction xs)
  case (Cons x xs)
  then obtain ds where "list_all2 (packs envS z) xs ds" "list_all2 (unpacks envC z) ds xs" "\<forall>d \<in> set ds. length d < B"
    by auto
  moreover have "\<exists>d. packs envS z x d \<and> unpacks envC z d x \<and> length d < B"
  proof (cases z)
    case True
    with assms(1) Cons.prems obtain d where "env_compress envS x = Ok d" "env_decompress envC d = Ok x" "length d < B"
      by (auto simp: compressor_within_def)
    with True assms(2) show ?thesis by (auto simp: packs_def unpacks_def)
  qed (use assms Cons.prems in \<open>auto simp: compressor_within_def packs_def unpacks_def\<close>)
  ultimately show ?case by fastforce
qed simp

text \<open>A client and a server that are ready for the download.\<close>

definition ready :: "'b Env \<Rightarrow> 'b Env \<Rightarrow> u16 \<Rightarrow> gostring \<Rightarrow> byte list \<Rightarrow> byte list option \<Rightarrow> BConn \<Rightarrow> BConn \<Rightarrow> bool" where
  "ready envC envS sid name F prev c s \<longleftrightarrow>
     calm c \<and> c_isClient c \<and> c_outCtrl c = [] \<and> local_part (c_fs c) name (env_sha envS F) prev
     \<and> fs_dir (c_fs c) (env_tmp envC) = None \<and> env_tmp envC \<noteq> name
     \<and> calm s \<and> \<not> c_isClient s \<and> c_outCtrl s = [] \<and> c_outData s = [] \<and> \<not> isDuplicateStreamID sid s
     \<and> fileRegex name \<and> stored (c_fs s) name = Some F \<and> length name \<le> 255
     \<and> F \<noteq> [] \<and> length F < 2 ^ 63 \<and> length (env_sha envS F) = ChecksumSize \<and> env_sha envC F = env_sha envS F
     \<and> (\<forall>d. prev = Some d \<longrightarrow> length d < length F \<and> d = take (length d) F \<and> env_sha envS F \<noteq> zeroChecksum)"

definition offsetIn :: "byte list option \<Rightarrow> nat" where
  "offsetIn prev = (case prev of None \<Rightarrow> 0 | Some d \<Rightarrow> length d)"

lemma request_ok:
  "length cs0 = ChecksumSize \<Longrightarrow> length cs = ChecksumSize \<Longrightarrow> length name \<le> 255 \<Longrightarrow>
     msg_ok (BFileReq (clientReq opts sid name cs0 cs prev))"
  by (simp add: clientReq_def opts_ok_def NewCompressionReqOptionalHeader_def split: option.split)

lemma ready_part:
  assumes "ready envC envS sid name F prev c s"
  shows "(case prev of None \<Rightarrow> [] | Some d \<Rightarrow> d) = take (offsetIn prev) F" and "offsetIn prev < length F"
    and "prev \<noteq> None \<longrightarrow> length (the prev) < 2 ^ 63" and "unat (offsetOf prev) = offsetIn prev"
  using assms by (auto simp: ready_def offsetIn_def offsetOf_def unat_of_nat take_bit_nat_eq_self split: option.splits)

lemma control_sizes:
  "length cs0 = ChecksumSize \<Longrightarrow> length cs = ChecksumSize \<Longrightarrow> length name \<le> 255 \<Longrightarrow>
     length (brft_wire (BFileReq (clientReq opts sid name cs0 cs prev))) \<le> 300"
  "length (opts_wire hs) \<le> 4 \<Longrightarrow> length cs = ChecksumSize \<Longrightarrow>
     length (brft_wire (BFileResp \<lparr>fp_Status = st, fp_OptHeaders = hs, fp_StreamID = sid, fp_FileSize = l, fp_Checksum = cs\<rparr>)) \<le> 300"
  "length cs = ChecksumSize \<Longrightarrow> length (brft_wire (BStart \<lparr>st_StreamID = sid, st_Checksum = cs, st_Offset = off\<rparr>)) \<le> 300"
  "length (brft_wire (closeMsg sid r)) \<le> 300" "length (brft_wire (dataMsg sid d)) = length d + 6"
  by (auto simp: brft_wire_def clientReq_def opts_wire_def opt_wire_def base_wire_def name_wire_def sent_checksum_def
      NewCompressionReqOptionalHeader_def be16_def be24_def be64_def split: option.split)

section \<open>A hop\<close>

context message_link
begin

lemma up_hop:
  assumes "linked (c_conn c) (c_conn s)" and "\<not> c_close c" and "next_out c = Some (brft_wire m, c1)"
    and "msg_ok m" and "length (brft_wire m) \<le> room"
    and "\<And>b. \<exists>s'. serverTakes env sid (decoded m) (s\<lparr>c_conn := b\<rparr>) = (Ok (), s') \<and> R s' \<and> reset b (c_conn s')"
  shows "unless late (toServer up env sid (c, s)) (\<lambda>x. \<exists>a s'. x = (Ok (), (c1\<lparr>c_conn := a\<rparr>, s')) \<and> R s' \<and> linked a (c_conn s'))"
  unfolding toServer_def
proof (rule unless_bind [where m = up, OF up [OF assms(1-5)]])
  fix x assume "\<exists>a b. x = (Ok (decoded m), (c1\<lparr>c_conn := a\<rparr>, s\<lparr>c_conn := b\<rparr>)) \<and> linked a b"
  then obtain a b where x: "x = (Ok (decoded m), (c1\<lparr>c_conn := a\<rparr>, s\<lparr>c_conn := b\<rparr>))" "linked a b" by blast
  from assms(6) [of b] obtain s' where s': "serverTakes env sid (decoded m) (s\<lparr>c_conn := b\<rparr>) = (Ok (), s')" "R s'" "reset b (c_conn s')"
    by blast
  from timeouts [OF x(2) reset_simps(1) s'(3)] x s' show "\<exists>v q. x = (Ok v, q) \<and>
      unless late (onServer (serverTakes env sid v) q) (\<lambda>x. \<exists>a s'. x = (Ok (), (c1\<lparr>c_conn := a\<rparr>, s')) \<and> R s' \<and> linked a (c_conn s'))"
    by (auto simp: on_run intro!: unlessI)
qed

lemma down_hop:
  assumes "linked (c_conn c) (c_conn s)" and "\<not> c_close s" and "next_out s = Some (brft_wire m, s1)"
    and "msg_ok m" and "length (brft_wire m) \<le> room"
    and "\<And>a. \<exists>r c'. deliver env never sid (decoded m) (c\<lparr>c_conn := a\<rparr>) = (r, c') \<and> R r c' \<and> (quiet \<longrightarrow> reset a (c_conn c'))"
  shows "unless late (toClient down env sid (c, s)) (\<lambda>x. \<exists>r c' b. x = (r, (c', s1\<lparr>c_conn := b\<rparr>)) \<and> R r c' \<and> (quiet \<longrightarrow> linked (c_conn c') b))"
  unfolding toClient_def
proof (rule unless_bind [where m = down, OF down [OF assms(1-5)]])
  fix x assume "\<exists>a b. x = (Ok (decoded m), (c\<lparr>c_conn := a\<rparr>, s1\<lparr>c_conn := b\<rparr>)) \<and> linked a b"
  then obtain a b where x: "x = (Ok (decoded m), (c\<lparr>c_conn := a\<rparr>, s1\<lparr>c_conn := b\<rparr>))" "linked a b" by blast
  from assms(6) [of a] obtain r c' where c': "deliver env never sid (decoded m) (c\<lparr>c_conn := a\<rparr>) = (r, c')" "R r c'"
    "quiet \<longrightarrow> reset a (c_conn c')" by blast
  have "quiet \<longrightarrow> linked (c_conn c') b" using timeouts [OF x(2) _ reset_simps(1)] c'(3) by blast
  with x c' show "\<exists>v q. x = (Ok v, q) \<and>
      unless late (onClient (deliver env never sid v) q) (\<lambda>x. \<exists>r c' b. x = (r, (c', s1\<lparr>c_conn := b\<rparr>)) \<and> R r c' \<and> (quiet \<longrightarrow> linked (c_conn c') b))"
    by (auto simp: on_run intro!: unlessI)
qed

end

section \<open>The three hops of the start\<close>

text \<open>The server has answered; the client has accepted and opened the file; the server sends.\<close>

definition response :: "u16 \<Rightarrow> byte list \<Rightarrow> byte list \<Rightarrow> OptionalHeader list \<Rightarrow> FileResp" where
  "response sid F cs hs = \<lparr>fp_Status = FileRespStatusOk, fp_OptHeaders = hs, fp_StreamID = sid,
     fp_FileSize = of_nat (length F), fp_Checksum = cs\<rparr>"

definition startMsg :: "u16 \<Rightarrow> byte list \<Rightarrow> byte list option \<Rightarrow> BRFTMessage" where
  "startMsg sid cs prev = BStart \<lparr>st_StreamID = sid, st_Checksum = cs, st_Offset = offsetOf prev\<rparr>"

definition answered :: "u16 \<Rightarrow> byte list \<Rightarrow> byte list \<Rightarrow> nat \<Rightarrow> bool \<Rightarrow> OptionalHeader list \<Rightarrow> BConn \<Rightarrow> BConn \<Rightarrow> bool" where
  "answered sid F cs n z hs s s1 \<longleftrightarrow> (\<exists>f i. awaiting sid f i F cs n z s1)
     \<and> c_outCtrl s1 = [brft_wire (BFileResp (response sid F cs hs))] \<and> c_outData s1 = []
     \<and> fs_dir (c_fs s1) = fs_dir (c_fs s) \<and> fs_data (c_fs s1) = fs_data (c_fs s)"

definition openingFile :: "u16 \<Rightarrow> gostring \<Rightarrow> byte list \<Rightarrow> bool \<Rightarrow> byte list \<Rightarrow> BConn \<Rightarrow> BConn \<Rightarrow> bool" where
  "openingFile sid name cs z dat c c2 \<longleftrightarrow> (\<exists>f i. receiving sid f i name cs z dat c2)
     \<and> c_table c2 = insert sid (c_table c) \<and> (\<forall>m. m \<noteq> name \<longrightarrow> fs_dir (c_fs c2) m = fs_dir (c_fs c) m)"

definition transmitting :: "u16 \<Rightarrow> byte list \<Rightarrow> nat \<Rightarrow> bool \<Rightarrow> nat \<Rightarrow> BConn \<Rightarrow> BConn \<Rightarrow> bool" where
  "transmitting sid F n z pos s s2 \<longleftrightarrow> (\<exists>f i. sending sid f i F n z pos s2) \<and> c_outCtrl s2 = [] \<and> c_outData s2 = []
     \<and> fs_dir (c_fs s2) = fs_dir (c_fs s) \<and> fs_data (c_fs s2) = fs_data (c_fs s)"

lemma takes_request:
  fixes envS :: "'b Env" and s :: BConn and prev :: "byte list option"
  defines "sha F \<equiv> env_sha envS F"
  assumes "cryptobyte_laws (env_cb envS) viewS" and R: "ready envC envS sid name F prev c s"
    and cs0: "cs0 = zeroChecksum \<or> cs0 = sha F" "length cs0 = ChecksumSize"
    and req: "req = clientReq (c_options c) sid name cs0 (sha F) prev"
    and N: "negotiate (of_nat (length F)) (fq_OptHeaders req)
      \<lparr>n_status = FileRespStatusOk, n_comp = False, n_chunkSize = ComputeChunkSize (chunkSizeFactor (c_options s)), n_optHeaders = []\<rparr>
      = Some \<lparr>n_status = FileRespStatusOk, n_comp = z, n_chunkSize = int n, n_optHeaders = hs\<rparr>" "opts_ok hs"
  shows "\<exists>s1. serverTakes envS sid (BFileReq req) (s\<lparr>c_conn := b\<rparr>) = (Ok (), s1)
    \<and> answered sid F (sha F) n z hs s s1 \<and> reset b (c_conn s1)"
proof -
  note R' = R [unfolded ready_def]
  obtain i where i: "fs_dir (c_fs s) name = Some i" "fs_data (c_fs s) i = F" using R' by (auto simp: stored_def)
  have q: "fq_StreamID req = sid" "fq_FileName req = name" by (simp_all add: req clientReq_def)
  have "fq_Checksum req = zeroChecksum \<and> \<not> IsSet (fq_Flags req) FileReqFlagResumption
      \<or> fq_Checksum req \<noteq> zeroChecksum \<and> fq_Checksum req = sha (fs_data (c_fs s) i)"
    using cs0 R' i(2) by (cases prev) (auto simp: req sha_def clientReq_def IsSet_def)
  then show ?thesis
    using cryptobyte_laws.server_accepts [OF assms(2) refl, of "s\<lparr>c_conn := b\<rparr>" req i _ n False "Ok []" never] q i N R'
    by (auto simp: answered_def response_def serverTakes_def sha_def calm_def isDuplicateStreamID_def)
qed

lemma takes_response:
  fixes prev :: "byte list option"
  assumes "cryptobyte_laws (env_cb envC) viewC" and "asking sid name cs0 (map_option length prev) c1"
    and "local_part (c_fs c1) name cs prev" and "cs0 = zeroChecksum \<or> cs0 = cs" and "length cs = ChecksumSize"
    and "acceptHeaders hs False = Inl z" and "c_outCtrl c1 = []"
  shows "\<exists>c2. deliver envC never sid (BFileResp (response sid F cs hs)) (c1\<lparr>c_conn := a\<rparr>) = (Ok (), c2)
    \<and> (openingFile sid name cs z (case prev of None \<Rightarrow> [] | Some d \<Rightarrow> d) c1 c2 \<and> c_outCtrl c2 = [brft_wire (startMsg sid cs prev)])
    \<and> reset a (c_conn c2)"
  using cryptobyte_laws.client_accepts [OF assms(1) refl, of sid name cs0 prev "c1\<lparr>c_conn := a\<rparr>" cs "response sid F cs hs" z never]
    assms(2-)
  by (auto simp: asking_def calm_def openingFile_def response_def startMsg_def)

lemma openingFile_from:
  "openingFile sid name cs z dat c1 c2 \<Longrightarrow> c_table c1 = insert sid (c_table c) \<Longrightarrow> fs_dir (c_fs c1) = fs_dir (c_fs c)
    \<Longrightarrow> openingFile sid name cs z dat c c2"
  by (simp add: openingFile_def)

lemma openingFile_conn:
  "openingFile sid name cs z dat c c2 \<Longrightarrow> openingFile sid name cs z dat c (c2\<lparr>c_outCtrl := q, c_conn := a\<rparr>)"
  by (simp add: openingFile_def receiving_def calm_def)

lemma takes_start:
  assumes "cryptobyte_laws (env_cb envS) viewS" and "answered sid F cs n z hs s s1"
    and "unat (offsetOf prev) < length F" and "length F < 2 ^ 63"
  shows "\<exists>s2. serverTakes envS sid (startMsg sid cs prev) (s1\<lparr>c_outCtrl := [], c_conn := b\<rparr>) = (Ok (), s2)
    \<and> transmitting sid F n z (unat (offsetOf prev)) s s2 \<and> reset b (c_conn s2)"
proof -
  obtain f i where A: "awaiting sid f i F cs n z (s1\<lparr>c_outCtrl := [], c_conn := b\<rparr>)"
    using assms(2) by (auto simp: answered_def awaiting_def calm_def)
  show ?thesis
    using cryptobyte_laws.server_starts [OF assms(1) A assms(3,4), of envS False "Ok []" never] assms(2)
    by (auto simp: transmitting_def answered_def startMsg_def serverTakes_def)
qed

section \<open>A download over a link\<close>

lemma offered_checksum:
  "length (cs :: byte list) = ChecksumSize \<Longrightarrow> checksum = None \<or> checksum = Some cs \<Longrightarrow>
     cs0 = (case checksum of None \<Rightarrow> zeroChecksum | Some x \<Rightarrow> x) \<Longrightarrow>
     (cs0 = zeroChecksum \<or> cs0 = cs) \<and> length cs0 = ChecksumSize"
  by (auto simp: zeroChecksum_def)

context message_link
begin

lemma request_hop:
  fixes envS :: "'b Env" and c s c1 :: BConn and F name sid prev
  defines "n \<equiv> agreedChunk (c_options c) (c_options s) F" and "z \<equiv> agreedCompression (c_options c) F"
    and "cs \<equiv> env_sha envS F"
  defines "req cs0 \<equiv> clientReq (c_options c) sid name cs0 cs prev"
  assumes S: "cryptobyte_laws (env_cb envS) viewS"
    and R: "ready envC envS sid name F prev c s" and L: "linked (c_conn c1) (c_conn s)" "300 \<le> room"
    and cs0: "cs0 = zeroChecksum \<or> cs0 = cs" "length cs0 = ChecksumSize" and len: "length cs = ChecksumSize"
    and c1: "c_outCtrl c1 = [brft_wire (BFileReq (req cs0))]" "\<not> c_close c1"
  shows "\<exists>hs. opts_ok hs \<and> length (opts_wire hs) \<le> 4 \<and> acceptHeaders hs False = Inl z
    \<and> unless late (toServer up envS sid (c1, s)) (\<lambda>x. \<exists>a s1. x = (Ok (), (c1\<lparr>c_outCtrl := [], c_conn := a\<rparr>, s1))
      \<and> answered sid F cs n z hs s s1 \<and> linked a (c_conn s1))"
proof -
  note R' = R [unfolded ready_def]
  have name: "length name \<le> 255" and F: "length F < 2 ^ 63" using R' by blast+
  obtain hs where N: "negotiate (of_nat (length F)) (fq_OptHeaders (req cs0))
      \<lparr>n_status = FileRespStatusOk, n_comp = False, n_chunkSize = ComputeChunkSize (chunkSizeFactor (c_options s)), n_optHeaders = []\<rparr>
      = Some \<lparr>n_status = FileRespStatusOk, n_comp = z, n_chunkSize = int n, n_optHeaders = hs\<rparr>"
    "opts_ok hs" "length (opts_wire hs) \<le> 4" "acceptHeaders hs False = Inl z"
    using negotiate_request [OF F, of "c_options c" sid name cs0 cs prev "c_options s"] by (auto simp: req_def n_def z_def)
  have dec: "decoded (BFileReq (req cs0)) = BFileReq (req cs0)" and ok: "msg_ok (BFileReq (req cs0))"
    unfolding req_def by (rule decoded_request [OF cs0(2) len], rule request_ok [OF cs0(2) len name])
  have l: "length (brft_wire (BFileReq (req cs0))) \<le> room"
    using control_sizes(1) [OF cs0(2) len name] L(2) unfolding req_def by (rule order_trans)
  note takes = takes_request [OF S R cs0 [unfolded cs_def] refl, folded cs_def, folded req_def, OF N(1,2)]
  have "unless late (toServer up envS sid (c1, s)) (\<lambda>x. \<exists>a s1. x = (Ok (), (c1\<lparr>c_outCtrl := [], c_conn := a\<rparr>, s1))
      \<and> answered sid F cs n z hs s s1 \<and> linked a (c_conn s1))"
    by (rule up_hop [OF L(1) c1(2) next_out_ctrl [OF c1(1)] ok l, unfolded dec, OF takes])
  with N show ?thesis by blast
qed

lemma response_hop:
  fixes prev :: "byte list option"
  assumes C: "cryptobyte_laws (env_cb envC) viewC" and A: "answered sid F cs n z hs s s1"
    and L: "linked (c_conn c1) (c_conn s1)" "300 \<le> room" and hs: "opts_ok hs" "length (opts_wire hs) \<le> 4" "acceptHeaders hs False = Inl z"
    and c1: "asking sid name cs0 (map_option length prev) c1" "local_part (c_fs c1) name cs prev" "c_outCtrl c1 = []"
    and cs: "cs0 = zeroChecksum \<or> cs0 = cs" "length cs = ChecksumSize"
  shows "unless late (toClient down envC sid (c1, s1)) (\<lambda>x. \<exists>c2 b. x = (Ok (), (c2, s1\<lparr>c_outCtrl := [], c_conn := b\<rparr>))
      \<and> openingFile sid name cs z (case prev of None \<Rightarrow> [] | Some d \<Rightarrow> d) c1 c2
      \<and> c_outCtrl c2 = [brft_wire (startMsg sid cs prev)] \<and> linked (c_conn c2) b)"
proof -
  let ?m = "BFileResp (response sid F cs hs)"
    and ?R = "\<lambda>r c2. r = Ok () \<and> openingFile sid name cs z (case prev of None \<Rightarrow> [] | Some d \<Rightarrow> d) c1 c2
      \<and> c_outCtrl c2 = [brft_wire (startMsg sid cs prev)]"
  have s1: "\<not> c_close s1" "c_outCtrl s1 = [brft_wire ?m]" using A by (auto simp: answered_def awaiting_def calm_def)
  have ok: "msg_ok ?m" using hs(1) cs(2) by (simp add: response_def)
  have l: "length (brft_wire ?m) \<le> room"
    using control_sizes(2) [OF hs(2) cs(2)] L(2) unfolding response_def by (rule order_trans)
  have "\<exists>r c2. deliver envC never sid (decoded ?m) (c1\<lparr>c_conn := a\<rparr>) = (r, c2) \<and> ?R r c2 \<and> (True \<longrightarrow> reset a (c_conn c2))" for a
    using takes_response [OF C c1(1,2) cs hs(3) c1(3), of F a] by auto
  from down_hop [OF L(1) s1(1) next_out_ctrl [OF s1(2)] ok l, of envC sid ?R True, OF this] show ?thesis
    by (rule unless_mono) blast
qed

lemma start_hop:
  fixes prev :: "byte list option"
  assumes S: "cryptobyte_laws (env_cb envS) viewS" and A: "answered sid F cs n z hs s s1"
    and L: "linked (c_conn c2) b" "300 \<le> room" and c2: "openingFile sid name cs z dat c c2" "c_outCtrl c2 = [brft_wire (startMsg sid cs prev)]"
    and off: "unat (offsetOf prev) < length F" "length F < 2 ^ 63" and len: "length cs = ChecksumSize"
  shows "unless late (toServer up envS sid (c2, s1\<lparr>c_outCtrl := [], c_conn := b\<rparr>)) (\<lambda>x. \<exists>a s2.
      x = (Ok (), (c2\<lparr>c_outCtrl := [], c_conn := a\<rparr>, s2)) \<and> transmitting sid F n z (unat (offsetOf prev)) s s2 \<and> linked a (c_conn s2))"
proof (rule up_hop [OF _ _ next_out_ctrl [OF c2(2)]])
  show "linked (c_conn c2) (c_conn (s1\<lparr>c_outCtrl := [], c_conn := b\<rparr>))" using L(1) by simp
  show "\<not> c_close c2" using c2(1) by (auto simp: openingFile_def receiving_def calm_def)
  show "msg_ok (startMsg sid cs prev)" using len by (simp add: startMsg_def)
  show "length (brft_wire (startMsg sid cs prev)) \<le> room"
    using control_sizes(3) [OF len] L(2) unfolding startMsg_def by (rule order_trans)
  show "\<exists>s2. serverTakes envS sid (decoded (startMsg sid cs prev)) (s1\<lparr>c_outCtrl := [], c_conn := b\<rparr>\<lparr>c_conn := b'\<rparr>) = (Ok (), s2)
    \<and> transmitting sid F n z (unat (offsetOf prev)) s s2 \<and> reset b' (c_conn s2)" for b'
    using takes_start [OF S A off, of b'] by (simp add: startMsg_def)
qed

lemma transfer_started:
  fixes envC envS :: "'b Env" and c s :: BConn and F name prev
  defines "n \<equiv> agreedChunk (c_options c) (c_options s) F" and "z \<equiv> agreedCompression (c_options c) F"
    and "cs \<equiv> env_sha envS F"
  assumes C: "cryptobyte_laws (env_cb envC) viewC" and S: "cryptobyte_laws (env_cb envS) viewS"
    and R: "ready envC envS sid name F prev c s" and L: "linked (c_conn c) (c_conn s)" "300 \<le> room"
    and cs: "checksum = None \<or> checksum = Some cs"
  shows "unless late (startTransfer up down envC envS sid name checksum (c, s))
    (\<lambda>x. \<exists>c3 s2. x = (Ok (), (c3, s2)) \<and> openingFile sid name cs z (take (offsetIn prev) F) c c3
       \<and> transmitting sid F n z (offsetIn prev) s s2 \<and> linked (c_conn c3) (c_conn s2))"
proof -
  define cs0 where "cs0 = (case checksum of None \<Rightarrow> zeroChecksum | Some x \<Rightarrow> x)"
  note R' = R [unfolded ready_def] and part = ready_part [OF R]
  have len: "length cs = ChecksumSize" using R' by (simp add: cs_def)
  from offered_checksum [OF len cs cs0_def] have cs0: "cs0 = zeroChecksum \<or> cs0 = cs" "length cs0 = ChecksumSize" by blast+
  obtain info c1 where c1: "DownloadFile envC False sid name checksum c = (Ok info, c1)"
      "c_outCtrl c1 = [brft_wire (BFileReq (clientReq (c_options c) sid name cs0 cs prev))]"
    "asking sid name cs0 (map_option length prev) c1" "local_part (c_fs c1) name cs prev" "c_table c1 = insert sid (c_table c)"
    "fs_dir (c_fs c1) = fs_dir (c_fs c)" "reset (c_conn c) (c_conn c1)"
    using cryptobyte_laws.client_asks [OF C refl, of c name cs prev checksum False sid] R' part(3) cs0(2) len
    by (auto simp: cs0_def cs_def)
  have l1: "linked (c_conn c1) (c_conn s)" using timeouts [OF L(1) c1(7)] by simp
  have open1: "\<not> c_close c1" using c1(3) by (simp add: asking_def calm_def)
  note RC = request_hop [OF S R l1 L(2) cs0 [unfolded cs_def] len [unfolded cs_def] c1(2) [unfolded cs_def] open1]
  obtain hs where hs: "opts_ok hs" "length (opts_wire hs) \<le> 4" "acceptHeaders hs False = Inl z"
    and h1: "unless late (toServer up envS sid (c1, s)) (\<lambda>x. \<exists>a s1. x = (Ok (), (c1\<lparr>c_outCtrl := [], c_conn := a\<rparr>, s1))
      \<and> answered sid F cs n z hs s s1 \<and> linked a (c_conn s1))"
    using RC unfolding cs_def n_def z_def by blast
  let ?Q = "\<lambda>x. \<exists>c3 s2. x = (Ok (), (c3, s2)) \<and> openingFile sid name cs z (take (offsetIn prev) F) c c3
       \<and> transmitting sid F n z (offsetIn prev) s s2 \<and> linked (c_conn c3) (c_conn s2)"
  have h3: "unless late (toServer up envS sid (c2, s1\<lparr>c_outCtrl := [], c_conn := b\<rparr>)) ?Q"
    if "answered sid F cs n z hs s s1" "openingFile sid name cs z (take (offsetIn prev) F) c c2"
      "c_outCtrl c2 = [brft_wire (startMsg sid cs prev)]" "linked (c_conn c2) b" for c2 s1 b
    using start_hop [OF S that(1,4) L(2) that(2,3) _ _ len] part(2,4) R'
    by (fastforce elim!: unless_mono intro: openingFile_conn [OF that(2)])
  have h2: "unless late (thenM (toClient down envC sid) (toServer up envS sid) (c1\<lparr>c_outCtrl := [], c_conn := a\<rparr>, s1)) ?Q"
    if A: "answered sid F cs n z hs s s1" "linked a (c_conn s1)" for a s1
  proof (rule unless_bind [where m = "toClient down envC sid", OF response_hop [OF C A(1) _ L(2) hs]])
    show "asking sid name cs0 (map_option length prev) (c1\<lparr>c_outCtrl := [], c_conn := a\<rparr>)"
      using c1(3) by (simp add: asking_def calm_def)
  qed (use c1 A cs0 len openingFile_from h3 part(1) in \<open>auto\<close>)
  have "unless late (thenM (toServer up envS sid) (thenM (toClient down envC sid) (toServer up envS sid)) (c1, s)) ?Q"
    by (rule unless_bind [where m = "toServer up envS sid", OF h1]) (use h2 in blast)
  then show ?thesis by (simp add: startTransfer_def on_run c1(1))
qed

text \<open>The data packets, one hop each.\<close>

lemma data_hops:
  assumes "receiving sid f i name cs z dat c" and "linked (c_conn c) (c_conn s)" and "\<not> c_close s" and "c_outCtrl s = []"
    and "c_outData s = map (\<lambda>d. brft_wire (dataMsg sid d)) ds @ rest"
    and "list_all2 (unpacks envC z) ds xs" and "\<forall>d \<in> set ds. length d < B" and "B \<le> 2 ^ 24" and "B + 6 \<le> room"
  shows "unless late (repeatM (length ds) (toClient down envC sid) (c, s)) (\<lambda>x. \<exists>c' b. x = (Ok (), (c', s\<lparr>c_outData := rest, c_conn := b\<rparr>))
    \<and> receiving sid f i name cs z (dat @ concat xs) c' \<and> c_table c' = c_table c \<and> fs_dir (c_fs c') = fs_dir (c_fs c)
    \<and> linked (c_conn c') b)"
  using assms(6,1-5,7)
proof (induction ds xs arbitrary: c s dat rule: list_all2_induct)
  case Nil
  then have r: "rest = c_outData s" by simp
  from Nil show ?case unfolding r by (intro unlessI exI [of _ c] exI [of _ "c_conn s"]) (simp add: returnM_def)
next
  case (Cons d ds x xs)
  let ?s = "s\<lparr>c_outData := map (\<lambda>d. brft_wire (dataMsg sid d)) ds @ rest\<rparr>"
    and ?R = "\<lambda>r c'. r = Ok () \<and> receiving sid f i name cs z (dat @ x) c' \<and> c_table c' = c_table c \<and> fs_dir (c_fs c') = fs_dir (c_fs c)"
  have d: "length d < B" "length d < 2 ^ 24" using Cons.prems(6) assms(8) by auto
  then have l: "length (brft_wire (dataMsg sid d)) \<le> room" using control_sizes(5) [of sid d] assms(9) by linarith
  have nx: "next_out s = Some (brft_wire (dataMsg sid d), ?s)" using Cons.prems(4,5) by (simp add: next_out_def)
  have "\<exists>r c'. deliver envC never sid (decoded (dataMsg sid d)) (c\<lparr>c_conn := a\<rparr>) = (r, c') \<and> ?R r c' \<and> (True \<longrightarrow> reset a (c_conn c'))" for a
    using deliver_data [of sid f i name cs z dat "c\<lparr>c_conn := a\<rparr>" envC d x never] Cons.hyps(1) Cons.prems(1)
    by (auto simp: receiving_def calm_def)
  from down_hop [OF Cons.prems(2,3) nx _ l, of envC sid ?R True, OF _ this] d(2)
  have H: "unless late (toClient down envC sid (c, s)) (\<lambda>y. \<exists>r c' b. y = (r, c', ?s\<lparr>c_conn := b\<rparr>) \<and> ?R r c' \<and> (True \<longrightarrow> linked (c_conn c') b))"
    by simp
  show ?case
    unfolding length_Cons repeatM.simps
  proof (rule unless_bind [where m = "toClient down envC sid", OF H])
    fix y assume "\<exists>r c' b. y = (r, c', ?s\<lparr>c_conn := b\<rparr>) \<and> ?R r c' \<and> (True \<longrightarrow> linked (c_conn c') b)"
    then obtain c' b where y: "y = (Ok (), c', ?s\<lparr>c_conn := b\<rparr>)" "receiving sid f i name cs z (dat @ x) c'"
      "c_table c' = c_table c" "fs_dir (c_fs c') = fs_dir (c_fs c)" "linked (c_conn c') b" by blast
    from Cons.IH [OF y(2), of "?s\<lparr>c_conn := b\<rparr>"] y Cons.prems(3,4,6)
    have "unless late (repeatM (length ds) (toClient down envC sid) (c', ?s\<lparr>c_conn := b\<rparr>)) (\<lambda>x'. \<exists>c'' b'.
        x' = (Ok (), (c'', s\<lparr>c_outData := rest, c_conn := b'\<rparr>)) \<and> receiving sid f i name cs z (dat @ concat (x # xs)) c''
      \<and> c_table c'' = c_table c \<and> fs_dir (c_fs c'') = fs_dir (c_fs c) \<and> linked (c_conn c'') b')"
      by simp
    with y(1) show "\<exists>v q. y = (Ok v, q) \<and> unless late (repeatM (length ds) (toClient down envC sid) q) (\<lambda>x'. \<exists>c'' b'.
        x' = (Ok (), (c'', s\<lparr>c_outData := rest, c_conn := b'\<rparr>)) \<and> receiving sid f i name cs z (dat @ concat (x # xs)) c''
      \<and> c_table c'' = c_table c \<and> fs_dir (c_fs c'') = fs_dir (c_fs c) \<and> linked (c_conn c'') b')" by blast
  qed
qed

text \<open>The last packet closes the stream.\<close>

lemma close_hop:
  assumes R: "receiving sid f i name cs z F c" and L: "linked (c_conn c) (c_conn s)" "300 \<le> room" and s: "\<not> c_close s" "c_outCtrl s = []"
    "c_outData s = [brft_wire (closeMsg sid (lastReason n rest))]"
    and sha: "env_sha envC F = cs" and tmp: "fs_dir (c_fs c) (env_tmp envC) = None"
  shows "unless late (toClient down envC sid (c, s)) (\<lambda>x. \<exists>c' b. x = (if c_table c \<subseteq> {sid} then Block else Ok (), (c', s\<lparr>c_outData := [], c_conn := b\<rparr>))
    \<and> stored (c_fs c') name = Some (if n dvd rest then pending cs F else F))"
proof -
  let ?r = "lastReason n rest"
    and ?R = "\<lambda>r c'. r = (if c_table c \<subseteq> {sid} then Block else Ok ()) \<and> stored (c_fs c') name = Some (if n dvd rest then pending cs F else F)"
  have nx: "next_out s = Some (brft_wire (closeMsg sid ?r), s\<lparr>c_outData := []\<rparr>)" using s(2,3) by (simp add: next_out_def)
  have sub: "c_table c \<subseteq> {sid} \<longleftrightarrow> c_table c = {sid}" using R by (auto simp: receiving_def)
  have "\<exists>r c'. deliver envC never sid (decoded (closeMsg sid ?r)) (c\<lparr>c_conn := a\<rparr>) = (r, c') \<and> ?R r c' \<and> (False \<longrightarrow> reset a (c_conn c'))" for a
  proof -
    have R': "receiving sid f i name cs z F (c\<lparr>c_conn := a\<rparr>)" using R by (simp add: receiving_def calm_def)
    have tab: "c_table (c\<lparr>c_conn := a\<rparr>) = c_table c" "fs_dir (c_fs (c\<lparr>c_conn := a\<rparr>)) (env_tmp envC) = None" using tmp by simp_all
    have "\<exists>c'. deliver envC never sid (closeMsg sid ?r) (c\<lparr>c_conn := a\<rparr>) = (if c_table c = {sid} then Block else Ok (), c')
        \<and> stored (c_fs c') name = Some (if n dvd rest then pending cs F else F)"
    proof (cases "n dvd rest")
      case True
      then have "?r \<noteq> CloseReasonTransferComplete" by (simp add: lastReason_def close_reasons)
      from deliver_close [OF R' this, of envC never] obtain c'
        where "deliver envC never sid (closeMsg sid ?r) (c\<lparr>c_conn := a\<rparr>) = (if c_table c = {sid} then Block else Ok (), c')"
          "stored (c_fs c') name = Some (pending cs F)" unfolding tab by blast
      with True show ?thesis by (intro exI [of _ c']) simp
    next
      case False
      from deliver_complete [OF R' sha tab(2), of never] obtain c'
        where "deliver envC never sid (closeMsg sid ?r) (c\<lparr>c_conn := a\<rparr>) = (if c_table c = {sid} then Block else Ok (), c')"
          "stored (c_fs c') name = Some F" unfolding tab lastReason_def if_not_P [OF False] by blast
      with False show ?thesis by (intro exI [of _ c']) simp
    qed
    then show ?thesis unfolding sub decoded.simps by blast
  qed
  from down_hop [OF L(1) s(1) nx _ order_trans [OF control_sizes(4) L(2)], of envC sid ?R False, OF _ this]
  have "unless late (toClient down envC sid (c, s)) (\<lambda>x. \<exists>r c' b. x = (r, (c', s\<lparr>c_outData := [], c_conn := b\<rparr>)) \<and> ?R r c' \<and> (False \<longrightarrow> linked (c_conn c') b))"
    by simp
  then show ?thesis by (rule unless_mono) blast
qed

lemma transfer_result:
  assumes S: "cryptobyte_laws (env_cb envS) viewS"
    and O: "openingFile sid name cs z (take pos F) c c2" and T: "transmitting sid F n z pos s s2" and L: "linked (c_conn c2) (c_conn s2)"
    and Z: "compressor_within envC envS z n B" "B \<le> 2 ^ 24" "B + 6 \<le> room" "300 \<le> room" and n: "0 < n" and pos: "pos < length F"
    and sha: "env_sha envC F = cs" and tmp: "fs_dir (c_fs c) (env_tmp envC) = None" "env_tmp envC \<noteq> name"
  shows "unless late (thenM (onServer (repeatM ((length F - pos) div n + 1) (serverStep envS never sid))) (allToClient down envC sid) (c2, s2))
    (\<lambda>x. \<exists>c' s'. x = (if c_table c \<subseteq> {sid} then Block else Ok (), (c', s'))
      \<and> stored (c_fs c') name = Some (if n dvd length F - pos then pending cs F else F)
      \<and> sid \<notin> c_table s' \<and> fs_data (c_fs s') = fs_data (c_fs s) \<and> fs_dir (c_fs s') = fs_dir (c_fs s))"
proof -
  let ?xs = "chunks n (drop pos F)" and ?k = "(length F - pos) div n + 1" and ?r = "lastReason n (length F - pos)"
  obtain g j f i where st: "receiving sid g j name cs z (take pos F) c2" "sending sid f i F n z pos s2"
    using O T unfolding openingFile_def transmitting_def by blast
  obtain ds where ds: "list_all2 (packs envS z) ?xs ds" "list_all2 (unpacks envC z) ds ?xs" "\<forall>d \<in> set ds. length d < B"
    using packed_chunks [OF Z(1,2), of ?xs] chunks_bound by blast
  have k: "length ds + (if n dvd length F - pos then 1 else 0) = ?k"
    using length_chunks [OF n, of "drop pos F"] list_all2_lengthD [OF ds(1)] by simp
  obtain s3 where s3: "repeatM ?k (serverStep envS never sid) s2 = (Ok (), s3)" "sent sid ds ?r s2 s3"
    using cryptobyte_laws.server_sends [OF S refl st(2) n _ ds(1), of never] pos k by auto
  have out: "c_outData s3 = map (\<lambda>d. brft_wire (dataMsg sid d)) ds @ [brft_wire (closeMsg sid ?r)]" "c_outCtrl s3 = []" "\<not> c_close s3"
    using s3(2) T st(2) by (auto simp: sent_def transmitting_def sending_def calm_def)
  have L3: "linked (c_conn c2) (c_conn s3)" using timeouts [OF L reset_simps(1)] s3(2) by (simp add: sent_def)
  have F: "take pos F @ concat ?xs = F" using concat_chunks [OF n] by simp
  let ?Q = "\<lambda>x. \<exists>c' s'. x = (if c_table c \<subseteq> {sid} then Block else Ok (), (c', s'))
      \<and> stored (c_fs c') name = Some (if n dvd length F - pos then pending cs F else F)
      \<and> sid \<notin> c_table s' \<and> fs_data (c_fs s') = fs_data (c_fs s) \<and> fs_dir (c_fs s') = fs_dir (c_fs s)"
  have close: "unless late (toClient down envC sid (c3, s3\<lparr>c_outData := [brft_wire (closeMsg sid ?r)], c_conn := b\<rparr>)) ?Q"
    if "receiving sid g j name cs z F c3" "c_table c3 = c_table c2" "fs_dir (c_fs c3) = fs_dir (c_fs c2)" "linked (c_conn c3) b" for c3 b
  proof -
    have t: "c_table c3 \<subseteq> {sid} \<longleftrightarrow> c_table c \<subseteq> {sid}" "fs_dir (c_fs c3) (env_tmp envC) = None"
      using that(2,3) O tmp by (auto simp: openingFile_def)
    have "sid \<notin> c_table s3" "fs_data (c_fs s3) = fs_data (c_fs s)" "fs_dir (c_fs s3) = fs_dir (c_fs s)"
      using s3(2) T by (auto simp: sent_def transmitting_def)
    with t(1) show ?thesis
      using close_hop [OF that(1) _ Z(4) _ _ _ sha t(2), of "s3\<lparr>c_outData := [brft_wire (closeMsg sid ?r)], c_conn := b\<rparr>" n "length F - pos"]
        that(4) out(2,3) by (fastforce elim!: unless_mono)
  qed
  have "unless late (thenM (repeatM (length ds) (toClient down envC sid)) (toClient down envC sid) (c2, s3)) ?Q"
    by (rule unless_bind [where m = "repeatM (length ds) (toClient down envC sid)", OF data_hops [OF st(1) L3 out(3,2,1) ds(2,3) Z(2,3), unfolded F]])
      (use close in blast)
  then have "unless late (allToClient down envC sid (c2, s3)) ?Q"
    using out(1) repeatM_last [of "length ds" "toClient down envC sid"] by (simp add: allToClient_def del: repeatM.simps)
  then show ?thesis
    unfolding on_run by (simp only: s3(1) fst_conv snd_conv prod.case outcome.case)
qed

text \<open>The whole download.\<close>

lemma download_over_link:
  assumes C: "cryptobyte_laws (env_cb envC) viewC" and S: "cryptobyte_laws (env_cb envS) viewS"
    and R: "ready envC envS sid name F prev c s" and n: "n = agreedChunk (c_options c) (c_options s) F"
    and rest: "rest = length F - offsetIn prev"
    and Z: "compressor_within envC envS (agreedCompression (c_options c) F) n B" "B \<le> 2 ^ 24" "B + 6 \<le> room" "300 \<le> room"
    and cs: "checksum = None \<or> checksum = Some (env_sha envS F)" and L: "linked (c_conn c) (c_conn s)"
  shows "unless late (download_over up down envC envS sid name checksum (rest div n + 1) (c, s))
    (\<lambda>x. \<exists>c' s'. x = (if c_table c \<subseteq> {sid} then Block else Ok (), (c', s'))
      \<and> stored (c_fs c') name = Some (if n dvd rest then pending (env_sha envS F) F else F)
      \<and> sid \<notin> c_table s' \<and> fs_data (c_fs s') = fs_data (c_fs s) \<and> fs_dir (c_fs s') = fs_dir (c_fs s))"
  unfolding download_over_def
proof (rule unless_bind [where m = "startTransfer up down envC envS sid name checksum", OF transfer_started [OF C S R L Z(4) cs]])
  have n0: "0 < n" using n agreedChunk_pos by simp
  have "env_sha envC F = env_sha envS F" "fs_dir (c_fs c) (env_tmp envC) = None" "env_tmp envC \<noteq> name"
    using R by (simp_all add: ready_def)
  note T = transfer_result [OF S _ _ _ Z n0 ready_part(2) [OF R] this, folded rest]
  fix x assume "\<exists>c3 s2. x = (Ok (), (c3, s2)) \<and> openingFile sid name (env_sha envS F) (agreedCompression (c_options c) F) (take (offsetIn prev) F) c c3
       \<and> transmitting sid F (agreedChunk (c_options c) (c_options s) F) (agreedCompression (c_options c) F) (offsetIn prev) s s2
       \<and> linked (c_conn c3) (c_conn s2)"
  then obtain c3 s2 where x: "x = (Ok (), (c3, s2))" "openingFile sid name (env_sha envS F) (agreedCompression (c_options c) F) (take (offsetIn prev) F) c c3"
    "transmitting sid F n (agreedCompression (c_options c) F) (offsetIn prev) s s2" "linked (c_conn c3) (c_conn s2)"
    unfolding n by blast
  with T [OF x(2-4)] show "\<exists>v q. x = (Ok v, q) \<and>
      unless late (thenM (onServer (repeatM (rest div n + 1) (serverStep envS never sid))) (allToClient down envC sid) q)
    (\<lambda>x. \<exists>c' s'. x = (if c_table c \<subseteq> {sid} then Block else Ok (), (c', s'))
      \<and> stored (c_fs c') name = Some (if n dvd rest then pending (env_sha envS F) F else F)
      \<and> sid \<notin> c_table s' \<and> fs_data (c_fs s') = fs_data (c_fs s) \<and> fs_dir (c_fs s') = fs_dir (c_fs s))"
    by blast
qed

end

text \<open>On the link without a transport nothing is late.\<close>

lemma download_result:
  assumes C: "cryptobyte_laws (env_cb envC) viewC" and S: "cryptobyte_laws (env_cb envS) viewS"
    and R: "ready envC envS sid name F prev c s" and n: "n = agreedChunk (c_options c) (c_options s) F"
    and rest: "rest = length F - offsetIn prev"
    and Z: "compressor_ok envC envS (agreedCompression (c_options c) F) n"
    and cs: "checksum = None \<or> checksum = Some (env_sha envS F)"
  shows "\<exists>c' s'. download envC envS sid name checksum (rest div n + 1) (c, s)
      = (if c_table c \<subseteq> {sid} then Block else Ok (), (c', s'))
    \<and> stored (c_fs c') name = Some (if n dvd rest then pending (env_sha envS F) F else F)
    \<and> sid \<notin> c_table s' \<and> fs_data (c_fs s') = fs_data (c_fs s) \<and> fs_dir (c_fs s') = fs_dir (c_fs s)"
  using direct.download_over_link [OF C S R n rest Z [unfolded compressor_ok_def] order_refl _ _ cs TrueI, of "2 ^ 24 + 300"]
  by (simp add: unless_never)

end
