(* ===== verification/Brft_Stream.thy ===== *)
theory Brft_Stream
  imports Btp_Session Brft_Messages
begin

text \<open>
  The file transfer messages on the byte stream of a connection. The locale \<open>stream_codec\<close> is
  the contract between a wire format and its reader: one encoded value is read back and
  exactly its bytes are consumed. It gives the framing of sequences of messages, and is
  interpreted on the messages of brft/messages and on the optional headers, both read from
  \<open>Conn.Read\<close>.
\<close>

section \<open>Framing\<close>

primrec read_many :: "('r, 'a) parser \<Rightarrow> nat \<Rightarrow> ('r, 'a list) parser" where
  "read_many dec 0 = returnM []"
| "read_many dec (Suc n) = bindM dec (\<lambda>x. bindM (read_many dec n) (\<lambda>xs. returnM (x # xs)))"

locale stream_codec =
  fixes enc :: "'m \<Rightarrow> byte list" and dec :: "('r, 'a) parser" and avail :: "'r \<Rightarrow> byte list"
    and ok :: "'m \<Rightarrow> bool" and result :: "'m \<Rightarrow> 'a"
  assumes dec_enc: "ok m \<Longrightarrow> parses avail dec (enc m) (result m)"
    and avail_any: "\<exists>r. avail r = bs"
begin

lemma read_many_enc:
  "\<forall>m \<in> set ms. ok m \<Longrightarrow> parses avail (read_many dec (length ms)) (concat (map enc ms)) (map result ms)"
proof (induction ms)
  case (Cons m ms)
  then show ?case
    unfolding list.map concat.simps length_Cons read_many.simps
    by (intro parses_bind [OF dec_enc] parses_last) auto
qed (simp add: parses_return)

text \<open>No encoding is a proper prefix of another, so a stream splits in one way only.\<close>

lemma enc_unique:
  assumes "ok m" and "ok m'" and "enc m @ xs = enc m' @ ys"
  shows "result m = result m' \<and> xs = ys"
proof -
  obtain r where r: "avail r = enc m @ xs" using avail_any by blast
  from parsesD [OF dec_enc [OF assms(1)] r] parsesD [OF dec_enc [OF assms(2)], of r ys] r assms(3)
  show ?thesis by auto
qed

lemma stream_unique:
  assumes "\<forall>m \<in> set ms. ok m" and "\<forall>m \<in> set ms'. ok m" and "length ms = length ms'"
    and "concat (map enc ms) @ xs = concat (map enc ms') @ ys"
  shows "map result ms = map result ms' \<and> xs = ys"
proof -
  obtain r where r: "avail r = concat (map enc ms) @ xs" using avail_any by blast
  from parsesD [OF read_many_enc [OF assms(1)] r] parsesD [OF read_many_enc [OF assms(2)], of r ys] r assms(3,4)
  show ?thesis by auto
qed

end

lemma unread_any: "\<exists>c. unread c = bs"
proof
  let ?c = "(fresh_conn NewDefaultOptions 0 \<lparr>gen_next = 0\<rparr>)\<lparr>readBuf := bs\<rparr>"
  have "Next (NewDataReader 100 50) = (Block, NewDataReader 100 50)"
    by (simp add: Next_def NewDataReader_def slot_def)
  then have "drain (NewDataReader 100 50) = []" by (simp add: drain.simps)
  then show "unread ?c = bs" by (simp add: unread_def fresh_conn_def)
qed

interpretation brft_stream: stream_codec brft_wire "readMsg Conn_Read" unread msg_ok
    "\<lambda>m. (decoded m, headerForMessage m)"
  by unfold_locales (auto simp: unread_any intro: stream_source.parses_readMsg [OF conn_reader.stream_source_axioms])

interpretation opts_stream: stream_codec opts_wire "readOptionalHeaders Conn_Read" unread opts_ok "\<lambda>hs. hs"
  by unfold_locales (auto simp: unread_any intro: stream_source.parses_opts [OF conn_reader.stream_source_axioms])

section \<open>Messages across the connection\<close>

text \<open>Each message is encoded and handed to \<open>Write\<close>, as \<open>sendMessages\<close> does with its channels.\<close>

fun encode_all :: "'b cryptobyte \<Rightarrow> BRFTMessage list \<Rightarrow> byte list list outcome" where
  "encode_all cb [] = Ok []"
| "encode_all cb (m # ms) = bindO (BEncode cb m) (\<lambda>b. bindO (encode_all cb ms) (\<lambda>bs. Ok (b # bs)))"

context cryptobyte_laws
begin

lemma encode_all_wire:
  "\<forall>m \<in> set ms. msg_ok m \<Longrightarrow> encode_all cb ms = Ok (map brft_wire ms)"
  by (induction ms) (simp_all add: BEncode_wire)

lemma messages_across:
  assumes "\<forall>m \<in> set ms. msg_ok m" and "encode_all cb ms = Ok bs"
    and c: "isConnOpen c" "\<not> chansClosed c" "txChan c = []" "0 < MaxPacketSize (Options c)"
    and W: "write_all bs c = Some (r, c1)" and emptied: "txChan (sender_run cb es c1) = []"
    and ds: "mset (drop (length (wire_out c)) (wire_out (sender_run cb es c1))) = mset ds"
    and s: "can_receive w s" "pend (dataReader s) = []" "reader_inv w (dataReader s)" "readBuf s = []"
      "nextSeqNr (dataReader s) = peekSeq c" "unat (MaxPacketSize (Options c)) + 6 \<le> ReadBufferCap (Options s)"
    and fits: "packets_needed (unat (MaxPacketSize (Options c))) bs \<le> w"
  shows "\<exists>s'. read_many (readMsg Conn_Read) (length ms) (receive_all cb now ds s)
    = (Ok (map (\<lambda>m. (decoded m, headerForMessage m)) ms), s') \<and> unread s' = []"
proof -
  have bs: "bs = map brft_wire ms" using assms(1,2) encode_all_wire by simp
  then have "\<forall>b \<in> set bs. b \<noteq> []" by (auto simp: brft_wire_def)
  from write_read_stream [OF c this W emptied ds s(1-3,5,6) fits]
  have "unread (receive_all cb now ds s) = unread s @ concat bs" .
  moreover have "drain (dataReader s) = []"
    using drain_reorders [OF s(3), of "[]"] s(2) by simp
  ultimately have "unread (receive_all cb now ds s) = concat (map brft_wire ms) @ []"
    using bs s(4) by (simp add: unread_def)
  from parsesD [OF brft_stream.read_many_enc [OF assms(1)] this] show ?thesis by auto
qed

end

end
