(* ===== verification/Brft_Transport.thy ===== *)
theory Brft_Transport
  imports Brft_Sending Brft_Stream
begin

text \<open>
  The file transfer layer on top of the transport: what the handlers queue is written by the
  sender, and the pass of the handler on the other side that reads it dispatches it.
\<close>

section \<open>The sender\<close>

definition pump :: "'b Env \<Rightarrow> bool \<Rightarrow> nat \<Rightarrow> (BConn, unit) parser" where
  "pump env pick k = repeatM k (bindM (sendMessages env pick) (\<lambda>_. returnM ()))"

lemma sendMessages_run:
  assumes "\<not> c_close c" and "Conn_Write b (c_conn c) = Some (Ok n, s)"
  shows "c_outCtrl c = b # bs \<Longrightarrow> sendMessages env pick c = (Ok True, c\<lparr>c_outCtrl := bs, c_conn := s\<rparr>)"
    and "c_outCtrl c = [] \<Longrightarrow> c_outData c = b # bs \<Longrightarrow> sendMessages env pick c = (Ok True, c\<lparr>c_outData := bs, c_conn := s\<rparr>)"
  using assms by (simp_all add: sendMessages_def writeOut_def bindM_def)

lemma write_all_Cons:
  "write_all (b # bs) c = Some (Ok (), c1) \<longleftrightarrow> (\<exists>n s. Conn_Write b c = Some (Ok n, s) \<and> write_all bs s = Some (Ok (), c1))"
  by (auto split: option.splits prod.splits outcome.splits)

lemma pump_data:
  assumes "\<not> c_close c" and "c_outCtrl c = []" and "write_all (c_outData c) (c_conn c) = Some (Ok (), s)"
  shows "pump env pick (length (c_outData c)) c = (Ok (), c\<lparr>c_outData := [], c_conn := s\<rparr>)"
  using assms
proof (induction "c_outData c" arbitrary: c)
  case Nil
  then show ?case by (simp add: pump_def)
next
  case (Cons b bs)
  from Cons.hyps(2) Cons.prems(3) obtain n s1 where w: "Conn_Write b (c_conn c) = Some (Ok n, s1)" "write_all bs s1 = Some (Ok (), s)"
    by (metis write_all_Cons)
  let ?c = "c\<lparr>c_outData := bs, c_conn := s1\<rparr>"
  have "sendMessages env pick c = (Ok True, ?c)"
    using sendMessages_run(2) [OF Cons.prems(1) w(1) Cons.prems(2) Cons.hyps(2) [symmetric]] .
  moreover have "pump env pick (length bs) ?c = (Ok (), c\<lparr>c_outData := [], c_conn := s\<rparr>)"
    using Cons.hyps(1) [of ?c] Cons.prems w by simp
  ultimately show ?case using Cons.hyps(2) [symmetric] by (simp add: pump_def bindM_def)
qed

lemma pump_all:
  assumes "\<not> c_close c" and "write_all (c_outCtrl c @ c_outData c) (c_conn c) = Some (Ok (), s)"
  shows "pump env pick (length (c_outCtrl c) + length (c_outData c)) c = (Ok (), c\<lparr>c_outCtrl := [], c_outData := [], c_conn := s\<rparr>)"
  using assms
proof (induction "c_outCtrl c" arbitrary: c)
  case Nil
  with pump_data [of c s env pick] show ?case by simp
next
  case (Cons b bs)
  from Cons.hyps(2) [symmetric] Cons.prems(2) obtain n s1
    where w: "Conn_Write b (c_conn c) = Some (Ok n, s1)" "write_all (bs @ c_outData c) s1 = Some (Ok (), s)"
    by (auto simp: write_all_Cons simp del: write_all.simps)
  let ?c = "c\<lparr>c_outCtrl := bs, c_conn := s1\<rparr>"
  have "sendMessages env pick c = (Ok True, ?c)"
    using sendMessages_run(1) [OF Cons.prems(1) w(1) Cons.hyps(2) [symmetric]] .
  moreover have "pump env pick (length bs + length (c_outData c)) ?c = (Ok (), c\<lparr>c_outCtrl := [], c_outData := [], c_conn := s\<rparr>)"
    using Cons.hyps(1) [of ?c] Cons.prems w by simp
  ultimately show ?case using Cons.hyps(2) [symmetric] by (simp add: pump_def bindM_def)
qed

section \<open>The handler\<close>

lemma pass_reads:
  assumes "msg_ok m" and "unread (c_conn c) = brft_wire m @ rest"
  shows "\<exists>s. unread s = rest
    \<and> serverPass env pick listing c = thenM (serverDispatch env pick listing (decoded m)) (returnM True) (c\<lparr>c_conn := s\<rparr>)
    \<and> clientPass env pick c = thenM (clientDispatch env pick (decoded m)) (returnM True) (c\<lparr>c_conn := s\<rparr>)"
proof -
  obtain s where "readMsg Conn_Read (c_conn c) = (Ok (decoded m, headerForMessage m), s)" "unread s = rest"
    using parsesD [OF brft_stream.dec_enc [OF assms(1)] assms(2)] by blast
  then have "tryM (connM (readMsg Conn_Read)) c = (Ok (Inl (decoded m, headerForMessage m)), c\<lparr>c_conn := s\<rparr>)"
    by (simp add: connM_def zoomM_def tryM_def)
  note r = bind_Ok [where m = "tryM (connM (readMsg Conn_Read))", OF this]
  from \<open>unread s = rest\<close> show ?thesis
    by (intro exI [of _ s]) (simp add: serverPass_def clientPass_def r)
qed

end
