(* ===== verification/Brft_Over_Transport.thy ===== *)
theory Brft_Over_Transport
  imports Btp_Rounds Brft_Invariants Brft_Download Brft_Transport
begin

text \<open>
  The file transfer layer on two connections: what a side queues is written by its sender, cut
  into packets, carried by a network that reorders them, put back into order and read by the
  handler of the other side. This provides the link that Brft_Link asks for.
\<close>

section \<open>What reading a message keeps\<close>

text \<open>What every call of \<open>Read\<close> keeps the decoders keep.\<close>

locale reader_frame =
  fixes P :: "'r \<Rightarrow> bool" and rd :: "'r reader"
  assumes rd: "keeps P (\<lambda>r. rd r n)"
begin

lemma cy: "keeps P (cy_read rd n)" "keeps P (cy_ReadUint8 rd)" "keeps P (cy_ReadUint16 rd)" "keeps P (cy_ReadUint24 rd)"
  "keeps P (cy_ReadUint64 rd)" "keeps P (cy_readLengthPrefixed rd n)" "keeps P (cy_ReadUint8LengthPrefixedBytes rd)"
  "keeps P (cy_ReadBytes rd n)"
  unfolding cy_read_def cy_ReadUint8_def cy_ReadUint16_def cy_ReadUint24_def cy_ReadUint64_def
    cy_readLengthPrefixed_def cy_ReadUint8LengthPrefixedBytes_def cy_ReadBytes_def
  by (intro keeping rd)+

lemma one_header: "keeps P (readOne rd base)" "keeps P (Base_Decode rd)"
  unfolding readOne_def Base_Decode_def Unknown_Decode_def CompressionReq_Decode_def CompressionResp_Decode_def
  by (intro keeping cy)+

lemma headers: "keeps P (readHeaders rd k)"
  by (induction k) (auto intro!: keeping one_header)

lemma items: "keeps P (decodeItems rd ext k)"
  by (induction k) (auto intro!: keeping cy simp: MetaItem_Decode_def)

lemma message: "keeps P (readMsg rd)"
  unfolding readMsg_def readHeader_def decodeAs_def FileReq_Decode_def FileResp_Decode_def Data_Decode_def StartTransmission_Decode_def
    Close_Decode_def MetaReq_Decode_def MetaResp_Decode_def readOptionalHeaders_def Let_def
  by (intro keeping cy rd headers items)

end

interpretation conn_frame: reader_frame "reading_from w c0 ps" Conn_Read
  by unfold_locales (rule keepsI, rule Conn_Read_from)

section \<open>One message over the transport\<close>

text \<open>The packets of one \<open>Write\<close> are not empty, but perhaps the last one.\<close>

lemma chunk_list_tail:
  assumes cs: "chunk_list m cs" "0 < m" "concat cs \<noteq> []" and e: "e @ cs = pre @ qs" and qs: "concat qs = []"
  shows "length qs \<le> 1"
proof (rule ccontr)
  assume "\<not> length qs \<le> 1"
  then have q: "butlast qs \<noteq> []" "qs \<noteq> []" by (cases qs; force)+
  have "cs \<noteq> []" using cs(1) by (simp add: chunk_list_def)
  then have l: "last cs = last qs" "e @ butlast cs = pre @ butlast qs"
    using arg_cong [OF e, of last] arg_cong [OF e, of butlast] q(2) by (simp_all add: butlast_append)
  have nil: "last qs = []" "last (butlast qs) = []"
    using qs last_in_set [OF q(2)] last_in_set [OF q(1)] in_set_butlastD by fastforce+
  show False
  proof (cases "butlast cs = []")
    case True
    then have "cs = [last cs]" using append_butlast_last_id [OF \<open>cs \<noteq> []\<close>] by simp
    then have "concat cs = last cs" by (metis concat.simps append_Nil2)
    with cs(3) l(1) nil(1) show False by simp
  next
    case False
    then have "last (butlast cs) = last (butlast qs)" using arg_cong [OF l(2), of last] q(1) by simp
    moreover have "length (last (butlast cs)) = m" using cs(1) last_in_set [OF False] by (simp add: chunk_list_def)
    ultimately show False using nil(2) cs(2) by simp
  qed
qed

text \<open>What the receiving of a message leaves of the other direction.\<close>

definition same_sender :: "Conn \<Rightarrow> Conn \<Rightarrow> bool" where
  "same_sender b b' \<longleftrightarrow> isConnOpen b' = isConnOpen b \<and> chansClosed b' = chansClosed b \<and> txChan b' = txChan b
     \<and> peekSeq b' = peekSeq b \<and> Options b' = Options b"

lemma caught_up_back:
  "caught_up w room b a \<Longrightarrow> same_ends a a' \<Longrightarrow> same_sender b b' \<Longrightarrow> caught_up w room b' a'"
  by (simp add: caught_up_def same_ends_def same_sender_def)

lemma caught_up_reset: "caught_up w room a b \<Longrightarrow> reset a a' \<Longrightarrow> reset b b' \<Longrightarrow> caught_up w room a' b'"
  by (auto simp: caught_up_def reset_def)

lemma open_window_same: "same_sender b b' \<Longrightarrow> open_window b' = open_window b"
  by (simp add: same_sender_def open_window_def)

lemma open_window_reset: "reset b b' \<Longrightarrow> open_window b' = open_window b"
  by (auto simp: open_window_def reset_def)

context cryptobyte_laws
begin

lemma message_arrives:
  assumes cbB: "cryptobyte_laws cbB viewB" and J: "caught_up w room a b" and m: "msg_ok m" "length (brft_wire m) \<le> room"
    and net: "permuting rounds"
  shows "\<exists>n a1. Conn_Write (brft_wire m) a = Some (Ok n, a1) \<and> (open_window a1 = open_window a)
    \<and> (\<forall>x \<in> set (txChan a1). isAckElicitingPacket x \<and> payload_fits x) \<and> isConnOpen a1
    \<and> (\<forall>a2 b2. carry cb cbB w rounds a1 b = Some (a2, b2) \<longrightarrow> (\<exists>b3. readMsg Conn_Read b2 = (Ok (decoded m, headerForMessage m), b3)
         \<and> caught_up w room a2 b3 \<and> same_ends a a2 \<and> same_sender b b3))"
proof -
  let ?M = "unat (MaxPacketSize (Options a))" and ?wire = "brft_wire m"
  note J' = J [unfolded caught_up_def]
  have M: "0 < ?M" "?M \<le> 65535" using J' unsigned_less [of "MaxPacketSize (Options a)", where 'a = nat] by (auto simp: unat_gt_0)
  obtain ps where ps: "lined w (dataReader b) ps" "length ps \<le> 1" "concat (map Payload ps) = []"
    "nextSeqNr (dataReader b) + of_nat (length ps) = peekSeq a" using J' by blast
  have wire: "?wire \<noteq> []" by (simp add: brft_wire_def)
  obtain n cs where W: "Conn_Write ?wire a = Some (Ok n, a\<lparr>txChan := map (\<lambda>b. MData (NewData b)) cs\<rparr>)"
    and cs: "concat cs = ?wire" "chunk_list ?M cs" "length cs = length ?wire div ?M + 1"
    using Conn_Write_queues [of a ?wire] wire J' by auto
  let ?a1 = "a\<lparr>txChan := map (\<lambda>b. MData (NewData b)) cs\<rparr>"
  have sz: "\<forall>x \<in> set cs. length x \<le> ?M" using chunk_list_le [OF cs(2)] by blast
  then have el: "\<forall>x \<in> set (txChan ?a1). isAckElicitingPacket x \<and> payload_fits x"
    using M(2) by (fastforce simp: isAckElicitingPacket_def NewData_def btp_types)
  have "\<exists>b3. readMsg Conn_Read b2 = (Ok (decoded m, headerForMessage m), b3)
      \<and> caught_up w room a2 b3 \<and> same_ends a a2 \<and> same_sender b b3"
    if c: "carry cb cbB w rounds ?a1 b = Some (a2, b2)" for a2 b2
  proof -
    have cap: "length (dataChan (dataReader b)) + length cs \<le> chanCap (dataReader b)"
      using lined_length [OF ps(1)] ps(2) cs(3) div_le_mono [OF m(2), of ?M] J' by linarith
    obtain zs qs where Z: "txChan a2 = []" "same_ends ?a1 a2" "peekSeq a2 = peekSeq ?a1 + of_nat (length cs)"
      "b2 = arrived zs b" "length zs = length cs" "map Payload qs = cs" "lined w (dataReader b2) (ps @ qs)"
      using carry_arrives [OF cbB net c _ _ sz M(2) _ _ ps(1) _ _ cap] J' ps(4) by auto
    have E: "same_ends a a2" using Z(2) by (simp add: same_ends_def)
    have "unread b2 = ?wire @ []" using unread_lined [OF Z(7)] Z(4,6) ps(3) cs(1) J' by simp
    from parsesD [OF brft_stream.dec_enc [OF m(1)] this] obtain b3
      where r: "readMsg Conn_Read b2 = (Ok (decoded m, headerForMessage m), b3)" "unread b3 = []" by blast
    have "reading_from w b2 (ps @ qs) b3"
      using keepsD [OF conn_frame.message reading_from_start [OF Z(7)] r(1)] .
    then obtain d t pre rest where t: "b3 = b2\<lparr>readBuf := d, dataReader := t\<rparr>" "ps @ qs = pre @ rest" "lined w t rest"
      "nextSeqNr t = nextSeqNr (dataReader b2) + of_nat (length pre)" "chanCap t = chanCap (dataReader b2)"
      unfolding reading_from_def by blast
    have un: "d = []" "concat (map Payload rest) = []" using r(2) unread_lined [of w b3 rest] t(1,3) by auto
    have "map Payload ps @ cs = map Payload pre @ map Payload rest" using arg_cong [OF t(2), of "map Payload"] Z(6) by simp
    from chunk_list_tail [OF cs(2) M(1) _ this un(2)] cs(1) wire have lr: "length rest \<le> 1" by simp
    have "length pre + length rest = length ps + length cs" using arg_cong [OF t(2), of length] Z(6) by auto
    then have "of_nat (length pre) + of_nat (length rest) = (of_nat (length ps) + of_nat (length cs) :: u16)" by (metis of_nat_add)
    then have "nextSeqNr t + of_nat (length rest) = peekSeq a2"
      using t(4) Z(3,4) ps(4) [symmetric] by (simp add: add.assoc)
    then have "caught_up w room a2 b3"
      using J' t un lr Z(1,4) E by (auto simp: caught_up_def same_ends_def)
    moreover have "same_sender b b3" using t(1) Z(4) by (simp add: same_sender_def arrived_def)
    ultimately show ?thesis using r(1) E by blast
  qed
  with W el J' show ?thesis by (auto simp: open_window_def)
qed

end

section \<open>The link\<close>

text \<open>
  The sender writes its next message, the network carries the packets as its schedule says, and
  the handler of the other side reads the message. A schedule is chosen for the connections as
  they are; one that ends before everything was transmitted is an error of the schedule.
\<close>

definition early :: go_error where
  "early = New ''the schedule ends early''"

definition sendNext :: "'b Env \<Rightarrow> (BConn, unit) parser" where
  "sendNext env = bindM (sendMessages env False) (\<lambda>_. returnM ())"

definition readNext :: "(BConn, BRFTMessage) parser" where
  "readNext = bindM (connM (readMsg Conn_Read)) (\<lambda>(m, h). returnM m)"

type_synonym network_schedule = "Conn \<Rightarrow> Conn \<Rightarrow> round list"

definition transportUp :: "'b Env \<Rightarrow> 'b Env \<Rightarrow> nat \<Rightarrow> network_schedule \<Rightarrow> (BConn \<times> BConn, BRFTMessage) parser" where
  "transportUp envC envS w net = thenM (onClient (sendNext envC)) (thenM (\<lambda>(c, s).
     case carry (env_cb envC) (env_cb envS) w (net (c_conn c) (c_conn s)) (c_conn c) (c_conn s) of
       None \<Rightarrow> (Err early, (c, s))
     | Some (a, b) \<Rightarrow> (Ok (), (c\<lparr>c_conn := a\<rparr>, s\<lparr>c_conn := b\<rparr>)))
     (onServer readNext))"

definition transportDown :: "'b Env \<Rightarrow> 'b Env \<Rightarrow> nat \<Rightarrow> network_schedule \<Rightarrow> (BConn \<times> BConn, BRFTMessage) parser" where
  "transportDown envC envS w net = thenM (onServer (sendNext envS)) (thenM (\<lambda>(c, s).
     case carry (env_cb envS) (env_cb envC) w (net (c_conn s) (c_conn c)) (c_conn s) (c_conn c) of
       None \<Rightarrow> (Err early, (c, s))
     | Some (a, b) \<Rightarrow> (Ok (), (c\<lparr>c_conn := b\<rparr>, s\<lparr>c_conn := a\<rparr>)))
     (onClient readNext))"

lemma sendNext_run:
  "\<not> c_close c \<Longrightarrow> next_out c = Some (b, c1) \<Longrightarrow> Conn_Write b (c_conn c) = Some (Ok n, a1) \<Longrightarrow>
     sendNext env c = (Ok (), c1\<lparr>c_conn := a1\<rparr>)"
  using sendMessages_run [of c b n a1 _ env False] by (auto simp: sendNext_def next_out_def bindM_def returnM_def split: list.splits)

lemma readNext_run:
  "readMsg Conn_Read (c_conn c) = (Ok (m, h), b) \<Longrightarrow> readNext c = (Ok m, c\<lparr>c_conn := b\<rparr>)"
  by (simp add: readNext_def connM_def zoomM_def bindM_def)

text \<open>What follows the read is the rest of the pass of the handler.\<close>

lemma pass_after_read:
  assumes "readMsg Conn_Read (c_conn c) = (Ok (m, h), b)"
  shows "bindM (serverPass env False listing) (\<lambda>_. k) c = bindM readNext (\<lambda>m. thenM (serverDispatch env False listing m) k) c"
    and "bindM (clientPass env pick) (\<lambda>_. k) c = bindM readNext (\<lambda>m. thenM (clientDispatch env pick m) k) c"
proof -
  have r: "bindM (tryM (connM (readMsg Conn_Read))) f c = f (Inl (m, h)) (c\<lparr>c_conn := b\<rparr>)" for f :: "_ \<Rightarrow> (BConn, 'x) parser"
    using assms by (simp add: connM_def zoomM_def tryM_def bindM_def)
  have k: "bindM (thenM g (returnM True)) (\<lambda>_. k) c' = thenM g k c'" for g c'
    by (simp add: bindM_def returnM_def split: prod.split outcome.split)
  show "bindM (serverPass env False listing) (\<lambda>_. k) c = bindM readNext (\<lambda>m. thenM (serverDispatch env False listing m) k) c"
    unfolding serverPass_def bind_Ok [where m = readNext, OF readNext_run [OF assms]] bindM_assoc r by (simp add: k [simplified])
  show "bindM (clientPass env pick) (\<lambda>_. k) c = bindM readNext (\<lambda>m. thenM (clientDispatch env pick m) k) c"
    unfolding clientPass_def bind_Ok [where m = readNext, OF readNext_run [OF assms]] bindM_assoc r by (simp add: k [simplified])
qed

lemma conn_fields:
  "next_out c = Some (b, c1) \<Longrightarrow> c_conn c1 = c_conn c"
  by (auto simp: next_out_def split: list.splits)

lemma transportUp_run:
  assumes "\<not> c_close c" and "next_out c = Some (b, c1)" and "Conn_Write b (c_conn c) = Some (Ok n, a1)"
    and "\<And>a2 b2. carry (env_cb envC) (env_cb envS) w (net a1 (c_conn s)) a1 (c_conn s) = Some (a2, b2)
      \<Longrightarrow> \<exists>h b3. readMsg Conn_Read b2 = (Ok (m, h), b3) \<and> Q a2 b3"
  shows "(carry (env_cb envC) (env_cb envS) w (net a1 (c_conn s)) a1 (c_conn s) = None
      \<and> transportUp envC envS w net (c, s) = (Err early, (c1\<lparr>c_conn := a1\<rparr>, s)))
    \<or> (\<exists>a2 b3. transportUp envC envS w net (c, s) = (Ok m, (c1\<lparr>c_conn := a2\<rparr>, s\<lparr>c_conn := b3\<rparr>)) \<and> Q a2 b3)"
proof (cases "carry (env_cb envC) (env_cb envS) w (net a1 (c_conn s)) a1 (c_conn s)")
  case None
  then show ?thesis by (simp add: transportUp_def on_run sendNext_run [OF assms(1-3)] bindM_def)
next
  case (Some p)
  then obtain a2 b2 where p: "carry (env_cb envC) (env_cb envS) w (net a1 (c_conn s)) a1 (c_conn s) = Some (a2, b2)" by (cases p) auto
  from assms(4) [OF p] obtain h b3 where r: "readMsg Conn_Read b2 = (Ok (m, h), b3)" "Q a2 b3" by blast
  have "readNext (s\<lparr>c_conn := b2\<rparr>) = (Ok m, s\<lparr>c_conn := b3\<rparr>)" using readNext_run [of "s\<lparr>c_conn := b2\<rparr>"] r(1) by simp
  with p have "transportUp envC envS w net (c, s) = (Ok m, (c1\<lparr>c_conn := a2\<rparr>, s\<lparr>c_conn := b3\<rparr>))"
    by (simp add: transportUp_def on_run sendNext_run [OF assms(1-3)] bindM_def)
  with r(2) show ?thesis by blast
qed

lemma transportDown_run:
  assumes "\<not> c_close s" and "next_out s = Some (b, s1)" and "Conn_Write b (c_conn s) = Some (Ok n, a1)"
    and "\<And>a2 b2. carry (env_cb envS) (env_cb envC) w (net a1 (c_conn c)) a1 (c_conn c) = Some (a2, b2)
      \<Longrightarrow> \<exists>h b3. readMsg Conn_Read b2 = (Ok (m, h), b3) \<and> Q a2 b3"
  shows "(carry (env_cb envS) (env_cb envC) w (net a1 (c_conn c)) a1 (c_conn c) = None
      \<and> transportDown envC envS w net (c, s) = (Err early, (c, s1\<lparr>c_conn := a1\<rparr>)))
    \<or> (\<exists>a2 b3. transportDown envC envS w net (c, s) = (Ok m, (c\<lparr>c_conn := b3\<rparr>, s1\<lparr>c_conn := a2\<rparr>)) \<and> Q a2 b3)"
proof (cases "carry (env_cb envS) (env_cb envC) w (net a1 (c_conn c)) a1 (c_conn c)")
  case None
  then show ?thesis by (simp add: transportDown_def on_run sendNext_run [OF assms(1-3)] bindM_def)
next
  case (Some p)
  then obtain a2 b2 where p: "carry (env_cb envS) (env_cb envC) w (net a1 (c_conn c)) a1 (c_conn c) = Some (a2, b2)" by (cases p) auto
  from assms(4) [OF p] obtain h b3 where r: "readMsg Conn_Read b2 = (Ok (m, h), b3)" "Q a2 b3" by blast
  have "readNext (c\<lparr>c_conn := b2\<rparr>) = (Ok m, c\<lparr>c_conn := b3\<rparr>)" using readNext_run [of "c\<lparr>c_conn := b2\<rparr>"] r(1) by simp
  with p have "transportDown envC envS w net (c, s) = (Ok m, (c\<lparr>c_conn := b3\<rparr>, s1\<lparr>c_conn := a2\<rparr>))"
    by (simp add: transportDown_def on_run sendNext_run [OF assms(1-3)] bindM_def)
  with r(2) show ?thesis by blast
qed

text \<open>Two connections that are both caught up stay so, whatever message goes in either direction.\<close>

definition linked :: "nat \<Rightarrow> nat \<Rightarrow> Conn \<Rightarrow> Conn \<Rightarrow> bool" where
  "linked w room a b \<longleftrightarrow> caught_up w room a b \<and> caught_up w room b a"

lemma linked_reset: "linked w room a b \<Longrightarrow> reset a a' \<Longrightarrow> reset b b' \<Longrightarrow> linked w room a' b'"
  using caught_up_reset unfolding linked_def by blast

locale network =
  fixes envC :: "'b Env" and envS :: "'b Env" and viewC :: "'b \<Rightarrow> (nat \<times> byte list) option"
    and viewS :: "'b \<Rightarrow> (nat \<times> byte list) option" and w :: nat and room :: nat
    and netUp :: network_schedule and netDown :: network_schedule
  assumes lawsC: "cryptobyte_laws (env_cb envC) viewC" and lawsS: "cryptobyte_laws (env_cb envS) viewS"
    and permutingUp: "permuting (netUp a b)" and permutingDown: "permuting (netDown a b)"

sublocale network \<subseteq> message_link "transportUp envC envS w netUp" "transportDown envC envS w netDown" "linked w room" room "\<lambda>e. e = early"
proof unfold_locales
  fix c s c1 :: BConn and m
  assume h: "linked w room (c_conn c) (c_conn s)" "\<not> c_close c" "next_out c = Some (brft_wire m, c1)" "msg_ok m" "length (brft_wire m) \<le> room"
  then have J: "caught_up w room (c_conn c) (c_conn s)" "caught_up w room (c_conn s) (c_conn c)" by (simp_all add: linked_def)
  obtain n a1 where W: "Conn_Write (brft_wire m) (c_conn c) = Some (Ok n, a1)"
    using cryptobyte_laws.message_arrives [OF lawsC lawsS J(1) h(4,5) permutingUp] by blast
  have "\<exists>h b3. readMsg Conn_Read b2 = (Ok (decoded m, h), b3) \<and> linked w room a2 b3"
    if "carry (env_cb envC) (env_cb envS) w (netUp a1 (c_conn s)) a1 (c_conn s) = Some (a2, b2)" for a2 b2
    using cryptobyte_laws.message_arrives [OF lawsC lawsS J(1) h(4,5) permutingUp, of a1 "c_conn s"] W that caught_up_back [OF J(2)]
    unfolding linked_def by fastforce
  from transportUp_run [OF h(2,3) W, where Q = "linked w room" and s = s, OF this]
  show "unless (\<lambda>e. e = early) (transportUp envC envS w netUp (c, s))
      (\<lambda>x. \<exists>a b. x = (Ok (decoded m), (c1\<lparr>c_conn := a\<rparr>, s\<lparr>c_conn := b\<rparr>)) \<and> linked w room a b)"
    unfolding unless_def by blast
next
  fix c s s1 :: BConn and m
  assume h: "linked w room (c_conn c) (c_conn s)" "\<not> c_close s" "next_out s = Some (brft_wire m, s1)" "msg_ok m" "length (brft_wire m) \<le> room"
  then have J: "caught_up w room (c_conn s) (c_conn c)" "caught_up w room (c_conn c) (c_conn s)" by (simp_all add: linked_def)
  obtain n a1 where W: "Conn_Write (brft_wire m) (c_conn s) = Some (Ok n, a1)"
    using cryptobyte_laws.message_arrives [OF lawsS lawsC J(1) h(4,5) permutingDown] by blast
  have "\<exists>h b3. readMsg Conn_Read b2 = (Ok (decoded m, h), b3) \<and> linked w room b3 a2"
    if "carry (env_cb envS) (env_cb envC) w (netDown a1 (c_conn c)) a1 (c_conn c) = Some (a2, b2)" for a2 b2
    using cryptobyte_laws.message_arrives [OF lawsS lawsC J(1) h(4,5) permutingDown, of a1 "c_conn c"] W that caught_up_back [OF J(2)]
    unfolding linked_def by fastforce
  from transportDown_run [OF h(2,3) W, where Q = "\<lambda>a b. linked w room b a" and c = c, OF this]
  show "unless (\<lambda>e. e = early) (transportDown envC envS w netDown (c, s))
      (\<lambda>x. \<exists>a b. x = (Ok (decoded m), (c\<lparr>c_conn := a\<rparr>, s1\<lparr>c_conn := b\<rparr>)) \<and> linked w room a b)"
    unfolding unless_def by blast
qed (rule linked_reset)

text \<open>
  With open congestion windows there is a network on which nothing is ever early: each packet is
  acknowledged before the next one is sent.
\<close>

definition flowing :: "nat \<Rightarrow> nat \<Rightarrow> Conn \<Rightarrow> Conn \<Rightarrow> bool" where
  "flowing w room a b \<longleftrightarrow> linked w room a b \<and> open_window a \<and> open_window b"

definition prompt :: network_schedule where
  "prompt a b = one_by_one a"

context cryptobyte_laws
begin

lemma message_prompt:
  assumes cbB: "cryptobyte_laws cbB viewB" and w: "1 \<le> w" and J: "linked w room a b" "open_window a" "open_window b"
    and m: "msg_ok m" "length (brft_wire m) \<le> room"
  shows "\<exists>n a1. Conn_Write (brft_wire m) a = Some (Ok n, a1)
    \<and> (\<exists>a2 b2 b3. carry cb cbB w (prompt a1 b) a1 b = Some (a2, b2) \<and> readMsg Conn_Read b2 = (Ok (decoded m, headerForMessage m), b3)
      \<and> linked w room a2 b3 \<and> open_window a2 \<and> open_window b3)"
proof -
  obtain n a1 where W: "Conn_Write (brft_wire m) a = Some (Ok n, a1)" by (metis J(1) cbB linked_def m message_arrives permuting_one_by_one)
  have J': "caught_up w room a b" "caught_up w room b a" using J(1) by (simp_all add: linked_def)
  have net: "permuting (prompt a1 b)" by (simp add: prompt_def permuting_one_by_one)
  note A = message_arrives [OF cbB J'(1) m net]
  have a1: "open_window a1" "\<forall>x \<in> set (txChan a1). isAckElicitingPacket x \<and> payload_fits x" "isConnOpen a1"
    using A W J(2) by auto
  obtain a2 b2 where c: "carry cb cbB w (prompt a1 b) a1 b = Some (a2, b2)" "open_window a2"
    using carry_one_by_one [OF a1(3,2,1) w, of cbB b] by (auto simp: prompt_def)
  obtain b3 where r: "readMsg Conn_Read b2 = (Ok (decoded m, headerForMessage m), b3)" "caught_up w room a2 b3" "same_ends a a2" "same_sender b b3"
    using A W c(1) by auto
  have "linked w room a2 b3" using r(2) caught_up_back [OF J'(2) r(3,4)] by (simp add: linked_def)
  moreover have "open_window b3" using open_window_same [OF r(4)] J(3) by simp
  ultimately show ?thesis using W c r(1) by blast
qed

end

lemma prompt_link:
  assumes C: "cryptobyte_laws (env_cb envC) viewC" and S: "cryptobyte_laws (env_cb envS) viewS" and w: "1 \<le> w"
  shows "message_link (transportUp envC envS w prompt) (transportDown envC envS w prompt) (flowing w room) room (\<lambda>_. False)"
proof unfold_locales
  fix c s c1 :: BConn and m
  assume h: "flowing w room (c_conn c) (c_conn s)" "\<not> c_close c" "next_out c = Some (brft_wire m, c1)" "msg_ok m" "length (brft_wire m) \<le> room"
  then have J: "linked w room (c_conn c) (c_conn s)" "open_window (c_conn c)" "open_window (c_conn s)" by (simp_all add: flowing_def)
  from cryptobyte_laws.message_prompt [OF C S w J h(4,5)] obtain n a1 a2 b2 b3 where W: "Conn_Write (brft_wire m) (c_conn c) = Some (Ok n, a1)"
    and c: "carry (env_cb envC) (env_cb envS) w (prompt a1 (c_conn s)) a1 (c_conn s) = Some (a2, b2)"
      "readMsg Conn_Read b2 = (Ok (decoded m, headerForMessage m), b3)" "flowing w room a2 b3"
    unfolding flowing_def by blast
  have "\<exists>h b3. readMsg Conn_Read b2' = (Ok (decoded m, h), b3) \<and> flowing w room a2' b3"
    if "carry (env_cb envC) (env_cb envS) w (prompt a1 (c_conn s)) a1 (c_conn s) = Some (a2', b2')" for a2' b2'
    using that c by auto
  from transportUp_run [OF h(2,3) W, where Q = "flowing w room" and s = s and net = prompt and w = w and envC = envC and envS = envS, OF this] c(1)
  show "unless (\<lambda>_. False) (transportUp envC envS w prompt (c, s))
      (\<lambda>x. \<exists>a b. x = (Ok (decoded m), (c1\<lparr>c_conn := a\<rparr>, s\<lparr>c_conn := b\<rparr>)) \<and> flowing w room a b)"
    unfolding unless_def by auto
next
  fix c s s1 :: BConn and m
  assume h: "flowing w room (c_conn c) (c_conn s)" "\<not> c_close s" "next_out s = Some (brft_wire m, s1)" "msg_ok m" "length (brft_wire m) \<le> room"
  then have J: "linked w room (c_conn s) (c_conn c)" "open_window (c_conn s)" "open_window (c_conn c)" by (auto simp: flowing_def linked_def)
  from cryptobyte_laws.message_prompt [OF S C w J h(4,5)] obtain n a1 a2 b2 b3 where W: "Conn_Write (brft_wire m) (c_conn s) = Some (Ok n, a1)"
    and c: "carry (env_cb envS) (env_cb envC) w (prompt a1 (c_conn c)) a1 (c_conn c) = Some (a2, b2)"
      "readMsg Conn_Read b2 = (Ok (decoded m, headerForMessage m), b3)" "flowing w room b3 a2"
    unfolding flowing_def linked_def by blast
  have "\<exists>h b3. readMsg Conn_Read b2' = (Ok (decoded m, h), b3) \<and> flowing w room b3 a2'"
    if "carry (env_cb envS) (env_cb envC) w (prompt a1 (c_conn c)) a1 (c_conn c) = Some (a2', b2')" for a2' b2'
    using that c by auto
  from transportDown_run [OF h(2,3) W, where Q = "\<lambda>a b. flowing w room b a" and c = c and net = prompt and w = w and envC = envC and envS = envS, OF this] c(1)
  show "unless (\<lambda>_. False) (transportDown envC envS w prompt (c, s))
      (\<lambda>x. \<exists>a b. x = (Ok (decoded m), (c\<lparr>c_conn := a\<rparr>, s1\<lparr>c_conn := b\<rparr>)) \<and> flowing w room a b)"
    unfolding unless_def by auto
next
  fix a b a' b' assume "flowing w room a b" "reset a a'" "reset b b'"
  then show "flowing w room a' b'" using linked_reset open_window_reset unfolding flowing_def by blast
qed

section \<open>The download over the transport\<close>

definition download_over_transport :: "'b Env \<Rightarrow> 'b Env \<Rightarrow> nat \<Rightarrow> network_schedule \<Rightarrow> network_schedule \<Rightarrow>
    u16 \<Rightarrow> gostring \<Rightarrow> byte list option \<Rightarrow> nat \<Rightarrow> (BConn \<times> BConn, unit) parser" where
  "download_over_transport envC envS w netUp netDown =
     download_over (transportUp envC envS w netUp) (transportDown envC envS w netDown) envC envS"

context network
begin

lemma download_on_network:
  assumes R: "ready envC envS sid name F prev c s" and n: "n = agreedChunk (c_options c) (c_options s) F"
    and rest: "rest = length F - offsetIn prev"
    and Z: "compressor_within envC envS (agreedCompression (c_options c) F) n B" "B \<le> 2 ^ 24" "B + 6 \<le> room" "300 \<le> room"
    and cs: "checksum = None \<or> checksum = Some (env_sha envS F)" and L: "linked w room (c_conn c) (c_conn s)"
  shows "unless (\<lambda>e. e = early) (download_over_transport envC envS w netUp netDown sid name checksum (rest div n + 1) (c, s))
    (\<lambda>x. \<exists>c' s'. x = (if c_table c \<subseteq> {sid} then Block else Ok (), (c', s'))
      \<and> stored (c_fs c') name = Some (if n dvd rest then pending (env_sha envS F) F else F)
      \<and> sid \<notin> c_table s' \<and> fs_data (c_fs s') = fs_data (c_fs s) \<and> fs_dir (c_fs s') = fs_dir (c_fs s))"
  unfolding download_over_transport_def
  by (rule download_over_link [OF lawsC lawsS R n rest Z cs L])

end

lemma download_prompt:
  assumes C: "cryptobyte_laws (env_cb envC) viewC" and S: "cryptobyte_laws (env_cb envS) viewS" and w: "1 \<le> w"
    and R: "ready envC envS sid name F prev c s" and n: "n = agreedChunk (c_options c) (c_options s) F"
    and rest: "rest = length F - offsetIn prev"
    and Z: "compressor_within envC envS (agreedCompression (c_options c) F) n B" "B \<le> 2 ^ 24" "B + 6 \<le> room" "300 \<le> room"
    and cs: "checksum = None \<or> checksum = Some (env_sha envS F)" and L: "flowing w room (c_conn c) (c_conn s)"
  shows "\<exists>c' s'. download_over_transport envC envS w prompt prompt sid name checksum (rest div n + 1) (c, s)
      = (if c_table c \<subseteq> {sid} then Block else Ok (), (c', s'))
    \<and> stored (c_fs c') name = Some (if n dvd rest then pending (env_sha envS F) F else F)
    \<and> sid \<notin> c_table s' \<and> fs_data (c_fs s') = fs_data (c_fs s) \<and> fs_dir (c_fs s') = fs_dir (c_fs s)"
  using message_link.download_over_link [OF prompt_link [OF C S w] C S R n rest Z cs L]
  by (simp add: unless_never download_over_transport_def)

section \<open>From the handshake\<close>

text \<open>Fresh connections that agree on their numbers are caught up.\<close>

lemma untouched_caught_up:
  assumes "untouched a" and "untouched b" and "isConnOpen a" and "isConnOpen b" and "nextSeqNr (dataReader b) = peekSeq a"
    and "0 < MaxPacketSize (Options a)" and "unat (MaxPacketSize (Options a)) + 6 \<le> ReadBufferCap (Options b)"
    and "room div unat (MaxPacketSize (Options a)) \<le> 98" and "w \<le> 36"
  shows "caught_up w room a b"
proof -
  obtain n where d: "dataReader b = (NewDataReader 100 50)\<lparr>nextSeqNr := n\<rparr>" using assms(2) by (auto simp: untouched_def)
  have "(dataReader b)\<lparr>dataChan := []\<rparr> = (NewDataReader 100 50)\<lparr>nextSeqNr := n\<rparr>" by (simp add: d NewDataReader_def)
  then have "reader_inv w ((dataReader b)\<lparr>dataChan := []\<rparr>)"
    using reader_inv_fresh [of 50 w n 100] assms(9) by simp
  moreover have "dataChan (dataReader b) = []" "\<not> chanClosed (dataReader b)" "chanCap (dataReader b) = 100" "somes (rd_buf (dataReader b)) = []"
    by (simp_all add: d NewDataReader_def numeral_eq_Suc)
  ultimately have "lined w (dataReader b) []"
    unfolding lined_def by (intro conjI exI [of _ "[]"]) (simp_all add: rounds_ahead_def pend_def)
  with assms show ?thesis
    by (auto simp: caught_up_def untouched_def \<open>chanCap (dataReader b) = 100\<close>)
qed

context cryptobyte_laws
begin

text \<open>
  After the handshake both directions are ready for messages of \<open>room\<close> bytes, which need at most
  99 packets of the smaller size, with up to 36 packets on their way.
\<close>

lemma handshake_flowing:
  assumes v: "Version optsC = ProtocolVersionBTPv1" "Version optsS = ProtocolVersionBTPv1"
    and cap: "12 \<le> ReadBufferCap optsC" "unat (MaxPacketSize optsC) + 6 \<le> ReadBufferCap optsS" "unat (MaxPacketSize optsS) + 6 \<le> ReadBufferCap optsC"
    and mps: "0 < MaxPacketSize optsC" "0 < MaxPacketSize optsS"
    and cc: "pipe (CC optsC) = 0" "1 \<le> cwnd (CC optsC)" "0 < InitCwndSize optsS"
    and room: "room div unat (min (MaxPacketSize optsC) (MaxPacketSize optsS)) \<le> 98" and w: "w \<le> 36"
  shows "\<exists>a b. handshake cb now (Ok b1) (Ok b2) lport cport mport optsC optsS = Ok (a, b) \<and> flowing w room a b"
proof -
  have "pipe (CC optsC) < cwnd (CC optsC)" "4 \<le> ReadBufferCap optsS" using cc cap(2) by simp_all
  from handshake_synchronised [OF v cap(1) this(2,1), of now b1 b2 lport cport mport] obtain a b where
    H: "handshake cb now (Ok b1) (Ok b2) lport cport mport optsC optsS = Ok (a, b)" "isConnOpen a" "isConnOpen b"
      "nextSeqNr (dataReader a) = peekSeq b" "nextSeqNr (dataReader b) = peekSeq a"
      "MaxPacketSize (Options a) = min (MaxPacketSize optsC) (MaxPacketSize optsS)" "Options b = ConnOptions_Clone optsS"
      "untouched a" "untouched b" "ReadBufferCap (Options a) = ReadBufferCap optsC"
      "pipe (cc_of a) = max 0 (pipe (CC optsC))" "cwnd (cc_of a) = cwnd (CC optsC)" by blast
  let ?m = "min (MaxPacketSize optsC) (MaxPacketSize optsS)"
  have m: "unat ?m \<le> unat (MaxPacketSize optsC)" "unat ?m \<le> unat (MaxPacketSize optsS)" "0 < ?m" "0 < unat ?m"
    using mps by (auto simp: word_le_nat_alt [symmetric] unat_gt_0 min_def)
  have b: "MaxPacketSize (Options b) = MaxPacketSize optsS" "ReadBufferCap (Options b) = ReadBufferCap optsS"
    by (simp_all add: H(7) ConnOptions_Clone_def)
  have "room div unat (MaxPacketSize optsS) \<le> 98" using div_le_mono2 [OF m(4,2), of room] room by linarith
  then have "caught_up w room a b" "caught_up w room b a"
    using untouched_caught_up [OF H(8,9,2,3,5), of room w] untouched_caught_up [OF H(9,8,3,2,4), of room w] m H(6,10) b room w cap mps
    by auto
  moreover have "open_window a" "open_window b"
    using H(11,12) cc by (auto simp: open_window_def H(7) ConnOptions_Clone_def NewElasticTcpAlgorithm_def word_less_def)
  ultimately show ?thesis using H(1) by (auto simp: flowing_def linked_def)
qed

end

section \<open>From Dial to the file\<close>

text \<open>How a download ends, as a predicate of its result.\<close>

definition transferred :: "u16 \<Rightarrow> gostring \<Rightarrow> byte list \<Rightarrow> nat \<Rightarrow> nat \<Rightarrow> byte list \<Rightarrow> BConn \<Rightarrow> BConn \<Rightarrow>
    unit outcome \<times> BConn \<times> BConn \<Rightarrow> bool" where
  "transferred sid name F n rest cs c s x \<longleftrightarrow> (case x of (r, c', s') \<Rightarrow> r = (if c_table c \<subseteq> {sid} then Block else Ok ())
     \<and> stored (c_fs c') name = Some (if n dvd rest then pending cs F else F)
     \<and> sid \<notin> c_table s' \<and> fs_data (c_fs s') = fs_data (c_fs s) \<and> fs_dir (c_fs s') = fs_dir (c_fs s))"

lemma ready_conn:
  "ready envC envS sid name F prev (c\<lparr>c_conn := a\<rparr>) (s\<lparr>c_conn := b\<rparr>) = ready envC envS sid name F prev c s"
  by (simp add: ready_def calm_def isDuplicateStreamID_def)

lemma dial_download:
  assumes C: "cryptobyte_laws (env_cb envC) viewC" and S: "cryptobyte_laws (env_cb envS) viewS"
    and H: "flowing w room a b" and w: "1 \<le> w"
    and R: "ready envC envS sid name F prev c s" and n: "n = agreedChunk (c_options c) (c_options s) F"
    and rest: "rest = length F - offsetIn prev"
    and Z: "compressor_within envC envS (agreedCompression (c_options c) F) n B" "B \<le> 2 ^ 24" "B + 6 \<le> room" "300 \<le> room"
    and cs: "checksum = None \<or> checksum = Some (env_sha envS F)"
  shows "(\<forall>netUp netDown. (\<forall>x y. permuting (netUp x y) \<and> permuting (netDown x y)) \<longrightarrow> unless (\<lambda>e. e = early)
        (download_over_transport envC envS w netUp netDown sid name checksum (rest div n + 1) (c\<lparr>c_conn := a\<rparr>, s\<lparr>c_conn := b\<rparr>))
        (transferred sid name F n rest (env_sha envS F) c s))
    \<and> transferred sid name F n rest (env_sha envS F) c s
        (download_over_transport envC envS w prompt prompt sid name checksum (rest div n + 1) (c\<lparr>c_conn := a\<rparr>, s\<lparr>c_conn := b\<rparr>))"
proof (intro conjI allI impI)
  let ?c = "c\<lparr>c_conn := a\<rparr>" and ?s = "s\<lparr>c_conn := b\<rparr>"
  have R': "ready envC envS sid name F prev ?c ?s" using R by (simp only: ready_conn)
  have n': "n = agreedChunk (c_options ?c) (c_options ?s) F" using n by simp
  have Z': "compressor_within envC envS (agreedCompression (c_options ?c) F) n B" using Z(1) by simp
  have L: "flowing w room (c_conn ?c) (c_conn ?s)" "linked w room (c_conn ?c) (c_conn ?s)" using H by (simp_all add: flowing_def)
  show "transferred sid name F n rest (env_sha envS F) c s
      (download_over_transport envC envS w prompt prompt sid name checksum (rest div n + 1) (?c, ?s))"
    using download_prompt [OF C S w R' n' rest Z' Z(2-4) cs L(1)] by (auto simp: transferred_def)
  fix netUp netDown :: network_schedule assume P: "\<forall>x y. permuting (netUp x y) \<and> permuting (netDown x y)"
  have N: "network envC envS viewC viewS netUp netDown"
    using C S P by (simp add: network_def)
  show "unless (\<lambda>e. e = early) (download_over_transport envC envS w netUp netDown sid name checksum (rest div n + 1) (?c, ?s))
      (transferred sid name F n rest (env_sha envS F) c s)"
    by (rule unless_mono [OF network.download_on_network [OF N R' n' rest Z' Z(2-4) cs L(2)]]) (auto simp: transferred_def)
qed

end
