(* ===== verification/Brft_Negotiation.thy ===== *)
theory Brft_Negotiation
  imports Brft_Server
begin

text \<open>
  A description of the server's negotiation as functions of the whole list of optional headers,
  and that the loop of the code computes it.
\<close>

text \<open>What a request asks for, as a description instead of a loop with a state.\<close>

fun asks :: "OptionalHeader list \<Rightarrow> (byte \<times> byte) list" where
  "asks [] = []"
| "asks (CompressionReqOptionalHeader b alg mul # hs) = (alg, mul) # asks hs"
| "asks (h # hs) = asks hs"

fun unexpected :: "OptionalHeader \<Rightarrow> bool" where
  "unexpected (CompressionRespOptionalHeader b st) = True"
| "unexpected _ = False"

fun unsupported :: "OptionalHeader \<Rightarrow> bool" where
  "unsupported (UnknownOptionalHeader b d) = True"
| "unsupported _ = False"

definition gzipAsks :: "OptionalHeader list \<Rightarrow> (byte \<times> byte) list" where
  "gzipAsks hs = filter (\<lambda>(alg, mul). alg = CompressionReqHeaderAlgorithmGzip) (asks hs)"

definition replyTo :: "u64 \<Rightarrow> byte \<times> byte \<Rightarrow> OptionalHeader" where
  "replyTo fsize ask = NewCompressionRespOptionalHeader
     (if fst ask \<noteq> CompressionReqHeaderAlgorithmGzip then CompressionRespHeaderStatusUnknownAlgorithm
      else if fsize < MinFileSize then CompressionRespHeaderStatusFileTooSmall
      else CompressionRespHeaderStatusOk)"

definition worst :: "byte \<Rightarrow> OptionalHeader list \<Rightarrow> byte" where
  "worst st hs = (if st = FileRespStatusUnexpectedOptionalHeader \<or> list_ex unexpected hs then FileRespStatusUnexpectedOptionalHeader
     else if st = FileRespStatusUnsupportedOptionalHeader \<or> list_ex unsupported hs then FileRespStatusUnsupportedOptionalHeader
     else FileRespStatusOk)"

definition raised :: "byte \<Rightarrow> bool" where
  "raised st \<longleftrightarrow> st \<in> {FileRespStatusOk, FileRespStatusUnsupportedOptionalHeader, FileRespStatusUnexpectedOptionalHeader}"

lemma raise_status:
  assumes "raised (n_status n)"
  shows "raiseStatus FileRespStatusUnexpectedOptionalHeader n = n\<lparr>n_status := FileRespStatusUnexpectedOptionalHeader\<rparr>"
    and "raiseStatus FileRespStatusUnsupportedOptionalHeader n = n\<lparr>n_status :=
      if n_status n = FileRespStatusUnexpectedOptionalHeader then n_status n else FileRespStatusUnsupportedOptionalHeader\<rparr>"
  using assms
  by (auto simp: raised_def raiseStatus_def HasPrecedence_def fileRespStatusPrecedence_def resp_statuses)

lemma raised_simps [simp]:
  "raised FileRespStatusOk" "raised FileRespStatusUnsupportedOptionalHeader" "raised FileRespStatusUnexpectedOptionalHeader"
  "FileRespStatusUnexpectedOptionalHeader \<noteq> FileRespStatusUnsupportedOptionalHeader"
  "FileRespStatusOk \<noteq> FileRespStatusUnsupportedOptionalHeader" "FileRespStatusOk \<noteq> FileRespStatusUnexpectedOptionalHeader"
  by (simp_all add: raised_def) (simp_all add: resp_statuses)

lemma worst_simps [simp]:
  "raised st \<Longrightarrow> worst st [] = st"
  "unexpected h \<Longrightarrow> worst st (h # hs) = worst FileRespStatusUnexpectedOptionalHeader hs"
  "unsupported h \<Longrightarrow> worst st (h # hs) = worst (if st = FileRespStatusUnexpectedOptionalHeader then st else FileRespStatusUnsupportedOptionalHeader) hs"
  "\<not> unexpected h \<Longrightarrow> \<not> unsupported h \<Longrightarrow> worst st (h # hs) = worst st hs"
  by (auto simp: worst_def raised_def elim: unexpected.elims)

lemma gzipAsks_simps [simp]:
  "gzipAsks [] = []"
  "gzipAsks (CompressionReqOptionalHeader b alg mul # hs) =
     (if alg = CompressionReqHeaderAlgorithmGzip then (alg, mul) # gzipAsks hs else gzipAsks hs)"
  "gzipAsks (CompressionRespOptionalHeader b st # hs) = gzipAsks hs"
  "gzipAsks (UnknownOptionalHeader b d # hs) = gzipAsks hs"
  by (simp_all add: gzipAsks_def)

lemma negotiate_any:
  assumes "NilHeader \<notin> set hs" and "raised (n_status n)"
  shows "negotiate fsize hs n = Some \<lparr>n_status = worst (n_status n) hs,
     n_comp = (if gzipAsks hs = [] then n_comp n else \<not> fsize < MinFileSize),
     n_chunkSize = (if gzipAsks hs = [] \<or> fsize < MinFileSize then n_chunkSize n else ComputeChunkSize (snd (last (gzipAsks hs)))),
     n_optHeaders = n_optHeaders n @ map (replyTo fsize) (asks hs)\<rparr>"
  using assms
proof (induction hs arbitrary: n)
  case (Cons h hs)
  then show ?case
    by (cases h) (simp_all add: raise_status addReply_def replyTo_def)
qed simp

end
