(* ===== verification/Brft_Client_Files.thy ===== *)
theory Brft_Client_Files
  imports Brft_Invariants
begin

text \<open>
  What the client does to a directory when the system may fail at any call: the file operations of
  its streams keep an invariant of the names, contents and descriptors (\<open>fs_ok\<close>), in terms of a set
  \<open>R\<close> of names that were requested and a set \<open>A\<close> of checksums that were announced.
\<close>

section \<open>Contents\<close>

text \<open>A file with a complete header; a file of the directory that is none is foreign.\<close>

definition headed :: "byte list \<Rightarrow> byte list \<Rightarrow> bool" where
  "headed cs F \<longleftrightarrow> length cs = ChecksumSize \<and> take headerSize F = fileSignature @ cs"

definition foreign :: "FS \<Rightarrow> gostring \<Rightarrow> bool" where
  "foreign fs name \<longleftrightarrow> (\<exists>F. stored fs name = Some F \<and> (\<forall>cs. \<not> headed cs F))"

text \<open>A pending file, the beginning of a header, or a file with an announced checksum.\<close>

definition acceptable :: "(byte list \<Rightarrow> byte list) \<Rightarrow> byte list set \<Rightarrow> byte list \<Rightarrow> bool" where
  "acceptable sha A F \<longleftrightarrow> (\<exists>cs \<in> A. headed cs F) \<or> (\<exists>cs \<in> A. \<exists>k. F = take k (fileSignature @ cs)) \<or> sha F \<in> A"

definition owned :: "gostring set \<Rightarrow> FS \<Rightarrow> nat \<Rightarrow> bool" where
  "owned R fs0 i \<longleftrightarrow> fs_next fs0 \<le> i \<or> (\<exists>n \<in> R. fs_dir fs0 n = Some i \<and> \<not> foreign fs0 n)"

definition fs_ok :: "(byte list \<Rightarrow> byte list) \<Rightarrow> gostring \<Rightarrow> gostring set \<Rightarrow> byte list set \<Rightarrow> FS \<Rightarrow> FS \<Rightarrow> bool" where
  "fs_ok sha tmp R A fs0 fs \<longleftrightarrow> fs_fault fs = fs_fault fs0 \<and> fs_next fs0 \<le> fs_next fs
     \<and> (\<forall>n. n \<notin> R \<or> foreign fs0 n \<longrightarrow> n \<noteq> tmp \<longrightarrow> fs_dir fs n = fs_dir fs0 n)
     \<and> (\<forall>n \<in> R. \<not> foreign fs0 n \<longrightarrow> (\<forall>i. fs_dir fs n = Some i \<longrightarrow> owned R fs0 i \<and> acceptable sha A (fs_data fs i)))
     \<and> (\<forall>i. \<not> owned R fs0 i \<longrightarrow> fs_data fs i = fs_data fs0 i)
     \<and> (\<forall>n i. fs_dir fs n = Some i \<longrightarrow> i < fs_next fs)
     \<and> (\<forall>h i p. fs_fds fs h = Some (i, p) \<longrightarrow> h < fs_next fs \<and> i < fs_next fs)"

lemma fs_ok_bounds:
  assumes "fs_ok sha tmp R A fs0 fs"
  shows "fs_fds fs h = Some (i, p) \<Longrightarrow> h < fs_next fs \<and> i < fs_next fs" and "fs_dir fs n = Some i \<Longrightarrow> i < fs_next fs"
  using assms unfolding fs_ok_def by blast+

lemma fs_ok_mine:
  assumes "fs_ok sha tmp R A fs0 fs" and "n \<in> R" and "\<not> foreign fs0 n" and "fs_dir fs n = Some i"
  shows "owned R fs0 i \<and> acceptable sha A (fs_data fs i)"
  using assms unfolding fs_ok_def by blast

lemma fs_ok_other:
  assumes "fs_ok sha tmp R A fs0 fs"
  shows "n \<notin> R \<or> foreign fs0 n \<Longrightarrow> n \<noteq> tmp \<Longrightarrow> fs_dir fs n = fs_dir fs0 n" and "\<not> owned R fs0 i \<Longrightarrow> fs_data fs i = fs_data fs0 i"
  using assms unfolding fs_ok_def by blast+

text \<open>A file a stream holds, and that its position is behind the header.\<close>

definition held :: "gostring set \<Rightarrow> byte list set \<Rightarrow> FS \<Rightarrow> FS \<Rightarrow> File \<Rightarrow> bool" where
  "held R A fs0 fs f \<longleftrightarrow> isClientFile f \<and> f_name f \<in> R \<and> \<not> foreign fs0 (f_name f) \<and> f_checksum f \<in> A
     \<and> f_fd f < fs_next fs
     \<and> (\<forall>i p. fs_fds fs (f_fd f) = Some (i, p) \<longrightarrow> owned R fs0 i \<and> headed (f_checksum f) (fs_data fs i))"

definition beyond :: "FS \<Rightarrow> File \<Rightarrow> bool" where
  "beyond fs f \<longleftrightarrow> (\<forall>i p. fs_fds fs (f_fd f) = Some (i, p) \<longrightarrow> headerSize \<le> p)"

text \<open>From one state to a later one: descriptors outside \<open>X\<close> stay or are closed, headers stay.\<close>

definition evolves :: "nat set \<Rightarrow> FS \<Rightarrow> FS \<Rightarrow> bool" where
  "evolves X fs fs' \<longleftrightarrow> fs_next fs \<le> fs_next fs'
     \<and> (\<forall>h < fs_next fs. fs_fds fs' h = None
         \<or> map_option fst (fs_fds fs' h) = map_option fst (fs_fds fs h) \<and> (h \<notin> X \<longrightarrow> fs_fds fs' h = fs_fds fs h))
     \<and> (\<forall>i < fs_next fs. \<forall>cs. headed cs (fs_data fs i) \<longrightarrow> headed cs (fs_data fs' i))"

lemma headed_length: "headed cs F \<Longrightarrow> 37 \<le> length F"
proof -
  assume "headed cs F"
  then have "length (take 37 F) = 37" by (simp add: headed_def)
  then show ?thesis by simp
qed

lemma headed_unique: "headed cs F \<Longrightarrow> headed cs' F \<Longrightarrow> cs = cs'"
  by (simp add: headed_def)

lemma headed_put: "headed cs d \<Longrightarrow> 37 \<le> p \<Longrightarrow> headed cs (put_bytes d p bs)"
  using headed_length [of cs d] by (simp add: headed_def put_bytes_def min_def)

lemma evolves_refl [simp]: "evolves X fs fs"
  by (simp add: evolves_def)

lemma evolves_mono: "evolves X fs fs' \<Longrightarrow> X \<subseteq> Y \<Longrightarrow> evolves Y fs fs'"
  by (auto simp: evolves_def)

lemma held_evolves:
  assumes "held R A fs0 fs f" and "evolves X fs fs'" and "\<And>h i p. fs_fds fs h = Some (i, p) \<Longrightarrow> i < fs_next fs"
  shows "held R A fs0 fs' f"
proof -
  have n: "f_fd f < fs_next fs" using assms(1) by (simp add: held_def)
  then have "f_fd f < fs_next fs'" using assms(2) by (simp add: evolves_def)
  moreover have "owned R fs0 i \<and> headed (f_checksum f) (fs_data fs' i)" if "fs_fds fs' (f_fd f) = Some (i, q)" for i q
  proof -
    have "fs_fds fs' (f_fd f) = None \<or> map_option fst (fs_fds fs' (f_fd f)) = map_option fst (fs_fds fs (f_fd f))"
      using assms(2) n unfolding evolves_def by blast
    then have "Some i = map_option fst (fs_fds fs (f_fd f))" using that by simp
    then obtain p where "fs_fds fs (f_fd f) = Some (i, p)" by (cases "fs_fds fs (f_fd f)") auto
    with assms show ?thesis by (auto simp: held_def evolves_def)
  qed
  ultimately show ?thesis using assms(1) by (auto simp: held_def)
qed

lemma beyond_evolves:
  "beyond fs f \<Longrightarrow> evolves X fs fs' \<Longrightarrow> f_fd f < fs_next fs \<Longrightarrow> f_fd f \<notin> X \<Longrightarrow> beyond fs' f"
  by (fastforce simp: beyond_def evolves_def)

section \<open>Calls that read\<close>

text \<open>Only descriptors may be new, of inodes that have a name; older ones stay or are closed.\<close>

definition quiet :: "FS \<Rightarrow> FS \<Rightarrow> bool" where
  "quiet fs0 fs \<longleftrightarrow> fs_fault fs = fs_fault fs0 \<and> fs_dir fs = fs_dir fs0 \<and> fs_data fs = fs_data fs0
     \<and> fs_next fs0 \<le> fs_next fs
     \<and> (\<forall>h < fs_next fs0. fs_fds fs h = fs_fds fs0 h \<or> fs_fds fs h = None)
     \<and> (\<forall>h i p. fs_fds fs h = Some (i, p) \<longrightarrow> fs_fds fs0 h \<noteq> None
         \<or> fs_next fs0 \<le> h \<and> h < fs_next fs \<and> (\<exists>n. fs_dir fs0 n = Some i))"

lemma quiet_refl [simp]: "quiet fs fs"
  by (simp add: quiet_def)

lemma quiet_ok: "fs_ok sha tmp R A fs0 fs \<Longrightarrow> quiet fs fs' \<Longrightarrow> fs_ok sha tmp R A fs0 fs' \<and> evolves {} fs fs'"
proof -
  assume o: "fs_ok sha tmp R A fs0 fs" and q: "quiet fs fs'"
  have "h < fs_next fs' \<and> i < fs_next fs'" if f: "fs_fds fs' h = Some (i, p)" for h i p
  proof (cases "fs_fds fs h = None")
    case True
    with q f obtain n where "fs_next fs \<le> h" "h < fs_next fs'" "fs_dir fs n = Some i" unfolding quiet_def by blast
    with o q show ?thesis unfolding fs_ok_def quiet_def by (meson order_less_le_trans)
  next
    case False
    then obtain j q' where j: "fs_fds fs h = Some (j, q')" by auto
    with o have "h < fs_next fs" "j < fs_next fs" unfolding fs_ok_def by blast+
    with q f j show ?thesis by (auto simp: quiet_def)
  qed
  moreover have "i < fs_next fs'" if "fs_dir fs' n = Some i" for n i
    using o q that unfolding fs_ok_def quiet_def by (metis order_less_le_trans)
  ultimately show ?thesis
    using o q unfolding fs_ok_def evolves_def by (auto simp: quiet_def)
qed

text \<open>A call on one descriptor moves it or leaves it, or closes it.\<close>

definition moved :: "nat \<Rightarrow> FS \<Rightarrow> FS \<Rightarrow> bool" where
  "moved h fs0 fs \<longleftrightarrow> fs_fault fs = fs_fault fs0 \<and> fs_dir fs = fs_dir fs0 \<and> fs_data fs = fs_data fs0
     \<and> fs_next fs = fs_next fs0 \<and> (\<forall>g. g \<noteq> h \<longrightarrow> fs_fds fs g = fs_fds fs0 g)
     \<and> map_option fst (fs_fds fs h) = map_option fst (fs_fds fs0 h)"

definition shut :: "FS \<Rightarrow> FS \<Rightarrow> bool" where
  "shut fs0 fs \<longleftrightarrow> fs_fault fs = fs_fault fs0 \<and> fs_dir fs = fs_dir fs0 \<and> fs_data fs = fs_data fs0
     \<and> fs_next fs = fs_next fs0 \<and> (\<forall>g. fs_fds fs g = fs_fds fs0 g \<or> fs_fds fs g = None)"

lemma moved_refl [simp]: "moved h fs fs" "shut fs fs"
  by (simp_all add: moved_def shut_def)

lemma keeps_moved:
  "keeps (moved h fs0) (os_Read h n)" "keeps (moved h fs0) (os_SeekEnd h)" "keeps (moved h fs0) (os_SeekStart h k)"
  "keeps (moved h fs0) (os_SeekCurrent h)" "keeps (moved h fs0) (os_Fstat h)" "keeps (moved h fs0) (io_ReadAll h)"
  unfolding keeps_alt moved_def os_defs fs_defs step_defs Let_def
  by (auto split: option.splits if_splits)

lemma keeps_shut: "keeps (shut fs0) os_MkdirAll" "keeps (shut fs0) (os_Stat name)" "keeps (shut fs0) (os_Close g)"
    "keeps (shut fs0) (os_Fstat g)"
  unfolding keeps_alt shut_def os_defs fs_defs step_defs Let_def
  by (auto split: option.splits if_splits)

lemma quiet_moved: "quiet fs0 fs \<Longrightarrow> moved h fs fs' \<Longrightarrow> fs_next fs0 \<le> h \<Longrightarrow> quiet fs0 fs'"
proof -
  assume q: "quiet fs0 fs" and m: "moved h fs fs'" and h: "fs_next fs0 \<le> h"
  have "\<exists>q. fs_fds fs g = Some (i, q)" if "fs_fds fs' g = Some (i, p)" for g i p
  proof -
    have "map_option fst (fs_fds fs' g) = map_option fst (fs_fds fs g)" using m by (cases "g = h") (simp_all add: moved_def)
    then have "Some i = map_option fst (fs_fds fs g)" using that by simp
    then show ?thesis by (cases "fs_fds fs g") auto
  qed
  moreover have "fs_fds fs' g = fs_fds fs g" if "g < fs_next fs0" for g
    using m h that by (auto simp: moved_def)
  ultimately show ?thesis using q m unfolding quiet_def moved_def by metis
qed

lemma quiet_shut: "quiet fs0 fs \<Longrightarrow> shut fs fs' \<Longrightarrow> quiet fs0 fs'"
  unfolding quiet_def shut_def by (metis option.distinct(1))

lemma keeps_quietM: "(\<And>fs1. keeps (moved h fs1) m) \<Longrightarrow> fs_next fs0 \<le> h \<Longrightarrow> keeps (quiet fs0) m"
  by (rule keepsI) (metis keepsD quiet_moved moved_refl(1))

lemma keeps_quietS: "(\<And>fs1. keeps (shut fs1) m) \<Longrightarrow> keeps (quiet fs0) m"
  by (rule keepsI) (metis keepsD quiet_shut moved_refl(2))

lemma keeps_bindQ:
  assumes "keeps P m" and "\<And>r x r'. P r \<Longrightarrow> m r = (Ok x, r') \<Longrightarrow> Q x" and "\<And>x. Q x \<Longrightarrow> keeps P (k x)"
  shows "keeps P (bindM m k)"
proof (rule keepsI)
  fix r y r' assume r: "P r" "bindM m k r = (y, r')"
  obtain x r1 where m: "m r = (x, r1)" by fastforce
  note K = keepsD [OF assms(1) r(1) m]
  show "P r'"
  proof (cases x)
    case (Ok v)
    with assms(2) [OF r(1)] m have "keeps P (k v)" by (blast intro: assms(3))
    from keepsD [OF this K] r(2) m Ok show ?thesis by (simp add: bindM_def)
  qed (use r(2) m K in \<open>simp_all add: bindM_def\<close>)
qed

lemma os_Open_quiet:
  "keeps (quiet fs0) (os_Open name False)"
  "quiet fs0 fs \<Longrightarrow> os_Open name False fs = (Ok h, fs') \<Longrightarrow> fs_next fs0 \<le> h"
proof -
  show "keeps (quiet fs0) (os_Open name False)"
    unfolding keeps_alt quiet_def os_Open_def fs_defs step_defs Let_def
    by (auto split: option.splits if_splits) (metis less_SucI option.distinct(1) surj_pair)+
  show "quiet fs0 fs \<Longrightarrow> os_Open name False fs = (Ok h, fs') \<Longrightarrow> fs_next fs0 \<le> h"
    unfolding quiet_def os_Open_def fs_defs step_defs Let_def
    by (auto split: option.splits if_splits)
qed

lemma readChecksum_moved: "keeps (moved h fs0) (readChecksum h)"
  unfolding readChecksum_def by (intro keeping keeps_moved)

lemma newFileAt_shut: "keeps (shut fs0) (newFileAt h name cs)"
  unfolding newFileAt_def by (intro keeping keeps_shut)

lemma NewFile_quiet: "keeps (quiet fs0) (NewFile name None)"
proof -
  have "keeps (quiet fs0) (bindM (os_Open name False) (\<lambda>h.
      bindM (mapErrM (\<lambda>_. ErrInvalidChecksum) (readChecksum h)) (\<lambda>cs. thenM (ignoreM (os_SeekEnd h)) (newFileAt h name cs))))"
  proof (rule keeps_bindQ [where Q = "\<lambda>h. fs_next fs0 \<le> h", OF os_Open_quiet(1)])
    fix h assume h: "fs_next fs0 \<le> h"
    show "keeps (quiet fs0) (bindM (mapErrM (\<lambda>_. ErrInvalidChecksum) (readChecksum h))
        (\<lambda>cs. thenM (ignoreM (os_SeekEnd h)) (newFileAt h name cs)))"
      by (intro keeping keeps_quietM [OF readChecksum_moved] keeps_quietM [OF keeps_moved(2)] keeps_quietS [OF newFileAt_shut] h)
  qed (rule os_Open_quiet(2))
  then have "keeps (quiet fs0) (case st of
      Inr e \<Rightarrow> if isNotExist e then (case None of None \<Rightarrow> failM e | Some cs \<Rightarrow> k cs) else failM e
    | Inl n \<Rightarrow> bindM (os_Open name False) (\<lambda>h. bindM (mapErrM (\<lambda>_. ErrInvalidChecksum) (readChecksum h))
        (\<lambda>cs. thenM (ignoreM (os_SeekEnd h)) (newFileAt h name cs))))" for st :: "nat + go_error" and k
    by (cases st) (simp_all add: keeping)
  then show ?thesis
    unfolding NewFile_def by (intro keeps_bind keeps_mapErr keeps_try keeps_quietS [OF keeps_shut(1)] keeps_quietS [OF keeps_shut(2)])
qed

section \<open>A file for a stream\<close>

text \<open>An existing file is opened: only with a header, and behind it.\<close>

lemma readChecksum_headed:
  assumes "readChecksum h fs = (Ok cs, fs')" and "fs_fds fs h = Some (i, 0)"
  shows "headed cs (fs_data fs i) \<and> fs_fds fs' h = Some (i, 37)"
proof -
  have "guards (opened (fs_dir fs) (fs_data fs) (fs_next fs) h i (\<lambda>p. p = 0)) (readChecksum h)
     (\<lambda>cs s. opened (fs_dir fs) (fs_data fs) (fs_next fs) h i (\<lambda>p. p = 37) s \<and> cs = take 32 (drop 5 (fs_data fs i)))
     (opened (fs_dir fs) (fs_data fs) (fs_next fs) h i anywhere)"
    by (rule guards_readChecksum)
  from guardsD [OF this _ assms(1)] assms(2)
  have r: "cs = take 32 (drop 5 (fs_data fs i))" "fs_fds fs' h = Some (i, 37)" by (auto simp: opened_def)
  from assms have "take 5 (fs_data fs i) = fileSignature" "length cs = 32"
    unfolding readChecksum_def os_Read_def fs_defs step_defs Let_def
    by (auto split: option.splits if_splits outcome.splits prod.splits)
  with r show ?thesis using take_add [of 5 32 "fs_data fs i"] by (simp add: headed_def)
qed

lemma newFileAt_result: "newFileAt h name cs fs = (Ok f, fs') \<Longrightarrow>
    f_fd f = h \<and> isClientFile f \<and> f_name f = name \<and> f_checksum f = cs"
  unfolding newFileAt_def os_Fstat_def fs_defs step_defs Let_def
  by (auto split: option.splits prod.splits outcome.splits)

lemma newFileAt_calls: "newFileAt h name cs fs = (r, fs') \<Longrightarrow> \<exists>k. fs' = fs\<lparr>fs_calls := k\<rparr>"
  unfolding newFileAt_def os_Fstat_def fs_defs step_defs Let_def
  by (auto split: option.splits prod.splits outcome.splits)

lemma os_Open_existing:
  assumes "os_Open name create fs = (Ok h, fs')" and "fs_dir fs name = Some i"
  shows "h = fs_next fs \<and> fs_fds fs' h = Some (i, 0) \<and> fs_data fs' = fs_data fs"
  using assms unfolding os_Open_def fs_defs step_defs Let_def by (auto split: option.splits)

definition openPending :: "gostring \<Rightarrow> (FS, File) parser" where
  "openPending name = bindM (os_Open name False) (\<lambda>h.
     bindM (mapErrM (\<lambda>_. ErrInvalidChecksum) (readChecksum h)) (\<lambda>cs. thenM (ignoreM (os_SeekEnd h)) (newFileAt h name cs)))"

lemma SeekEnd_position:
  assumes "ignoreM (os_SeekEnd h) fs = (r, fs')" and "fs_fds fs h = Some (i, 37)" and "37 \<le> length (fs_data fs i)"
  shows "\<exists>p. fs_fds fs' h = Some (i, p) \<and> 37 \<le> p"
  using assms unfolding os_SeekEnd_def fs_defs step_defs Let_def by (auto split: option.splits)

lemma openPending_result:
  assumes "openPending name fs = (Ok f, fs')"
  shows "\<exists>i p. fs_dir fs name = Some i \<and> fs_next fs \<le> f_fd f \<and> isClientFile f \<and> f_name f = name
    \<and> headed (f_checksum f) (fs_data fs i) \<and> fs_fds fs' (f_fd f) = Some (i, p) \<and> 37 \<le> p"
proof -
  from assms obtain h fs1 where o: "os_Open name False fs = (Ok h, fs1)"
    by (auto simp: openPending_def bindM_def split: prod.splits outcome.splits)
  then obtain i where i: "fs_dir fs name = Some i"
    unfolding os_Open_def fs_defs step_defs Let_def by (auto split: option.splits)
  note O = os_Open_existing [OF o i]
  from assms o obtain cs fs2 where c: "readChecksum h fs1 = (Ok cs, fs2)"
    by (auto simp: openPending_def bindM_def mapErrM_def split: prod.splits outcome.splits)
  with O have H: "headed cs (fs_data fs1 i)" "fs_fds fs2 h = Some (i, 37)" using readChecksum_headed [OF c] by auto
  have d: "fs_data fs2 = fs_data fs1" using keepsD [OF readChecksum_moved moved_refl(1) c] by (simp add: moved_def)
  obtain u fs3 where s: "ignoreM (os_SeekEnd h) fs2 = (u, fs3)" by fastforce
  obtain p where p: "fs_fds fs3 h = Some (i, p)" "37 \<le> p"
    using SeekEnd_position [OF s H(2)] headed_length [OF H(1)] d by auto
  from assms o c s have n: "newFileAt h name cs fs3 = (Ok f, fs')"
    by (cases u) (auto simp: openPending_def bindM_def mapErrM_def)
  from newFileAt_calls [OF n] newFileAt_result [OF n] i O H p show ?thesis by auto
qed

text \<open>A new file: its name, its inode and its descriptor are new, and it holds a part of the header.\<close>

definition growing :: "nat \<Rightarrow> FS \<Rightarrow> byte list \<Rightarrow> FS \<Rightarrow> bool" where
  "growing h fs0 d fs \<longleftrightarrow> fs_fault fs = fs_fault fs0 \<and> fs_dir fs = fs_dir fs0 \<and> fs_next fs = fs_next fs0
     \<and> (\<forall>j. j \<noteq> h \<longrightarrow> fs_data fs j = fs_data fs0 j) \<and> (\<forall>g. g \<noteq> h \<longrightarrow> fs_fds fs g = fs_fds fs0 g)
     \<and> fs_fds fs h = Some (h, length d) \<and> fs_data fs h = d"

lemma os_Write_growing:
  "guards (growing h fs0 d) (os_Write h bs) (\<lambda>n s. growing h fs0 (d @ bs) s \<and> n = length bs)
    (\<lambda>s. \<exists>k. growing h fs0 (d @ take k bs) s)"
proof (rule guardsI)
  fix s x s' assume s: "growing h fs0 d s" "os_Write h bs s = (x, s')"
  have "growing h fs0 (d @ take k bs) s" if "take k bs = []" for k using s(1) that by (auto simp: growing_def)
  with s show "case x of Ok v \<Rightarrow> growing h fs0 (d @ bs) s' \<and> v = length bs | _ \<Rightarrow> \<exists>k. growing h fs0 (d @ take k bs) s'"
    unfolding os_Write_def fs_defs step_defs Let_def growing_def by (auto split: option.splits)
qed

lemma writeChecksum_growing:
  "guards (growing h fs0 []) (writeChecksum h cs) (\<lambda>_ s. growing h fs0 (fileSignature @ cs) s \<and> length cs = ChecksumSize)
    (\<lambda>s. \<exists>k. growing h fs0 (take k (fileSignature @ cs)) s)"
proof -
  have sig: "guards (growing h fs0 []) (os_Write h fileSignature) (\<lambda>n. growing h fs0 fileSignature)
      (\<lambda>s. \<exists>k. growing h fs0 (take k (fileSignature @ cs)) s)"
  proof (rule guards_weaken [OF os_Write_growing])
    fix s assume "\<exists>k. growing h fs0 ([] @ take k fileSignature) s"
    then obtain k where "growing h fs0 (take k fileSignature) s" by auto
    moreover have "take k fileSignature = take (min k 5) (fileSignature @ cs)" by (cases "k \<le> 5") simp_all
    ultimately have "growing h fs0 (take (min k 5) (fileSignature @ cs)) s" by simp
    then show "\<exists>k. growing h fs0 (take k (fileSignature @ cs)) s" by blast
  qed auto
  have sum: "guards (growing h fs0 fileSignature) (os_Write h cs)
      (\<lambda>n s. growing h fs0 (fileSignature @ cs) s) (\<lambda>s. \<exists>k. growing h fs0 (take k (fileSignature @ cs)) s)"
  proof (rule guards_weaken [OF os_Write_growing])
    fix s assume "\<exists>k. growing h fs0 (fileSignature @ take k cs) s"
    then obtain k where "growing h fs0 (take (5 + k) (fileSignature @ cs)) s" by auto
    then show "\<exists>k. growing h fs0 (take k (fileSignature @ cs)) s" by blast
  qed auto
  have part: "growing h fs0 fileSignature s \<Longrightarrow> \<exists>k. growing h fs0 (take k (fileSignature @ cs)) s"
    "growing h fs0 (fileSignature @ cs) s \<Longrightarrow> \<exists>k. growing h fs0 (take k (fileSignature @ cs)) s"
    "growing h fs0 [] s \<Longrightarrow> \<exists>k. growing h fs0 (take k (fileSignature @ cs)) s" for s
    by (rule exI [of _ 5], simp) (rule exI [of _ "5 + length cs"], simp, rule exI [of _ 0], simp)
  show ?thesis
    unfolding writeChecksum_def
    by (intro guards_if guards_fail guards_bind [OF sig] guards_bind [OF sum] guards_return) (auto intro: part simp del: take_append)
qed

definition createPending :: "gostring \<Rightarrow> byte list \<Rightarrow> (FS, File) parser" where
  "createPending name cs = bindM (os_Open name True) (\<lambda>h.
     thenM (mapErrM (\<lambda>e. Errorf ''unable to write checksum'' (Some e)) (writeChecksum h cs)) (newFileAt h name cs))"

definition created :: "gostring \<Rightarrow> byte list \<Rightarrow> byte list \<Rightarrow> FS \<Rightarrow> FS \<Rightarrow> bool" where
  "created name cs d fs fs' \<longleftrightarrow> (let h = fs_next fs in
     growing h (fs\<lparr>fs_dir := (fs_dir fs)(name \<mapsto> h), fs_next := h + 1\<rparr>) d fs' \<and> (\<exists>k. d = take k (fileSignature @ cs)))"

lemma createPending_result:
  assumes "createPending name cs fs = (r, fs')" and "fs_dir fs name = None"
  shows "(shut fs fs' \<and> (\<forall>f. r \<noteq> Ok f)) \<or> (\<exists>d. created name cs d fs fs' \<and> (\<forall>f. r = Ok f \<longrightarrow> length cs = ChecksumSize
     \<and> d = fileSignature @ cs \<and> f_fd f = fs_next fs \<and> isClientFile f \<and> f_name f = name \<and> f_checksum f = cs))"
proof (cases "fs_fault fs (fs_calls fs)")
  case (Some x)
  then have "\<exists>e. os_Open name True fs = (Err e, fs\<lparr>fs_calls := fs_calls fs + 1\<rparr>)"
    by (cases x) (simp add: os_Open_def sysM_def returnM_def)
  with assms(1) have "fs' = fs\<lparr>fs_calls := fs_calls fs + 1\<rparr> \<and> (\<forall>f. r \<noteq> Ok f)" by (auto simp: createPending_def bindM_def)
  then show ?thesis by (simp add: shut_def)
next
  case None
  define h where "h = fs_next fs"
  define fs0 where "fs0 = fs\<lparr>fs_dir := (fs_dir fs)(name \<mapsto> h), fs_next := h + 1\<rparr>"
  obtain fs1 where o: "os_Open name True fs = (Ok h, fs1)" and g: "growing h fs0 [] fs1"
    using None assms(2) by (simp add: os_Open_def sysM_def growing_def Let_def fs0_def h_def)
  obtain u fs2 where w: "writeChecksum h cs fs1 = (u, fs2)" by fastforce
  note W = guardsD [OF writeChecksum_growing g w]
  have shape: "\<exists>d. created name cs d fs s" if "growing h fs0 (take k (fileSignature @ cs)) s" for k s
    using that unfolding created_def Let_def h_def [symmetric] fs0_def [symmetric] by blast
  show ?thesis
  proof (cases u)
    case (Ok v)
    with W have G: "growing h fs0 (fileSignature @ cs) fs2" "length cs = ChecksumSize" by auto
    from assms(1) o w Ok have n: "newFileAt h name cs fs2 = (r, fs')" by (simp add: createPending_def bindM_def mapErrM_def)
    have "growing h fs0 (fileSignature @ cs) fs'"
      using newFileAt_calls [OF n] G(1) by (auto simp: growing_def)
    moreover have "\<exists>k. fileSignature @ cs = take k (fileSignature @ cs)" by (rule exI [of _ "5 + length cs"]) simp
    ultimately have "created name cs (fileSignature @ cs) fs fs'"
      unfolding created_def Let_def h_def [symmetric] fs0_def [symmetric] by (rule conjI)
    moreover have "f_fd f = fs_next fs \<and> isClientFile f \<and> f_name f = name \<and> f_checksum f = cs" if "r = Ok f" for f
      using newFileAt_result [of h name cs fs2 f fs'] n that by (simp add: h_def)
    ultimately show ?thesis using G(2) by (intro disjI2 exI [of _ "fileSignature @ cs"]) simp
  next
    case (Err e)
    with assms(1) o w have "fs' = fs2" "\<forall>f. r \<noteq> Ok f" by (auto simp: createPending_def bindM_def mapErrM_def)
    with W Err shape show ?thesis by auto
  next
    case Block
    with assms(1) o w have "fs' = fs2" "\<forall>f. r \<noteq> Ok f" by (auto simp: createPending_def bindM_def mapErrM_def)
    with W Block shape show ?thesis by auto
  next
    case (Panic e)
    with assms(1) o w have "fs' = fs2" "\<forall>f. r \<noteq> Ok f" by (auto simp: createPending_def bindM_def mapErrM_def)
    with W Panic shape show ?thesis by auto
  qed
qed

section \<open>The operations of a stream\<close>

text \<open>
  What is assumed: checksums have their size, and an announced file that itself starts with a
  header starts with an announced one; no fault pretends that a file does not exist; numbers
  above \<open>fs_next\<close> are not in use.
\<close>

definition announced :: "(byte list \<Rightarrow> byte list) \<Rightarrow> byte list set \<Rightarrow> bool" where
  "announced sha A \<longleftrightarrow> (\<forall>cs \<in> A. length cs = ChecksumSize) \<and> (\<forall>F cs. sha F \<in> A \<longrightarrow> headed cs F \<longrightarrow> cs \<in> A)"

definition honest :: "FS \<Rightarrow> bool" where
  "honest fs \<longleftrightarrow> (\<forall>k e m. fs_fault fs k = Some (e, m) \<longrightarrow> \<not> isNotExist e)
     \<and> (\<forall>n i. fs_dir fs n = Some i \<longrightarrow> i < fs_next fs)"

lemma acceptable_headed: "announced sha A \<Longrightarrow> acceptable sha A F \<Longrightarrow> headed cs F \<Longrightarrow> cs \<in> A"
proof -
  assume a: "announced sha A" and F: "acceptable sha A F" and h: "headed cs F"
  have "cs \<in> A" if "cs' \<in> A" "F = take k (fileSignature @ cs')" for cs' k
  proof -
    have "length cs' = 32" using a that(1) by (simp add: announced_def)
    moreover from this have "37 \<le> k \<or> length F < 37" using that(2) by (auto simp: min_def)
    ultimately have "F = fileSignature @ cs'" using that(2) headed_length [OF h] by auto
    with h \<open>length cs' = 32\<close> that(1) show ?thesis by (simp add: headed_def)
  qed
  with a F h show ?thesis unfolding acceptable_def announced_def by (metis headed_unique)
qed

text \<open>A foreign file is no file of the client's.\<close>

lemma foreign_not_owned: "honest fs0 \<Longrightarrow> foreign fs0 n \<Longrightarrow> fs_dir fs0 n = Some i \<Longrightarrow> \<not> owned R fs0 i"
  by (fastforce simp: owned_def honest_def foreign_def stored_def)

lemma opened_held:
  assumes "fs_ok sha tmp R A fs0 fs" and "announced sha A" and "honest fs0" and "name \<in> R" and "name \<noteq> tmp"
    and "fs_dir fs name = Some i" and "headed cs (fs_data fs i)"
  shows "\<not> foreign fs0 name \<and> owned R fs0 i \<and> cs \<in> A"
proof -
  have nf: "\<not> foreign fs0 name"
  proof
    assume f: "foreign fs0 name"
    with assms(1,4,5,6) have d: "fs_dir fs0 name = Some i" unfolding fs_ok_def by metis
    with foreign_not_owned [OF assms(3) f] assms(1) have "fs_data fs i = fs_data fs0 i" unfolding fs_ok_def by metis
    with f d assms(7) show False by (auto simp: foreign_def stored_def)
  qed
  with assms(1,4,6) have "owned R fs0 i" "acceptable sha A (fs_data fs i)" unfolding fs_ok_def by metis+
  with nf acceptable_headed [OF assms(2) _ assms(7)] show ?thesis by blast
qed

lemma openPending_quiet: "keeps (quiet fs0) (openPending name)"
  unfolding openPending_def
proof (rule keeps_bindQ [where Q = "\<lambda>h. fs_next fs0 \<le> h", OF os_Open_quiet(1)])
  fix h assume h: "fs_next fs0 \<le> h"
  show "keeps (quiet fs0) (bindM (mapErrM (\<lambda>_. ErrInvalidChecksum) (readChecksum h))
      (\<lambda>cs. thenM (ignoreM (os_SeekEnd h)) (newFileAt h name cs)))"
    by (intro keeping keeps_quietM [OF readChecksum_moved] keeps_quietM [OF keeps_moved(2)] keeps_quietS [OF newFileAt_shut] h)
qed (rule os_Open_quiet(2))

lemma openPending_held:
  assumes "openPending name fs = (r, fs')" and "fs_ok sha tmp R A fs0 fs" and "announced sha A" and "honest fs0"
    and "name \<in> R" and "name \<noteq> tmp"
  shows "fs_ok sha tmp R A fs0 fs' \<and> evolves {} fs fs'
    \<and> (\<forall>f. r = Ok f \<longrightarrow> held R A fs0 fs' f \<and> beyond fs' f \<and> fs_next fs \<le> f_fd f)"
proof -
  have q: "quiet fs fs'" by (rule keepsD [OF openPending_quiet quiet_refl assms(1)])
  note K = quiet_ok [OF assms(2) q]
  have "held R A fs0 fs' f \<and> beyond fs' f \<and> fs_next fs \<le> f_fd f" if r: "r = Ok f" for f
  proof -
    obtain i p where i: "fs_dir fs name = Some i" "fs_next fs \<le> f_fd f" "isClientFile f" "f_name f = name"
        "headed (f_checksum f) (fs_data fs i)" "fs_fds fs' (f_fd f) = Some (i, p)" "37 \<le> p"
      using openPending_result [OF assms(1) [unfolded r]] by blast
    have "fs_data fs' = fs_data fs" using q by (simp add: quiet_def)
    moreover have "f_fd f < fs_next fs'" using K i(6) unfolding fs_ok_def by blast
    ultimately show ?thesis
      using opened_held [OF assms(2-6) i(1,5)] i assms(5) by (simp add: held_def beyond_def)
  qed
  with K show ?thesis by blast
qed

lemma created_held:
  assumes c: "created name cs d fs fs'" and o: "fs_ok sha tmp R A fs0 fs" and "cs \<in> A" and "name \<in> R" and "\<not> foreign fs0 name"
  shows "fs_ok sha tmp R A fs0 fs' \<and> evolves {} fs fs'"
proof -
  let ?h = "fs_next fs"
  obtain k where k: "d = take k (fileSignature @ cs)" using c by (auto simp: created_def Let_def)
  have g: "fs_fault fs' = fs_fault fs" "fs_dir fs' = (fs_dir fs)(name \<mapsto> ?h)" "fs_next fs' = ?h + 1"
    "\<And>j. j \<noteq> ?h \<Longrightarrow> fs_data fs' j = fs_data fs j" "\<And>g. g \<noteq> ?h \<Longrightarrow> fs_fds fs' g = fs_fds fs g"
    "fs_fds fs' ?h = Some (?h, length d)" "fs_data fs' ?h = d"
    using c by (auto simp: created_def growing_def Let_def)
  have own: "owned R fs0 ?h" using o by (simp add: fs_ok_def owned_def)
  have acc: "acceptable sha A d" using k assms(3) by (auto simp: acceptable_def simp del: take_append)
  have data: "owned R fs0 j \<and> acceptable sha A (fs_data fs' j)" if "n \<in> R" "\<not> foreign fs0 n" "fs_dir fs' n = Some j" for n j
  proof (cases "n = name")
    case True
    with that g own acc show ?thesis by simp
  next
    case False
    with that g(2) have d: "fs_dir fs n = Some j" by simp
    with o have "j < ?h" unfolding fs_ok_def by blast
    with g(4) have "fs_data fs' j = fs_data fs j" by simp
    with o that d show ?thesis unfolding fs_ok_def by metis
  qed
  note B = fs_ok_bounds [OF o]
  have fds: "h < fs_next fs' \<and> i < fs_next fs'" if "fs_fds fs' h = Some (i, p)" for h i p
    using that g(3,5,6) B(1) [of h i p] by (cases "h = ?h") (auto intro: less_SucI)
  have dirs: "i < fs_next fs'" if "fs_dir fs' n = Some i" for n i
    using that g(2,3) B(2) [of n i] by (cases "n = name") (auto intro: less_SucI)
  have "fs_ok sha tmp R A fs0 fs'"
    unfolding fs_ok_def
  proof (intro conjI allI impI ballI)
    show "fs_dir fs' n = fs_dir fs0 n" if "n \<notin> R \<or> foreign fs0 n" "n \<noteq> tmp" for n
      using that o g(2) assms(4,5) unfolding fs_ok_def by auto
    show "fs_data fs' i = fs_data fs0 i" if "\<not> owned R fs0 i" for i
      using that o own g(4) unfolding fs_ok_def by metis
  qed (use o g data fds dirs in \<open>auto simp: fs_ok_def\<close>)
  moreover have "evolves {} fs fs'" using g by (auto simp: evolves_def)
  ultimately show ?thesis by blast
qed

lemma NewFile_cases:
  assumes "NewFile name (Some cs) fs = (r, fs')" and "honest fs"
  shows "(shut fs fs' \<and> (\<forall>f. r \<noteq> Ok f)) \<or> (\<exists>fs1. shut fs fs1 \<and>
     (fs_dir fs name = None \<and> createPending name cs fs1 = (r, fs') \<or> openPending name fs1 = (r, fs')))"
proof -
  obtain u fs1 where m: "os_MkdirAll fs = (u, fs1)" by fastforce
  obtain v fs2 where t: "os_Stat name fs1 = (v, fs2)" by fastforce
  have s1: "shut fs fs1" by (rule keepsD [OF keeps_shut(1) moved_refl(2) m])
  have s2: "shut fs fs2" by (rule keepsD [OF keeps_shut(2) s1 t])
  show ?thesis
  proof (cases "\<exists>w. u = Ok w")
    case False
    with assms(1) m have "fs' = fs1 \<and> (\<forall>f. r \<noteq> Ok f)" by (cases u) (auto simp: NewFile_def bindM_def mapErrM_def)
    with s1 show ?thesis by blast
  next
    case True
    then have run: "NewFile name (Some cs) fs = (case v of
        Err e \<Rightarrow> if isNotExist e then createPending name cs fs2 else (Err e, fs2)
      | Ok n \<Rightarrow> openPending name fs2 | Block \<Rightarrow> (Block, fs2) | Panic p \<Rightarrow> (Panic p, fs2))"
      using m t by (auto simp: NewFile_def createPending_def openPending_def bindM_def mapErrM_def tryM_def failM_def split: outcome.split)
    have "fs_dir fs name = None" if "v = Err e" "isNotExist e" for e
    proof (rule ccontr)
      assume "fs_dir fs name \<noteq> None"
      then obtain i where "fs_dir fs1 name = Some i" using s1 by (auto simp: shut_def)
      then have "\<exists>m. fs_fault fs1 (fs_calls fs1) = Some (e, m)"
        using t that(1) unfolding os_Stat_def fs_defs step_defs by (auto simp: Let_def split: option.splits)
      with s1 assms(2) that(2) show False by (auto simp: shut_def honest_def)
    qed
    with run assms(1) s2 show ?thesis by (cases v) (auto split: if_splits)
  qed
qed

lemma NewFile_held:
  assumes "NewFile name (Some cs) fs = (r, fs')" and o: "fs_ok sha tmp R A fs0 fs" and a: "announced sha A" and h: "honest fs0"
    and "name \<in> R" and "name \<noteq> tmp" and "cs \<in> A"
  shows "fs_ok sha tmp R A fs0 fs' \<and> evolves {} fs fs'
    \<and> (\<forall>f. r = Ok f \<longrightarrow> held R A fs0 fs' f \<and> beyond fs' f \<and> fs_next fs \<le> f_fd f)"
proof -
  have hf: "honest fs" using o h unfolding honest_def fs_ok_def by metis
  have shut: "fs_ok sha tmp R A fs0 fs1 \<and> evolves {} fs fs1 \<and> fs_next fs1 = fs_next fs" if "shut fs fs1" for fs1
    using quiet_ok [OF o quiet_shut [OF quiet_refl that]] that by (simp add: shut_def)
  have trans: "evolves {} fs fs1 \<Longrightarrow> fs_next fs1 = fs_next fs \<Longrightarrow> evolves {} fs1 fs2 \<Longrightarrow> evolves {} fs fs2" for fs1 fs2
    unfolding evolves_def by (metis empty_iff)
  from NewFile_cases [OF assms(1) hf] show ?thesis
  proof (elim disjE exE conjE)
    assume "shut fs fs'" "\<forall>f. r \<noteq> Ok f"
    with shut show ?thesis by blast
  next
    fix fs1 assume s: "shut fs fs1" and p: "openPending name fs1 = (r, fs')"
    note S = shut [OF s]
    from openPending_held [OF p _ a h assms(5,6)] S trans show ?thesis by metis
  next
    fix fs1 assume s: "shut fs fs1" and n: "fs_dir fs name = None" and p: "createPending name cs fs1 = (r, fs')"
    note S = shut [OF s]
    from n s have n1: "fs_dir fs1 name = None" by (simp add: shut_def)
    have nf: "\<not> foreign fs0 name"
    proof
      assume f: "foreign fs0 name"
      with o n assms(6) have "fs_dir fs0 name = None" unfolding fs_ok_def by metis
      with f show False by (simp add: foreign_def stored_def)
    qed
    from createPending_result [OF p n1] show ?thesis
    proof (elim disjE exE conjE)
      assume "shut fs1 fs'" "\<forall>f. r \<noteq> Ok f"
      with quiet_ok [OF conjunct1 [OF S] quiet_shut [OF quiet_refl]] S trans show ?thesis by metis
    next
      fix d assume c: "created name cs d fs1 fs'" and f: "\<forall>f. r = Ok f \<longrightarrow> length cs = ChecksumSize
         \<and> d = fileSignature @ cs \<and> f_fd f = fs_next fs1 \<and> isClientFile f \<and> f_name f = name \<and> f_checksum f = cs"
      note K = created_held [OF c conjunct1 [OF S] assms(7,5) nf]
      have "held R A fs0 fs' g \<and> beyond fs' g \<and> fs_next fs \<le> f_fd g" if "r = Ok g" for g
        using f that c S o assms(5,7) nf
        by (auto simp: held_def beyond_def created_def growing_def Let_def headed_def owned_def fs_ok_def)
      with K S trans show ?thesis by blast
    qed
  qed
qed

text \<open>A write behind the header.\<close>

lemma acceptable_put: "announced sha A \<Longrightarrow> headed cs F \<Longrightarrow> cs \<in> A \<Longrightarrow> 37 \<le> p \<Longrightarrow> acceptable sha A (put_bytes F p bs)"
  using headed_put unfolding acceptable_def by blast

lemma writes_inode:
  assumes o: "fs_ok sha tmp R A fs0 fs" and i: "owned R fs0 i" "headed cs (fs_data fs i)" "cs \<in> A" "announced sha A"
    and f: "fs_fds fs h = Some (i, p)" "37 \<le> p" "37 \<le> q"
    and d: "fs' = fs\<lparr>fs_calls := k, fs_data := (fs_data fs)(i := put_bytes (fs_data fs i) p bs), fs_fds := (fs_fds fs)(h \<mapsto> (i, q))\<rparr>"
  shows "fs_ok sha tmp R A fs0 fs' \<and> evolves {h} fs fs'"
proof -
  note B = fs_ok_bounds [OF o]
  have hd: "headed c (fs_data fs' j)" if "headed c (fs_data fs j)" for c j
    using that headed_put [of c "fs_data fs i" p bs] f(2) d by (cases "j = i") auto
  have acc: "acceptable sha A (fs_data fs' j)" if "acceptable sha A (fs_data fs j)" for j
    using that acceptable_put [OF i(4,2,3) f(2), of bs] d by (cases "j = i") auto
  have "fs_ok sha tmp R A fs0 fs'"
    unfolding fs_ok_def
  proof (intro conjI allI impI ballI)
    show "fs_data fs' j = fs_data fs0 j" if "\<not> owned R fs0 j" for j
      using that o i(1) d unfolding fs_ok_def by (cases "j = i") auto
    show "acceptable sha A (fs_data fs' j)" if "n \<in> R" "\<not> foreign fs0 n" "fs_dir fs' n = Some j" for n j
      using acc that o d unfolding fs_ok_def by simp
    show "g < fs_next fs'" "j < fs_next fs'" if "fs_fds fs' g = Some (j, l)" for g j l
      using that B(1) [of g j l] B(1) [OF f(1)] d by (auto split: if_splits)
  qed (use o d in \<open>auto simp: fs_ok_def\<close>)
  moreover have "evolves {h} fs fs'" using hd f(1) d by (auto simp: evolves_def)
  ultimately show ?thesis by blast
qed

lemma File_Write_held:
  assumes "File_Write f bs fs = (r, fs')" and o: "fs_ok sha tmp R A fs0 fs" and a: "announced sha A"
    and f: "held R A fs0 fs f" "beyond fs f"
  shows "fs_ok sha tmp R A fs0 fs' \<and> evolves {f_fd f} fs fs' \<and> beyond fs' f"
proof -
  consider "fs' = fs\<lparr>fs_calls := fs_calls fs + 1\<rparr>"
    | i p k cs where "fs_fds fs (f_fd f) = Some (i, p)" "fs' = fs\<lparr>fs_calls := fs_calls fs + 1,
        fs_data := (fs_data fs)(i := put_bytes (fs_data fs i) p cs), fs_fds := (fs_fds fs)(f_fd f \<mapsto> (i, p + k))\<rparr>"
    using assms(1) unfolding File_Write_def os_Write_def fs_defs step_defs Let_def
    by (auto split: option.splits)
  then show ?thesis
  proof cases
    case 1
    then have "quiet fs fs'" by (simp add: quiet_def)
    from quiet_ok [OF o this] 1 f(2) evolves_mono [of "{}" fs fs' "{f_fd f}"] show ?thesis by (simp add: beyond_def)
  next
    case 2
    have p: "37 \<le> p" "owned R fs0 i" "headed (f_checksum f) (fs_data fs i)" "f_checksum f \<in> A"
      using f 2(1) by (auto simp: beyond_def held_def)
    from writes_inode [OF o p(2-4) a 2(1) p(1) _ 2(2)] p(1) 2(2) show ?thesis by (simp add: beyond_def)
  qed
qed

section \<open>The end of a transfer\<close>

text \<open>After the attempt to publish: one more inode at most, which only the two names may lead to.\<close>

definition republished ::
  "gostring \<Rightarrow> gostring \<Rightarrow> FS \<Rightarrow> nat \<Rightarrow> nat \<Rightarrow> FS \<Rightarrow> bool" where
  "republished tmp name fs0 h i fs \<longleftrightarrow> (let N = fs_next fs0 in
     fs_fault fs = fs_fault fs0 \<and> (fs_next fs = N \<or> fs_next fs = N + 1) \<and> (\<forall>j. j \<noteq> N \<longrightarrow> fs_data fs j = fs_data fs0 j)
     \<and> (\<forall>g. g \<noteq> h \<longrightarrow> g \<noteq> N \<longrightarrow> fs_fds fs g = fs_fds fs0 g) \<and> (\<forall>x. fs_fds fs h = Some x \<longrightarrow> fst x = i)
     \<and> (\<forall>x. fs_fds fs N = Some x \<longrightarrow> fst x = N \<and> fs_next fs = N + 1)
     \<and> (\<forall>n. n \<noteq> tmp \<longrightarrow> n \<noteq> name \<longrightarrow> fs_dir fs n = fs_dir fs0 n)
     \<and> (fs_dir fs tmp \<noteq> fs_dir fs0 tmp \<longrightarrow> fs_dir fs tmp = None \<or> fs_dir fs tmp = Some N \<and> fs_next fs = N + 1)
     \<and> (fs_dir fs name \<noteq> fs_dir fs0 name \<longrightarrow> fs_dir fs name = Some N \<and> fs_next fs = N + 1
         \<and> fs_data fs N = drop 37 (fs_data fs0 i)))"

definition copying :: "gostring \<Rightarrow> nat \<Rightarrow> nat \<Rightarrow> FS \<Rightarrow> FS \<Rightarrow> bool" where
  "copying tmp h i fs0 fs \<longleftrightarrow> (let N = fs_next fs0 in
     fs_fault fs = fs_fault fs0 \<and> fs_next fs = N + 1 \<and> fs_dir fs = (fs_dir fs0)(tmp \<mapsto> N)
     \<and> (\<forall>j. j \<noteq> N \<longrightarrow> fs_data fs j = fs_data fs0 j) \<and> (\<forall>g. g \<noteq> h \<longrightarrow> g \<noteq> N \<longrightarrow> fs_fds fs g = fs_fds fs0 g)
     \<and> (\<forall>x. fs_fds fs h = Some x \<longrightarrow> fst x = i) \<and> (\<forall>x. fs_fds fs N = Some x \<longrightarrow> fst x = N))"

lemma CreateTemp_cases:
  assumes "os_CreateTemp tmp fs1 = (r, fs')" and "moved h fs0 fs1" and "fs_fds fs1 h = Some (i, 37)" and "h < fs_next fs1"
  shows "(moved h fs0 fs' \<and> fs_fds fs' h = Some (i, 37) \<and> (\<forall>t. r \<noteq> Ok t)) \<or> (r = Ok (fs_next fs0) \<and> copying tmp h i fs0 fs'
     \<and> fs_fds fs' h = Some (i, 37) \<and> fs_fds fs' (fs_next fs0) = Some (fs_next fs0, 0) \<and> fs_data fs' (fs_next fs0) = [])"
  using assms unfolding os_CreateTemp_def os_Open_def fs_defs step_defs moved_def copying_def Let_def
  by (auto split: option.splits if_splits)

lemma Copy_copying:
  assumes "io_Copy N h fs1 = (r, fs')" and "copying tmp h i fs0 fs1" and "N = fs_next fs0" and "h \<noteq> N" and "i \<noteq> N"
    and "fs_fds fs1 h = Some (i, 37)" and "fs_fds fs1 N = Some (N, 0)" and "fs_data fs1 N = []"
  shows "copying tmp h i fs0 fs' \<and> (\<forall>n. r = Ok n \<longrightarrow> fs_data fs' N = drop 37 (fs_data fs0 i))"
  using assms unfolding io_Copy_def fs_defs step_defs copying_def Let_def put_bytes_def
  by (auto split: option.splits if_splits)

lemma copying_republished: "copying tmp h i fs0 fs \<Longrightarrow> tmp \<noteq> name \<Longrightarrow> republished tmp name fs0 h i fs"
  by (simp add: copying_def republished_def Let_def)

lemma Rename_republished:
  assumes "os_Rename tmp name fs1 = (r, fs')" and "copying tmp h i fs0 fs1" and "tmp \<noteq> name"
    and "fs_data fs1 (fs_next fs0) = drop 37 (fs_data fs0 i)"
  shows "republished tmp name fs0 h i fs'"
  using assms unfolding os_Rename_def fs_defs step_defs copying_def republished_def Let_def
  by (auto split: option.splits if_splits)

lemma keeps_republished: "keeps (republished tmp name fs0 h i) (os_Close (fs_next fs0))"
  unfolding keeps_alt os_Close_def fs_defs step_defs republished_def Let_def
  by (auto split: option.splits if_splits)

lemma bind_try: "m s = (w, s') \<Longrightarrow> bindM (tryM m) k s = (case w of Ok x \<Rightarrow> k (Inl x) s' | Err e \<Rightarrow> k (Inr e) s'
    | Block \<Rightarrow> (Block, s') | Panic p \<Rightarrow> (Panic p, s'))"
  by (simp add: bindM_def tryM_def split: outcome.splits)

lemma publish_republished:
  assumes "tmp \<noteq> name" and "h < fs_next fs1" and "i < fs_next fs1" and "moved h fs0 fs1" and "fs_fds fs1 h = Some (i, 37)"
    and "\<And>x. fs_fds fs0 (fs_next fs0) \<noteq> Some x"
    and "bindM (os_CreateTemp tmp) (\<lambda>t.
       bindM (tryM (bindM (io_Copy t h) (\<lambda>_. os_Rename tmp name))) (\<lambda>res.
       thenM (ignoreM (os_Close t)) (case res of Inl _ \<Rightarrow> returnM () | Inr e \<Rightarrow> failM e))) fs1 = (r, fs')"
  shows "republished tmp name fs0 h i fs'"
proof -
  let ?N = "fs_next fs0"
  have N: "fs_next fs1 = ?N" using assms(4) by (simp add: moved_def)
  have ne: "h \<noteq> ?N" "i \<noteq> ?N" using assms(2,3) N by auto
  have fin: "keeps (republished tmp name fs0 h i) (thenM (ignoreM (os_Close ?N)) (returnM ()))"
    "keeps (republished tmp name fs0 h i) (thenM (ignoreM (os_Close ?N)) (failM e))" for e
    by (intro keeping keeps_republished)+
  obtain u fs2 where t: "os_CreateTemp tmp fs1 = (u, fs2)" by fastforce
  from CreateTemp_cases [OF t assms(4,5,2)] show ?thesis
  proof (elim disjE conjE)
    assume m: "moved h fs0 fs2" "fs_fds fs2 h = Some (i, 37)" and u: "\<forall>t. u \<noteq> Ok t"
    with assms(7) t have "fs' = fs2" by (cases u) (auto simp: bindM_def)
    with m assms(1,6) ne(1) show ?thesis by (auto simp: moved_def republished_def Let_def)
  next
    assume u: "u = Ok ?N" and c: "copying tmp h i fs0 fs2"
      and f: "fs_fds fs2 h = Some (i, 37)" "fs_fds fs2 ?N = Some (?N, 0)" "fs_data fs2 ?N = []"
    obtain v fs3 where k: "io_Copy ?N h fs2 = (v, fs3)" by fastforce
    note C = Copy_copying [OF k c refl ne f]
    obtain w fs4 where m: "bindM (io_Copy ?N h) (\<lambda>_. os_Rename tmp name) fs2 = (w, fs4)" by fastforce
    have R: "republished tmp name fs0 h i fs4"
    proof (cases "\<exists>n. v = Ok n")
      case True
      with m k have "os_Rename tmp name fs3 = (w, fs4)" by (auto simp: bindM_def)
      with Rename_republished C True assms(1) show ?thesis by blast
    next
      case False
      with m k have "fs4 = fs3" by (cases v) (auto simp: bindM_def)
      with C copying_republished assms(1) show ?thesis by blast
    qed
    show ?thesis
    proof (cases w)
      case (Ok x)
      with assms(7) t u m have "thenM (ignoreM (os_Close ?N)) (returnM ()) fs4 = (r, fs')"
        by (simp add: bindM_def [of "os_CreateTemp tmp"] bind_try)
      from keepsD [OF fin(1) R this] show ?thesis .
    next
      case (Err e)
      with assms(7) t u m have "thenM (ignoreM (os_Close ?N)) (failM e) fs4 = (r, fs')"
        by (simp add: bindM_def [of "os_CreateTemp tmp"] bind_try)
      from keepsD [OF fin(2) R this] show ?thesis .
    qed (use assms(7) t u m R in \<open>auto simp: bindM_def [of "os_CreateTemp tmp"] bind_try\<close>)
  qed
qed

text \<open>Either step of \<open>completeFile\<close>; the checksum was announced.\<close>

lemma republished_ok:
  assumes o: "fs_ok sha tmp R A fs0 fs" and r: "republished tmp name fs h i fs'" and "fs_fds fs h = Some (i, p)"
    and n: "name \<in> R" "\<not> foreign fs0 name" "tmp \<notin> R" and c: "sha (drop 37 (fs_data fs i)) \<in> A"
  shows "fs_ok sha tmp R A fs0 fs' \<and> evolves {h} fs fs'"
proof -
  note B = fs_ok_bounds [OF o]
  let ?N = "fs_next fs"
  have hN: "h < ?N" "i < ?N" using B(1) [OF assms(3)] by auto
  have own: "owned R fs0 ?N" using o by (simp add: fs_ok_def owned_def)
  have r': "fs_fault fs' = fs_fault fs" "fs_next fs' = ?N \<or> fs_next fs' = ?N + 1"
    "\<And>j. j \<noteq> ?N \<Longrightarrow> fs_data fs' j = fs_data fs j" "\<And>g. g \<noteq> h \<Longrightarrow> g \<noteq> ?N \<Longrightarrow> fs_fds fs' g = fs_fds fs g"
    "\<And>x. fs_fds fs' h = Some x \<Longrightarrow> fst x = i" "\<And>x. fs_fds fs' ?N = Some x \<Longrightarrow> fst x = ?N \<and> fs_next fs' = ?N + 1"
    "\<And>n. n \<noteq> tmp \<Longrightarrow> n \<noteq> name \<Longrightarrow> fs_dir fs' n = fs_dir fs n"
    "fs_dir fs' tmp \<noteq> fs_dir fs tmp \<Longrightarrow> fs_dir fs' tmp = None \<or> fs_dir fs' tmp = Some ?N \<and> fs_next fs' = ?N + 1"
    "fs_dir fs' name \<noteq> fs_dir fs name \<Longrightarrow> fs_dir fs' name = Some ?N \<and> fs_next fs' = ?N + 1
       \<and> fs_data fs' ?N = drop 37 (fs_data fs i)"
    using r unfolding republished_def Let_def by blast+
  have le: "?N \<le> fs_next fs'" using r'(2) by auto
  have fds: "g < fs_next fs' \<and> j < fs_next fs'" if "fs_fds fs' g = Some (j, q)" for g j q
  proof -
    consider "g = h" | "g = ?N" | "g \<noteq> h" "g \<noteq> ?N" by blast
    then show ?thesis
    proof cases
      case 1
      with r'(5) that have "j = i" by fastforce
      with 1 hN le show ?thesis by simp
    next
      case 2
      with r'(6) that show ?thesis by fastforce
    next
      case 3
      with r'(4) that have "fs_fds fs g = Some (j, q)" by simp
      from B(1) [OF this] le show ?thesis by simp
    qed
  qed
  have dirs: "j < fs_next fs'" if d: "fs_dir fs' n = Some j" for n j
  proof (cases "fs_dir fs' n = fs_dir fs n")
    case True
    with d B(2) [of n j] le show ?thesis by simp
  next
    case False
    then have "n = tmp \<or> n = name" using r'(7) by blast
    with False d r'(8,9) show ?thesis by auto
  qed
  have data: "owned R fs0 j \<and> acceptable sha A (fs_data fs' j)" if "m \<in> R" "\<not> foreign fs0 m" "fs_dir fs' m = Some j" for m j
  proof (cases "fs_dir fs' m = fs_dir fs m")
    case True
    with that B(2) [of m j] have d: "fs_dir fs m = Some j" "j \<noteq> ?N" by auto
    from fs_ok_mine [OF o that(1,2) d(1)] r'(3) [OF d(2)] show ?thesis by simp
  next
    case False
    moreover have "m \<noteq> tmp" using that(1) n(3) by auto
    ultimately have "m = name" using r'(7) [of m] by auto
    with False that r'(9) own c show ?thesis by (auto simp: acceptable_def)
  qed
  have "fs_ok sha tmp R A fs0 fs'"
    unfolding fs_ok_def
  proof (intro conjI allI impI ballI)
    show "fs_dir fs' m = fs_dir fs0 m" if "m \<notin> R \<or> foreign fs0 m" "m \<noteq> tmp" for m
    proof -
      have "m \<noteq> name" using that(1) n by auto
      with r'(7) [OF that(2)] fs_ok_other(1) [OF o that] show ?thesis by simp
    qed
    show "fs_data fs' j = fs_data fs0 j" if "\<not> owned R fs0 j" for j
      using fs_ok_other(2) [OF o that] own that r'(3) [of j] by (cases "j = ?N") simp_all
  qed (use o r' le data fds dirs in \<open>auto simp: fs_ok_def\<close>)
  moreover have "evolves {h} fs fs'"
    unfolding evolves_def
  proof (intro conjI allI impI)
    fix g assume g: "g < ?N"
    show "fs_fds fs' g = None \<or> map_option fst (fs_fds fs' g) = map_option fst (fs_fds fs g)
        \<and> (g \<notin> {h} \<longrightarrow> fs_fds fs' g = fs_fds fs g)"
    proof (cases "g = h")
      case True
      with assms(3) r'(5) show ?thesis by (cases "fs_fds fs' h") auto
    next
      case False
      with g r'(4) show ?thesis by simp
    qed
  qed (use le r'(3) in auto)
  ultimately show ?thesis by blast
qed

lemma removed_ok:
  assumes "fs_ok sha tmp R A fs0 fs" and "name \<in> R" and "\<not> foreign fs0 name"
  shows "fs_ok sha tmp R A fs0 (fs\<lparr>fs_dir := (fs_dir fs)(name := None)\<rparr>)
    \<and> evolves X fs (fs\<lparr>fs_dir := (fs_dir fs)(name := None)\<rparr>)"
proof -
  have "fs_ok sha tmp R A fs0 (fs\<lparr>fs_dir := (fs_dir fs)(name := None)\<rparr>)"
    using assms fs_ok_bounds [OF assms(1)] unfolding fs_ok_def by (auto split: if_splits)
  then show ?thesis by (simp add: evolves_def)
qed

lemma evolves_trans:
  assumes "evolves X fs fs1" and "evolves X fs1 fs2"
  shows "evolves X fs fs2"
proof -
  have n: "fs_next fs \<le> fs_next fs1" using assms(1) by (simp add: evolves_def)
  have fds: "fs_fds fs2 h = None \<or> map_option fst (fs_fds fs2 h) = map_option fst (fs_fds fs h)
      \<and> (h \<notin> X \<longrightarrow> fs_fds fs2 h = fs_fds fs h)" if "h < fs_next fs" for h
  proof (cases "fs_fds fs1 h = None")
    case True
    from assms(2) n that have "fs_fds fs2 h = None \<or> map_option fst (fs_fds fs2 h) = map_option fst (fs_fds fs1 h)"
      unfolding evolves_def by (meson order_less_le_trans)
    with True show ?thesis by auto
  next
    case False
    with assms n that show ?thesis unfolding evolves_def by (metis order_less_le_trans)
  qed
  from assms n show ?thesis
    unfolding evolves_def using fds by (auto simp: evolves_def intro: order_trans)
qed

lemma moved_ok: "fs_ok sha tmp R A fs0 fs \<Longrightarrow> moved h fs fs' \<Longrightarrow> fs_ok sha tmp R A fs0 fs' \<and> evolves {h} fs fs'"
proof -
  assume o: "fs_ok sha tmp R A fs0 fs" and m: "moved h fs fs'"
  have f: "map_option fst (fs_fds fs' g) = map_option fst (fs_fds fs g)" for g
    using m by (cases "g = h") (simp_all add: moved_def)
  have "g < fs_next fs \<and> i < fs_next fs" if g: "fs_fds fs' g = Some (i, p)" for g i p
  proof -
    from f [of g] g obtain q where "fs_fds fs g = Some (i, q)" by (cases "fs_fds fs g") auto
    then show ?thesis by (rule fs_ok_bounds(1) [OF o])
  qed
  with o m f show ?thesis by (auto simp: fs_ok_def evolves_def moved_def)
qed

lemma CheckChecksum_moved: "keeps (moved (f_fd f) fs0) (CheckChecksum sha f)"
  unfolding CheckChecksum_def ComputeChecksum_def by (intro keeping keeps_moved)

lemma StripChecksum_cases:
  assumes "StripChecksum tmp f fs = (r, fs')" and "tmp \<noteq> f_name f" and "f_fd f < fs_next fs"
    and "fs_fds fs (f_fd f) = Some (i, p)" and "i < fs_next fs" and "\<And>x. fs_fds fs (fs_next fs) \<noteq> Some x"
  shows "moved (f_fd f) fs fs' \<or> republished tmp (f_name f) fs (f_fd f) i fs'"
proof (cases "isClientFile f")
  case True
  let ?h = "f_fd f"
  obtain u fs1 where k: "os_SeekStart ?h 0 fs = (u, fs1)" by fastforce
  have m1: "moved ?h fs fs1" by (rule keepsD [OF keeps_moved(3) moved_refl(1) k])
  obtain v fs2 where c: "readChecksum ?h fs1 = (v, fs2)" by fastforce
  have m2: "moved ?h fs fs2" by (rule keepsD [OF readChecksum_moved m1 c])
  show ?thesis
  proof (cases "(\<exists>n. u = Ok n) \<and> (\<exists>cs. v = Ok cs)")
    case True
    then obtain n cs where ok: "u = Ok n" "v = Ok cs" by blast
    with k assms(4) have "fs_fds fs1 ?h = Some (i, 0)"
      unfolding os_SeekStart_def fs_defs step_defs Let_def by (auto split: option.splits)
    with c ok have p: "fs_fds fs2 ?h = Some (i, 37)" using readChecksum_headed by blast
    have "fs_next fs2 = fs_next fs" using m2 by (simp add: moved_def)
    with assms(3,5) have l: "?h < fs_next fs2" "i < fs_next fs2" by simp_all
    show ?thesis
      by (rule disjI2, rule publish_republished [OF assms(2) l m2 p assms(6)])
        (use assms(1) \<open>isClientFile f\<close> k c ok in \<open>simp_all add: StripChecksum_def bindM_def\<close>)
  next
    case False
    with assms(1) \<open>isClientFile f\<close> k c have "fs' = fs1 \<or> fs' = fs2"
      by (cases u; cases v) (auto simp: StripChecksum_def bindM_def)
    with m1 m2 show ?thesis by blast
  qed
qed (use assms(1) in \<open>simp add: StripChecksum_def failM_def\<close>)

lemma calls_ok: "fs_ok sha tmp R A fs0 (fs\<lparr>fs_calls := k\<rparr>) = fs_ok sha tmp R A fs0 fs"
    "evolves X fs (fs'\<lparr>fs_calls := k\<rparr>) = evolves X fs fs'"
  by (simp_all add: fs_ok_def evolves_def)

lemma Remove_held:
  assumes "ignoreM (File_Remove (Some f)) fs = (r, fs')" and o: "fs_ok sha tmp R A fs0 fs" and f: "held R A fs0 fs f"
  shows "fs_ok sha tmp R A fs0 fs' \<and> evolves X fs fs'"
proof -
  obtain u fs1 where c: "os_Close (f_fd f) fs = (u, fs1)" by fastforce
  have s: "shut fs fs1" by (rule keepsD [OF keeps_shut(3) moved_refl(2) c])
  have S: "fs_ok sha tmp R A fs0 fs1" "evolves X fs fs1"
    using quiet_ok [OF o quiet_shut [OF quiet_refl s]] evolves_mono [of "{}" fs fs1 X] by simp_all
  have n: "f_name f \<in> R" "\<not> foreign fs0 (f_name f)" using f by (simp_all add: held_def)
  let ?fs = "fs1\<lparr>fs_calls := Suc (fs_calls fs1)\<rparr>"
  have S': "fs_ok sha tmp R A fs0 ?fs" "evolves X fs1 ?fs" using S(1) by (simp_all add: calls_ok)
  obtain v fs2 where d: "os_Remove (f_name f) fs1 = (v, fs2)" by fastforce
  then have "fs2 = ?fs \<or> fs2 = ?fs\<lparr>fs_dir := (fs_dir ?fs)(f_name f := None)\<rparr>"
    unfolding os_Remove_def fs_defs step_defs Let_def by (auto split: option.splits)
  then have R: "fs_ok sha tmp R A fs0 fs2 \<and> evolves X fs1 fs2"
    using S' removed_ok [OF S'(1) n, of X] evolves_trans by metis
  have "fs' = fs1 \<or> fs' = fs2"
    using assms(1) c d by (cases u; cases v) (auto simp: File_Remove_def ignoreM_def bindM_def tryM_def mapErrM_def returnM_def)
  with S R evolves_trans show ?thesis by metis
qed

lemma CheckChecksum_true:
  assumes "CheckChecksum sha f fs = (Ok b, fs')"
  shows "\<exists>i p. fs_fds fs (f_fd f) = Some (i, p) \<and> (b \<longleftrightarrow> sha (drop 37 (fs_data fs i)) = f_checksum f)"
proof (cases "fs_fds fs (f_fd f)")
  case None
  with assms show ?thesis
    unfolding CheckChecksum_def os_SeekCurrent_def fs_defs step_defs Let_def by (auto split: if_splits option.splits)
next
  case (Some x)
  obtain i p where x: "x = (i, p)" by (cases x)
  with Some have "opened (fs_dir fs) (fs_data fs) (fs_next fs) (f_fd f) i anywhere fs" by (simp add: opened_def)
  from guardsD [OF guards_CheckChecksum this assms] show ?thesis using Some x by auto
qed

lemma completeFile_held:
  assumes "completeFile env f fs = (r, fs')" and o: "fs_ok (env_sha env) (env_tmp env) R A fs0 fs" and f: "held R A fs0 fs f"
    and t: "env_tmp env \<notin> R"
  shows "fs_ok (env_sha env) (env_tmp env) R A fs0 fs' \<and> evolves {f_fd f} fs fs'"
proof -
  let ?ok = "fs_ok (env_sha env) (env_tmp env) R A fs0"
  obtain u fs1 where c: "CheckChecksum (env_sha env) f fs = (u, fs1)" by fastforce
  have m: "moved (f_fd f) fs fs1" by (rule keepsD [OF CheckChecksum_moved moved_refl(1) c])
  note M = moved_ok [OF o m]
  have h1: "held R A fs0 fs1 f" using held_evolves [OF f conjunct2 [OF M]] fs_ok_bounds(1) [OF o] by blast
  note steps = bind_try [where m = "CheckChecksum (env_sha env) f", OF c, of "\<lambda>res. case res of Inr e \<Rightarrow> returnM () | Inl False \<Rightarrow> ignoreM (File_Remove (Some f))
       | Inl True \<Rightarrow> ignoreM (StripChecksum (env_tmp env) f)"]
  show ?thesis
  proof (cases u)
    case (Ok b)
    obtain i p where i: "fs_fds fs (f_fd f) = Some (i, p)" "b \<longleftrightarrow> env_sha env (drop 37 (fs_data fs i)) = f_checksum f"
      using CheckChecksum_true [OF c [unfolded Ok]] by blast
    show ?thesis
    proof (cases b)
      case False
      with assms(1) Ok steps have "ignoreM (File_Remove (Some f)) fs1 = (r, fs')" by (simp add: completeFile_def)
      with Remove_held [OF _ conjunct1 [OF M] h1] M evolves_trans show ?thesis by blast
    next
      case True
      with assms(1) Ok steps have s: "ignoreM (StripChecksum (env_tmp env) f) fs1 = (r, fs')" by (simp add: completeFile_def)
      obtain v fs2 where v: "StripChecksum (env_tmp env) f fs1 = (v, fs2)" by fastforce
      with s have e: "fs' = fs2" by (cases v) (auto simp: ignoreM_def bindM_def tryM_def returnM_def)
      have "map_option fst (fs_fds fs1 (f_fd f)) = Some i" using m i(1) by (simp add: moved_def)
      then obtain q where q: "fs_fds fs1 (f_fd f) = Some (i, q)" by auto
      note B = fs_ok_bounds(1) [OF conjunct1 [OF M]]
      have n: "env_tmp env \<noteq> f_name f" "f_name f \<in> R" "\<not> foreign fs0 (f_name f)" "f_checksum f \<in> A"
        using f t by (auto simp: held_def)
      have c': "env_sha env (drop 37 (fs_data fs1 i)) \<in> A" using True i(2) n(4) m by (simp add: moved_def)
      have N: "fs_fds fs1 (fs_next fs1) \<noteq> Some x" for x using B [of "fs_next fs1" "fst x" "snd x"] by auto
      from StripChecksum_cases [OF v n(1) conjunct1 [OF B [OF q]] q conjunct2 [OF B [OF q]] N]
      have "?ok fs2 \<and> evolves {f_fd f} fs1 fs2"
      proof
        assume "moved (f_fd f) fs1 fs2"
        with moved_ok M show ?thesis by blast
      next
        assume "republished (env_tmp env) (f_name f) fs1 (f_fd f) i fs2"
        from republished_ok [OF conjunct1 [OF M] this q n(2,3) t c'] show ?thesis .
      qed
      with e M evolves_trans show ?thesis by blast
    qed
  qed (use assms(1) M steps in \<open>auto simp: completeFile_def returnM_def\<close>)
qed

end
