(* ===== verification/Brft_Client_Runs.thy ===== *)
theory Brft_Client_Runs
  imports Brft_Client_Files
begin

text \<open>
  All runs of a client connection when the system may fail at any call: downloads, messages,
  steps of the streams and of the sender, metadata requests and closing, in any order. The
  invariant \<open>client_inv\<close> says of the directory what \<open>fs_ok\<close> says and of every stream which file it
  holds; \<open>S\<close> are the identifiers without a running goroutine.
\<close>

section \<open>The invariant\<close>

definition fine :: "byte list set \<Rightarrow> BRFTMessage \<Rightarrow> bool" where
  "fine A m \<longleftrightarrow> (\<forall>r. m = BFileResp r \<longrightarrow> fp_Checksum r \<in> A)"

definition client_inv :: "'b Env \<Rightarrow> gostring set \<Rightarrow> byte list set \<Rightarrow> FS \<Rightarrow> u16 set \<Rightarrow> BConn \<Rightarrow> bool" where
  "client_inv env R A fs0 S c \<longleftrightarrow> fs_ok (env_sha env) (env_tmp env) R A fs0 (c_fs c)
     \<and> (\<forall>sid. sid \<notin> S \<longrightarrow> s_fileName (c_streams c sid) \<in> R)
     \<and> (\<forall>sid f. s_f (c_streams c sid) = Some f \<longrightarrow> held R A fs0 (c_fs c) f \<and> (sid \<notin> S \<longrightarrow> beyond (c_fs c) f))
     \<and> (\<forall>sid sid' f f'. sid \<noteq> sid' \<longrightarrow> s_f (c_streams c sid) = Some f \<longrightarrow> s_f (c_streams c sid') = Some f' \<longrightarrow> f_fd f \<noteq> f_fd f')
     \<and> (\<forall>sid. \<forall>m \<in> set (s_in (c_streams c sid)). fine A m)"

lemma client_inv_mono: "client_inv env R A fs0 S c \<Longrightarrow> S \<subseteq> S' \<Longrightarrow> client_inv env R A fs0 S' c"
  unfolding client_inv_def by blast

text \<open>A call on the files: streams whose position it may move have stopped or are still behind the header.\<close>

lemma client_inv_fs:
  assumes I: "client_inv env R A fs0 S c" and ok: "fs_ok (env_sha env) (env_tmp env) R A fs0 fs" and e: "evolves X (c_fs c) fs"
    and "S \<subseteq> S'" and X: "\<And>sid f. s_f (c_streams c sid) = Some f \<Longrightarrow> f_fd f \<in> X \<Longrightarrow> sid \<in> S' \<or> beyond fs f"
  shows "client_inv env R A fs0 S' (c\<lparr>c_fs := fs\<rparr>)"
proof -
  have o: "fs_ok (env_sha env) (env_tmp env) R A fs0 (c_fs c)" using I by (simp add: client_inv_def)
  have h: "held R A fs0 fs f \<and> (sid \<notin> S' \<longrightarrow> beyond fs f)" if s: "s_f (c_streams c sid) = Some f" for sid f
  proof -
    have H: "held R A fs0 (c_fs c) f" "sid \<notin> S \<Longrightarrow> beyond (c_fs c) f" using I s unfolding client_inv_def by blast+
    have l: "f_fd f < fs_next (c_fs c)" using H(1) by (simp add: held_def)
    have "held R A fs0 fs f" using held_evolves [OF H(1) e] fs_ok_bounds(1) [OF o] by blast
    moreover have "beyond fs f" if "sid \<notin> S'"
      using X [OF s] that assms(4) H(2) beyond_evolves [OF _ e l] by blast
    ultimately show ?thesis by blast
  qed
  show ?thesis
    unfolding client_inv_def using I ok assms(4) h by (simp add: client_inv_def) blast
qed

interpretation cli: step_invariant env "client_inv env R A fs0 S" shut "fine A"
proof unfold_locales
  fix c fs assume I: "client_inv env R A fs0 S c" and s: "shut (c_fs c) fs"
  have "fs_ok (env_sha env) (env_tmp env) R A fs0 (c_fs c)" using I by (simp add: client_inv_def)
  note K = quiet_ok [OF this quiet_shut [OF quiet_refl s]]
  show "client_inv env R A fs0 S (c\<lparr>c_fs := fs\<rparr>)"
    by (rule client_inv_fs [OF I conjunct1 [OF K] conjunct2 [OF K]]) auto
next
  fix fs0 f show "keeps (shut fs0) (File_Close f)"
    unfolding File_Close_def by (cases f) (simp_all add: keeping keeps_shut)
next
  fix c and s :: BStream and sid assume "client_inv env R A fs0 S c" "s_f s = s_f (c_streams c sid)" "s_fileName s = s_fileName (c_streams c sid)"
    "\<forall>m \<in> set (s_in s). m \<in> set (s_in (c_streams c sid)) \<or> fine A m"
  then show "client_inv env R A fs0 S (c\<lparr>c_streams := (c_streams c)(sid := s)\<rparr>)"
    unfolding client_inv_def by simp metis
qed (simp_all add: client_inv_def)

section \<open>Steps of a stream\<close>

lemma guards_getM: "(\<And>s. guards (\<lambda>c. P c \<and> s = g c) (k s) Q E) \<Longrightarrow> guards P (bindM (getM g) k) Q E"
  by (fastforce simp: guards_def bindM_def getM_def)

text \<open>The step of a reading stream on its file; \<open>S'\<close> are those that may not go on after it.\<close>

lemma guards_held_file:
  assumes "\<And>f. guards (\<lambda>c. client_inv env R A fs0 S c \<and> s_f (c_streams c sid) = Some f) (k f) (\<lambda>_. I) I"
    and "\<And>c. client_inv env R A fs0 S c \<Longrightarrow> I c"
  shows "guards (client_inv env R A fs0 S) (withFile sid k) (\<lambda>_. I) I"
proof (rule guardsI)
  fix c x c' assume c: "client_inv env R A fs0 S c" "withFile sid k c = (x, c')"
  show "case x of Ok v \<Rightarrow> I c' | _ \<Rightarrow> I c'"
  proof (cases "s_f (c_streams c sid)")
    case None
    with c assms(2) show ?thesis by (auto simp: withFile_def bindM_def getM_def panicM_def)
  next
    case (Some f)
    with c(2) have "k f c = (x, c')" by (simp add: withFile_def bindM_def getM_def)
    from guardsD [OF assms(1) _ this] c(1) Some show ?thesis by blast
  qed
qed

lemma same_descriptor:
  assumes "client_inv env R A fs0 S c" and "s_f (c_streams c sid) = Some f" and "s_f (c_streams c sid') = Some f'"
    and "f_fd f' = f_fd f"
  shows "sid' = sid \<and> f' = f"
  using assms unfolding client_inv_def by (metis option.inject)

lemma guards_held_call:
  assumes "\<And>fs x fs'. m fs = (x, fs') \<Longrightarrow> fs_ok (env_sha env) (env_tmp env) R A fs0 fs \<Longrightarrow> held R A fs0 fs f \<Longrightarrow>
      (sid \<notin> S \<longrightarrow> beyond fs f) \<Longrightarrow>
      fs_ok (env_sha env) (env_tmp env) R A fs0 fs' \<and> evolves {f_fd f} fs fs' \<and> (sid \<in> S' \<or> beyond fs' f)"
    and "S \<subseteq> S'"
  shows "guards (\<lambda>c. client_inv env R A fs0 S c \<and> s_f (c_streams c sid) = Some f) (fsM m)
    (\<lambda>_. client_inv env R A fs0 S') (client_inv env R A fs0 S')"
proof (rule guardsI)
  fix c x c' assume c: "client_inv env R A fs0 S c \<and> s_f (c_streams c sid) = Some f" and r: "fsM m c = (x, c')"
  obtain fs where fs: "m (c_fs c) = (x, fs)" "c' = c\<lparr>c_fs := fs\<rparr>" using r by (auto simp: run_fs split: prod.splits)
  from c have "fs_ok (env_sha env) (env_tmp env) R A fs0 (c_fs c)" "held R A fs0 (c_fs c) f" "sid \<notin> S \<longrightarrow> beyond (c_fs c) f"
    unfolding client_inv_def by blast+
  from assms(1) [OF fs(1) this] have F: "fs_ok (env_sha env) (env_tmp env) R A fs0 fs" "evolves {f_fd f} (c_fs c) fs"
      "sid \<in> S' \<or> beyond fs f" by blast+
  have "client_inv env R A fs0 S' c'"
    unfolding fs(2) using c F same_descriptor [of env R A fs0 S c sid f]
    by (intro client_inv_fs [OF _ F(1,2) assms(2)]) auto
  then show "case x of Ok v \<Rightarrow> client_inv env R A fs0 S' c' | _ \<Rightarrow> client_inv env R A fs0 S' c'" by (cases x) simp_all
qed

lemma guards_keeps: "keeps I m \<Longrightarrow> guards I m (\<lambda>_. I) I"
  by (simp add: keeps_def)

lemma keeps_storeChunk:
  assumes "announced (env_sha env) A" and "sid \<notin> S"
  shows "keeps (client_inv env R A fs0 S) (storeChunk env pk sid l bs)"
  unfolding keeps_def storeChunk_def
proof (rule guards_held_file)
  fix f
  let ?I = "client_inv env R A fs0 S"
  have W: "guards (\<lambda>c. ?I c \<and> s_f (c_streams c sid) = Some f) (tryM (fsM (File_Write f bs))) (\<lambda>_. ?I) ?I"
    by (rule guards_try, rule guards_weaken [OF guards_held_call [where S' = S]])
      (use assms in \<open>auto dest: File_Write_held [OF _ _ assms(1)]\<close>)
  show "guards (\<lambda>c. ?I c \<and> s_f (c_streams c sid) = Some f) (bindM (tryM (fsM (File_Write f bs))) (\<lambda>res. case res of
       Inr e \<Rightarrow> finish env (pk 2) sid True CloseReasonUndefined
     | Inl n \<Rightarrow> if n \<noteq> length bs then finish env (pk 2) sid True CloseReasonUndefined
        else updateProgress sid l (length bs))) (\<lambda>_. ?I) ?I"
    by (rule guards_bind [OF W], rule guards_keeps) (intro cli.kept_ops)
qed

lemma keeps_clientData:
  assumes "announced (env_sha env) A" and "sid \<notin> S"
  shows "keeps (client_inv env R A fs0 S) (clientData env pk sid d)"
  unfolding clientData_def by (intro cli.kept_ops keeps_storeChunk assms)

text \<open>A step of the reading loop: the file may be completed only when the stream ends with it.\<close>

lemma clientRead_inv:
  assumes "announced (env_sha env) A" and "sid \<notin> S" and "env_tmp env \<notin> R"
  shows "guards (client_inv env R A fs0 S) (clientRead env pk sid)
    (\<lambda>_ c. client_inv env R A fs0 S c \<or> client_inv env R A fs0 (insert sid S) c \<and> s_pc (c_streams c sid) = Returned)
    (client_inv env R A fs0 (insert sid S))"
proof -
  let ?I = "client_inv env R A fs0 S" and ?J = "client_inv env R A fs0 (insert sid S)"
  let ?Q = "\<lambda>_ c. ?I c \<or> ?J c \<and> s_pc (c_streams c sid) = Returned"
  have IJ: "?I c \<Longrightarrow> ?J c" for c by (rule client_inv_mono) auto
  have kept: "guards ?I m ?Q ?J" if "keeps ?I m" for m :: "(BConn, unit) parser"
    using guards_keeps [OF that] by (rule guards_weaken) (auto intro: IJ)
  have complete: "guards ?I (withFile sid (\<lambda>f. fsM (completeFile env f))) (\<lambda>_. ?J) ?J"
    by (rule guards_held_file, rule guards_held_call) (use assms IJ in \<open>auto dest: completeFile_held\<close>)
  have ret: "finish env b sid z r c = (Ok v, c') \<Longrightarrow> s_pc (c_streams c' sid) = Returned" for b z r c v c'
    by (auto simp: finish_def bindM_def updS_def modifyM_def split: prod.splits outcome.splits)
  have fin: "guards ?J (finish env b sid z r) ?Q ?J" for b z r
  proof (rule guardsI)
    fix c x c' assume c: "?J c" "finish env b sid z r c = (x, c')"
    have "?J c'" by (rule keepsD [OF cli.fin c])
    with ret c(2) show "case x of Ok v \<Rightarrow> ?Q v c' | _ \<Rightarrow> ?J c'" by (cases x) auto
  qed
  have close: "guards ?I (thenM (whenM b (withFile sid (\<lambda>f. fsM (completeFile env f)))) (finish env p sid False 0)) ?Q ?J" for b p
    by (rule guards_bind [where R = "\<lambda>_. ?J"], rule guards_when [OF complete], rule IJ, assumption, rule fin)
  have recv: "guards ?I (recvIn (pk 0) sid) (\<lambda>_. ?I) ?J"
    by (rule guards_weaken [OF guards_keeps [where I = ?I, OF cli.basic(2)]]) (auto intro: IJ)
  show ?thesis
    unfolding clientRead_def
    by (rule guards_bind [OF recv]) (auto intro!: close kept cli.fin cli.closing keeps_clientData assms split: option.split BRFTMessage.split)
qed

text \<open>The answer of the server: the file is opened or created, with an announced checksum.\<close>

lemma NewFile_stream:
  assumes "announced (env_sha env) A" and "honest fs0" and "env_tmp env \<notin> R" and "cs \<in> A" and "name \<in> R" and "sid \<notin> S"
  shows "guards (client_inv env R A fs0 S) (tryM (fsM (NewFile name (Some cs))))
    (\<lambda>res c. client_inv env R A fs0 S c \<and> (\<forall>f. res = Inl f \<longrightarrow>
       client_inv env R A fs0 S (c\<lparr>c_streams := (c_streams c)(sid := (c_streams c sid)\<lparr>s_f := Some f, s_totalSize := n\<rparr>)\<rparr>)))
    (client_inv env R A fs0 S)"
proof (rule guards_try, rule guardsI)
  fix c x c' assume I: "client_inv env R A fs0 S c" and r: "fsM (NewFile name (Some cs)) c = (x, c')"
  obtain fs where fs: "NewFile name (Some cs) (c_fs c) = (x, fs)" "c' = c\<lparr>c_fs := fs\<rparr>" using r by (auto simp: run_fs split: prod.splits)
  have o: "fs_ok (env_sha env) (env_tmp env) R A fs0 (c_fs c)" using I by (simp add: client_inv_def)
  have "name \<noteq> env_tmp env" using assms(3,5) by auto
  from NewFile_held [OF fs(1) o assms(1,2,5) this assms(4)]
  have F: "fs_ok (env_sha env) (env_tmp env) R A fs0 fs" "evolves {} (c_fs c) fs"
    "\<And>f. x = Ok f \<Longrightarrow> held R A fs0 fs f \<and> beyond fs f \<and> fs_next (c_fs c) \<le> f_fd f" by blast+
  have J: "client_inv env R A fs0 S c'"
    unfolding fs(2) by (rule client_inv_fs [OF I F(1,2)]) auto
  have "client_inv env R A fs0 S (c'\<lparr>c_streams := (c_streams c')(sid := (c_streams c' sid)\<lparr>s_f := Some f, s_totalSize := n\<rparr>)\<rparr>)"
    if x: "x = Ok f" for f
  proof -
    have new: "f_fd g \<noteq> f_fd f" if g: "s_f (c_streams c sid') = Some g" for sid' g
    proof -
      have "held R A fs0 (c_fs c) g" using I g unfolding client_inv_def by blast
      with F(3) [OF x] show ?thesis by (auto simp: held_def)
    qed
    show ?thesis
      unfolding client_inv_def
    proof (intro conjI allI impI ballI)
      fix sid1 sid2 f1 f2
      assume "sid1 \<noteq> sid2"
        "s_f (c_streams (c'\<lparr>c_streams := (c_streams c')(sid := (c_streams c' sid)\<lparr>s_f := Some f, s_totalSize := n\<rparr>)\<rparr>) sid1) = Some f1"
        "s_f (c_streams (c'\<lparr>c_streams := (c_streams c')(sid := (c_streams c' sid)\<lparr>s_f := Some f, s_totalSize := n\<rparr>)\<rparr>) sid2) = Some f2"
      then show "f_fd f1 \<noteq> f_fd f2"
        using new [of sid1 f1] new [of sid2 f2] same_descriptor [OF I, of sid1 f1 sid2 f2] fs(2) by (auto split: if_splits)
    qed (use J F(3) [OF x] fs(2) in \<open>auto simp: client_inv_def split: if_splits\<close>)
  qed
  with J show "case x of Ok v \<Rightarrow> client_inv env R A fs0 S c' \<and> (\<forall>f. Inl v = Inl f \<longrightarrow>
       client_inv env R A fs0 S (c'\<lparr>c_streams := (c_streams c')(sid := (c_streams c' sid)\<lparr>s_f := Some f, s_totalSize := n\<rparr>)\<rparr>))
     | _ \<Rightarrow> (\<forall>e. client_inv env R A fs0 S c' \<and> (\<forall>f. Inr e = Inl f \<longrightarrow>
       client_inv env R A fs0 S (c'\<lparr>c_streams := (c_streams c')(sid := (c_streams c' sid)\<lparr>s_f := Some f, s_totalSize := n\<rparr>)\<rparr>)))
       \<and> client_inv env R A fs0 S c'"
    by (cases x) simp_all
qed

lemma keeps_clientAccept:
  assumes "announced (env_sha env) A" and "honest fs0" and "env_tmp env \<notin> R" and "sid \<notin> S" and "fp_Checksum resp \<in> A"
  shows "keeps (client_inv env R A fs0 S) (clientAccept env pk sid resp)"
  unfolding keeps_def clientAccept_def
proof (rule guards_getM)
  fix s
  let ?I = "client_inv env R A fs0 S"
  show "guards (\<lambda>c. ?I c \<and> s = c_streams c sid) (bindM (tryM (fsM (NewFile (s_fileName s) (Some (fp_Checksum resp))))) (\<lambda>res. case res of
       Inr e \<Rightarrow> finish env (pk 2) sid True CloseReasonUndefined
     | Inl f \<Rightarrow>
        thenM (updS sid (\<lambda>s. s\<lparr>s_f := Some f, s_totalSize := fp_FileSize resp\<rparr>))
        (bindM (tryM (liftO (StartTransmission_Encode (env_cb env)
            \<lparr>st_StreamID = fp_StreamID resp, st_Checksum = fp_Checksum resp,
             st_Offset = (if s_isResumption s then s_offset s else 0)\<rparr>))) (\<lambda>res. case res of
           Inr e \<Rightarrow> finish env (pk 2) sid True CloseReasonUndefined
         | Inl data \<Rightarrow> bindM (selectCtrl (pk 1) data) (\<lambda>sent.
             if \<not> sent then finish env (pk 2) sid False 0
             else thenM (modifyM (\<lambda>c. c\<lparr>c_conn := SetReadTimeout (activeStreamTimeout (c_options c)) (c_conn c)\<rparr>))
               (updS sid (\<lambda>s. s\<lparr>s_pc := CReading\<rparr>))))))) (\<lambda>_. ?I) ?I"
  proof (cases "s_fileName s \<in> R")
    case True
    have rest: "keeps ?I (bindM (tryM (liftO start)) (\<lambda>res. case res of
           Inr e \<Rightarrow> finish env (pk 2) sid True CloseReasonUndefined
         | Inl data \<Rightarrow> bindM (selectCtrl (pk 1) data) (\<lambda>sent.
             if \<not> sent then finish env (pk 2) sid False 0
             else thenM (modifyM (\<lambda>c. c\<lparr>c_conn := SetReadTimeout (activeStreamTimeout (c_options c)) (c_conn c)\<rparr>))
               (updS sid (\<lambda>s. s\<lparr>s_pc := CReading\<rparr>)))))" for start
      by (intro cli.kept_ops; simp)
    show ?thesis
    proof (rule guards_bind [OF guards_pre [OF NewFile_stream [OF assms(1,2,3,5) True assms(4), where n = "fp_FileSize resp"]]])
      fix res :: "File + go_error"
      let ?P = "\<lambda>c. ?I c \<and> (\<forall>f. res = Inl f \<longrightarrow>
        ?I (c\<lparr>c_streams := (c_streams c)(sid := (c_streams c sid)\<lparr>s_f := Some f, s_totalSize := fp_FileSize resp\<rparr>)\<rparr>))"
      have "guards ?P (finish env (pk 2) sid True CloseReasonUndefined) (\<lambda>_. ?I) ?I"
        by (rule guards_pre [OF guards_keeps [where I = ?I, OF cli.fin]]) simp
      moreover have upd: "guards ?P (updS sid (\<lambda>s. s\<lparr>s_f := Some f, s_totalSize := fp_FileSize resp\<rparr>)) (\<lambda>_. ?I) ?I" if "res = Inl f" for f
        unfolding updS_def by (rule guards_modify) (simp add: that)
      ultimately show "guards ?P (case res of
           Inr e \<Rightarrow> finish env (pk 2) sid True CloseReasonUndefined
         | Inl f \<Rightarrow>
            thenM (updS sid (\<lambda>s. s\<lparr>s_f := Some f, s_totalSize := fp_FileSize resp\<rparr>))
            (bindM (tryM (liftO (StartTransmission_Encode (env_cb env)
                \<lparr>st_StreamID = fp_StreamID resp, st_Checksum = fp_Checksum resp,
                 st_Offset = (if s_isResumption s then s_offset s else 0)\<rparr>))) (\<lambda>res. case res of
               Inr e \<Rightarrow> finish env (pk 2) sid True CloseReasonUndefined
             | Inl data \<Rightarrow> bindM (selectCtrl (pk 1) data) (\<lambda>sent.
                 if \<not> sent then finish env (pk 2) sid False 0
                 else thenM (modifyM (\<lambda>c. c\<lparr>c_conn := SetReadTimeout (activeStreamTimeout (c_options c)) (c_conn c)\<rparr>))
                   (updS sid (\<lambda>s. s\<lparr>s_pc := CReading\<rparr>)))))) (\<lambda>_. ?I) ?I"
      proof (cases res)
        case (Inl f)
        from guards_bind [OF upd [OF Inl] guards_keeps [OF rest]] show ?thesis unfolding Inl sum.case .
      qed simp
    qed simp
  next
    case False
    with assms(4) have "\<not> (?I c \<and> s = c_streams c sid)" for c by (auto simp: client_inv_def)
    then show ?thesis by (auto simp: guards_def)
  qed
qed

lemma recv_fine:
  "guards (client_inv env R A fs0 S) (recvIn b sid) (\<lambda>msg c. client_inv env R A fs0 S c \<and> (\<forall>m. msg = Some (Some m) \<longrightarrow> fine A m))
    (client_inv env R A fs0 S)"
proof (rule guardsI)
  fix c x c' assume I: "client_inv env R A fs0 S c" and r: "recvIn b sid c = (x, c')"
  have "client_inv env R A fs0 S c'" by (rule keepsD [OF cli.basic(2) I r])
  moreover have "fine A m" if "x = Ok (Some (Some m))" for m
  proof -
    have "m \<in> set (s_in (c_streams c sid))"
      using r that by (auto simp: recvIn_def Let_def split: if_splits list.splits)
    with I show ?thesis unfolding client_inv_def by blast
  qed
  ultimately show "case x of Ok v \<Rightarrow> client_inv env R A fs0 S c' \<and> (\<forall>m. v = Some (Some m) \<longrightarrow> fine A m) | _ \<Rightarrow> client_inv env R A fs0 S c'"
    by (cases x) simp_all
qed

lemma keeps_clientResp:
  assumes "announced (env_sha env) A" and "honest fs0" and "env_tmp env \<notin> R" and "sid \<notin> S"
  shows "keeps (client_inv env R A fs0 S) (clientResp env pk sid)"
  unfolding keeps_def clientResp_def
proof (rule guards_bind [OF recv_fine])
  fix msg
  let ?I = "client_inv env R A fs0 S"
  have wrong: "keeps ?I (withFile sid (\<lambda>f. finish env (pk 2) sid True CloseReasonChecksumInvalid))"
    unfolding withFile_def by (intro cli.kept_ops)
  have answer: "keeps ?I (bindM (getS sid) (\<lambda>s.
         if s_requestedChecksum s \<noteq> zeroChecksum \<and> s_requestedChecksum s \<noteq> fp_Checksum resp
         then withFile sid (\<lambda>f. finish env (pk 2) sid True CloseReasonChecksumInvalid)
         else case acceptHeaders (fp_OptHeaders resp) (s_comp s) of
             Inr reason \<Rightarrow> finish env (pk 2) sid True reason
           | Inl z \<Rightarrow> thenM (updS sid (\<lambda>s. s\<lparr>s_comp := z\<rparr>)) (clientAccept env pk sid resp)))"
    if "fp_Checksum resp \<in> A" for resp
    by (intro cli.kept_ops wrong keeps_clientAccept assms that; simp)
  have fin: "keeps ?I (finish env (pk 2) sid z r)" for z r by (rule cli.fin)
  show "guards (\<lambda>c. ?I c \<and> (\<forall>m. msg = Some (Some m) \<longrightarrow> fine A m)) (case msg of
       None \<Rightarrow> finish env (pk 2) sid False 0
     | Some (Some (BFileResp resp)) \<Rightarrow> bindM (getS sid) (\<lambda>s.
         if s_requestedChecksum s \<noteq> zeroChecksum \<and> s_requestedChecksum s \<noteq> fp_Checksum resp
         then withFile sid (\<lambda>f. finish env (pk 2) sid True CloseReasonChecksumInvalid)
         else case acceptHeaders (fp_OptHeaders resp) (s_comp s) of
             Inr reason \<Rightarrow> finish env (pk 2) sid True reason
           | Inl z \<Rightarrow> thenM (updS sid (\<lambda>s. s\<lparr>s_comp := z\<rparr>)) (clientAccept env pk sid resp))
     | Some (Some (BCloseMsg v)) \<Rightarrow> finish env (pk 2) sid False 0
     | Some _ \<Rightarrow> finish env (pk 2) sid True CloseReasonUndefined) (\<lambda>_. ?I) ?I"
  proof (cases "\<exists>resp. msg = Some (Some (BFileResp resp))")
    case True
    then obtain resp where m: "msg = Some (Some (BFileResp resp))" by blast
    show ?thesis
    proof (cases "fp_Checksum resp \<in> A")
      case True
      have "guards (\<lambda>c. ?I c \<and> (\<forall>m'. msg = Some (Some m') \<longrightarrow> fine A m')) (bindM (getS sid) (\<lambda>s.
         if s_requestedChecksum s \<noteq> zeroChecksum \<and> s_requestedChecksum s \<noteq> fp_Checksum resp
         then withFile sid (\<lambda>f. finish env (pk 2) sid True CloseReasonChecksumInvalid)
         else case acceptHeaders (fp_OptHeaders resp) (s_comp s) of
             Inr reason \<Rightarrow> finish env (pk 2) sid True reason
           | Inl z \<Rightarrow> thenM (updS sid (\<lambda>s. s\<lparr>s_comp := z\<rparr>)) (clientAccept env pk sid resp))) (\<lambda>_. ?I) ?I"
        by (rule guards_pre [OF guards_keeps [OF answer [OF True]]]) blast
      then show ?thesis by (simp add: m)
    qed (simp add: m fine_def guards_def)
  next
    case False
    then show ?thesis
      by (auto intro!: guards_pre [OF guards_keeps [OF fin]] split: option.split BRFTMessage.split)
  qed
qed

lemma clientStep_inv:
  assumes "announced (env_sha env) A" and "honest fs0" and "env_tmp env \<notin> R" and "sid \<notin> S"
  shows "guards (client_inv env R A fs0 S) (clientStep env pk sid)
    (\<lambda>_ c. client_inv env R A fs0 S c \<or> client_inv env R A fs0 (insert sid S) c \<and> s_pc (c_streams c sid) = Returned)
    (client_inv env R A fs0 (insert sid S))"
proof -
  have kept: "guards (client_inv env R A fs0 S) m
      (\<lambda>_ c. client_inv env R A fs0 S c \<or> client_inv env R A fs0 (insert sid S) c \<and> s_pc (c_streams c sid) = Returned)
      (client_inv env R A fs0 (insert sid S))" if "keeps (client_inv env R A fs0 S) m" for m :: "(BConn, unit) parser"
    using guards_keeps [OF that] by (rule guards_weaken) (auto intro: client_inv_mono)
  show ?thesis
    unfolding clientStep_def
  proof (rule guards_getM, rule guards_pre [where P = "client_inv env R A fs0 S"])
    fix s
    show "guards (client_inv env R A fs0 S) (case s_pc s of CAwaitResp \<Rightarrow> clientResp env pk sid
         | CReading \<Rightarrow> clientRead env pk sid | _ \<Rightarrow> returnM ())
      (\<lambda>_ c. client_inv env R A fs0 S c \<or> client_inv env R A fs0 (insert sid S) c \<and> s_pc (c_streams c sid) = Returned)
      (client_inv env R A fs0 (insert sid S))"
      using kept [OF keeps_clientResp [OF assms]] clientRead_inv [OF assms(1,4,3)] kept [OF keeps_basic(1)]
      by (cases "s_pc s") auto
  qed simp
qed

section \<open>Downloads, messages and the other operations\<close>

lemma keeps_quiet: "(\<And>fs1. keeps (quiet fs1) m) \<Longrightarrow> keeps (client_inv env R A fs0 S) (fsM m)"
proof (rule keepsI)
  fix c x c' assume m: "\<And>fs1. keeps (quiet fs1) m" and I: "client_inv env R A fs0 S c" and r: "fsM m c = (x, c')"
  obtain fs where fs: "m (c_fs c) = (x, fs)" "c' = c\<lparr>c_fs := fs\<rparr>" using r by (auto simp: run_fs split: prod.splits)
  have "fs_ok (env_sha env) (env_tmp env) R A fs0 (c_fs c)" using I by (simp add: client_inv_def)
  note K = quiet_ok [OF this keepsD [OF m quiet_refl fs(1)]]
  show "client_inv env R A fs0 S c'"
    unfolding fs(2) by (rule client_inv_fs [OF I conjunct1 [OF K] conjunct2 [OF K]]) auto
qed

lemma resume_quiet: "keeps (quiet fs0) (resume req s f)"
  unfolding resume_def File_Size_def File_Close_def Let_def
  by (intro keeping keeps_quietS [OF keeps_shut(3)] keeps_quietS [OF keeps_shut(4)])

lemma findPrevious_quiet: "keeps (quiet fs0) (findPrevious name req s)"
  unfolding findPrevious_def by (intro keeping NewFile_quiet resume_quiet)

lemma findPrevious_stream:
  assumes "findPrevious name req s fs = (Ok (req', s'), fs')"
  shows "s_f s' = s_f s \<and> s_fileName s' = s_fileName s \<and> s_in s' = s_in s"
  using assms unfolding findPrevious_def resume_def
  by (auto simp: bindM_def tryM_def failM_def returnM_def ignoreM_def split: prod.splits outcome.splits sum.splits if_splits)

text \<open>A download: the goroutine of its stream starts when the request could be sent.\<close>

definition sendRequest :: "'b Env \<Rightarrow> bool \<Rightarrow> u16 \<Rightarrow> FileReq \<times> BStream \<Rightarrow> (BConn, DownloadInfo) parser" where
  "sendRequest env pick sid p = (case p of (req, s) \<Rightarrow>
     bindM (mapErrM (\<lambda>e. Errorf ''unable to encode FileRequest'' (Some e)) (liftO (FileReq_Encode (env_cb env) req))) (\<lambda>data.
     bindM (selectCtrl pick data) (\<lambda>sent.
       if \<not> sent then failM (New ''channel closed before MetaDataRequest finished'')
       else thenM (spawn sid s) (returnM \<lparr>StartOffset = s_offset s, di_Checksum = s_requestedChecksum s\<rparr>))))"

definition fresh :: "gostring \<Rightarrow> FileReq \<times> BStream \<Rightarrow> bool" where
  "fresh name p \<longleftrightarrow> s_f (snd p) = None \<and> s_fileName (snd p) = name \<and> s_in (snd p) = []"

lemma sendRequest_inv:
  assumes "name \<in> R" and "fresh name p"
  shows "guards (client_inv env R A fs0 S) (sendRequest env pick sid p)
    (\<lambda>_. client_inv env R A fs0 (S - {sid})) (client_inv env R A fs0 S)"
proof -
  obtain req s where p: "p = (req, s)" by fastforce
  have start: "guards (client_inv env R A fs0 S) (thenM (spawn sid s) (returnM info))
      (\<lambda>_. client_inv env R A fs0 (S - {sid})) (client_inv env R A fs0 S)" for info :: DownloadInfo
    using assms p by (auto simp: guards_def spawn_def client_inv_def bindM_def modifyM_def returnM_def fresh_def split: if_splits)
  show ?thesis
    unfolding sendRequest_def p prod.case
    by (rule guards_bind [OF guards_keeps], intro keeping, rule guards_bind [OF guards_keeps], rule cli.basic)
      (auto intro: start guards_fail)
qed

lemma findPrevious_fresh:
  "guards (client_inv env R A fs0 S) (fsM (findPrevious name req (newClientStream name cs)))
    (\<lambda>found c. client_inv env R A fs0 S c \<and> fresh name found) (client_inv env R A fs0 S)"
proof (rule guardsI)
  fix c x c' assume I: "client_inv env R A fs0 S c" and r: "fsM (findPrevious name req (newClientStream name cs)) c = (x, c')"
  have "client_inv env R A fs0 S c'" by (rule keepsD [OF keeps_quiet [OF findPrevious_quiet] I r])
  moreover have "fresh name v" if "x = Ok v" for v
  proof -
    have "findPrevious name req (newClientStream name cs) (c_fs c) = (Ok (fst v, snd v), c_fs c')"
      using r that by (auto simp: run_fs split: prod.splits)
    from findPrevious_stream [OF this] show ?thesis by (simp add: newClientStream_def fresh_def)
  qed
  ultimately show "case x of Ok v \<Rightarrow> client_inv env R A fs0 S c' \<and> fresh name v | _ \<Rightarrow> client_inv env R A fs0 S c'"
    by (cases x) simp_all
qed

lemma fresh_compression: "fresh name found \<Longrightarrow> fresh name (requestCompression opts found)"
  by (auto simp: fresh_def requestCompression_def Let_def split: prod.splits option.splits)

lemma DownloadFile_inv:
  assumes "name \<in> R"
  shows "guards (client_inv env R A fs0 S) (DownloadFile env pick sid name checksum)
    (\<lambda>_. client_inv env R A fs0 (S - {sid})) (client_inv env R A fs0 S)"
proof -
  let ?I = "client_inv env R A fs0 S"
  have request: "guards (\<lambda>c. ?I c \<and> fresh name found) (sendRequest env pick sid (requestCompression opts found))
      (\<lambda>_. client_inv env R A fs0 (S - {sid})) ?I" for found opts
  proof (cases "fresh name found")
    case True
    show ?thesis by (rule guards_pre [OF sendRequest_inv [OF assms fresh_compression [OF True]]]) simp
  qed (simp add: guards_def)
  have find: "guards ?I (bindM (fsM (findPrevious name req (newClientStream name cs)))
      (\<lambda>found. sendRequest env pick sid (requestCompression opts found))) (\<lambda>_. client_inv env R A fs0 (S - {sid})) ?I" for req cs opts
    by (rule guards_bind [OF findPrevious_fresh request])
  show ?thesis
    unfolding DownloadFile_def Let_def
    by (rule guards_getM, rule guards_pre [where P = ?I])
      (auto intro!: guards_fail find [unfolded sendRequest_def] simp: Let_def)
qed

lemma keeps_forStream: "fine A m \<Longrightarrow> keeps (client_inv env R A fs0 S) (forStream env pick sid m)"
  unfolding forStream_def by (intro cli.kept_ops cli.push)

lemma keeps_onMetaResp: "keeps (client_inv env R A fs0 S) (onMetaResp m)"
  by (auto simp: keeps_alt onMetaResp_def client_inv_def split: if_splits list.splits)

lemma keeps_clientDispatch: "fine A m \<Longrightarrow> keeps (client_inv env R A fs0 S) (clientDispatch env pick m)"
  unfolding clientDispatch_def onClosePacket_def closeConn_def
  by (cases m; simp) (intro cli.kept_ops cli.push keeps_forStream keeps_onMetaResp; simp add: fine_def)+

lemma keeps_ListFileMetaData: "keeps (client_inv env R A fs0 S) (ListFileMetaData env pick ref fileName)"
  unfolding ListFileMetaData_def
  by (intro cli.kept_ops keeps_modify) (simp_all add: client_inv_def)

section \<open>All runs\<close>

text \<open>
  A client connection over time: downloads of names in \<open>R\<close>, under an identifier no goroutine uses,
  messages whose checksums are in \<open>A\<close>, steps of the streams and of the sender, metadata requests,
  and closing, in any order. A goroutine whose step panicked or returned an error takes no more
  steps; one that waits for a message has no effect, so that a run goes on without its step.
\<close>

inductive client_run :: "'b Env \<Rightarrow> gostring set \<Rightarrow> byte list set \<Rightarrow> BConn \<Rightarrow> u16 set \<Rightarrow> BConn \<Rightarrow> bool" for env R A c0 where
  client_start: "client_run env R A c0 UNIV c0"
| client_download: "client_run env R A c0 S c \<Longrightarrow> sid \<in> S \<Longrightarrow> name \<in> R \<Longrightarrow>
    DownloadFile env pick sid name checksum c = (Ok info, c') \<Longrightarrow> client_run env R A c0 (S - {sid}) c'"
| client_refused: "client_run env R A c0 S c \<Longrightarrow> sid \<in> S \<Longrightarrow> name \<in> R \<Longrightarrow>
    DownloadFile env pick sid name checksum c = (r, c') \<Longrightarrow> (\<And>info. r \<noteq> Ok info) \<Longrightarrow> client_run env R A c0 S c'"
| client_message: "client_run env R A c0 S c \<Longrightarrow> fine A m \<Longrightarrow> clientDispatch env pick m c = (r', c') \<Longrightarrow> client_run env R A c0 S c'"
| client_stream: "client_run env R A c0 S c \<Longrightarrow> sid \<notin> S \<Longrightarrow> clientStep env pk sid c = (r', c') \<Longrightarrow>
    S' = (if r' = Ok () \<and> s_pc (c_streams c' sid) \<noteq> Returned then S else insert sid S) \<Longrightarrow> client_run env R A c0 S' c'"
| client_sender: "client_run env R A c0 S c \<Longrightarrow> sendMessages env pick c = (b, c') \<Longrightarrow> client_run env R A c0 S c'"
| client_list: "client_run env R A c0 S c \<Longrightarrow> ListFileMetaData env pick ref fileName c = (r', c') \<Longrightarrow> client_run env R A c0 S c'"
| client_collect: "client_run env R A c0 S c \<Longrightarrow> client_run env R A c0 S (c\<lparr>c_metaChans := chans\<rparr>)"
| client_close: "client_run env R A c0 S c \<Longrightarrow> BConn_Close env c = (r', c') \<Longrightarrow> client_run env R A c0 S c'"
| client_transport: "client_run env R A c0 S c \<Longrightarrow> client_run env R A c0 S (c\<lparr>c_conn := b'\<rparr>)"

lemma client_run_inv:
  assumes "client_run env R A c0 S c" and "announced (env_sha env) A" and "honest fs0" and "env_tmp env \<notin> R"
    and "client_inv env R A fs0 UNIV c0"
  shows "client_inv env R A fs0 S c"
  using assms(1)
proof induction
  case (client_download S c sid name pick checksum info c')
  from guardsD [OF DownloadFile_inv [OF client_download.hyps(3)] client_download.IH client_download.hyps(4)] show ?case by simp
next
  case (client_refused S c sid name pick checksum r c')
  from guardsD [OF DownloadFile_inv [OF client_refused.hyps(3)] client_refused.IH client_refused.hyps(4)] client_refused.hyps(5)
  show ?case by (cases r) auto
next
  case (client_message S c m pick r' c')
  from keepsD [OF keeps_clientDispatch [OF client_message.hyps(2)] client_message.IH client_message.hyps(3)] show ?case .
next
  case (client_stream S c sid pk r' c' S')
  have i: "client_inv env R A fs0 S c' \<Longrightarrow> client_inv env R A fs0 (insert sid S) c'" by (rule client_inv_mono) auto
  from guardsD [OF clientStep_inv [OF assms(2-4) client_stream.hyps(2)] client_stream.IH client_stream.hyps(3)] client_stream.hyps(4) i
  show ?case by (cases r') auto
next
  case (client_sender S c pick b c')
  from keepsD [OF cli.sends client_sender.IH client_sender.hyps(2)] show ?case .
next
  case (client_list S c pick ref fileName r' c')
  from keepsD [OF keeps_ListFileMetaData client_list.IH client_list.hyps(2)] show ?case .
next
  case (client_close S c r' c')
  from keepsD [OF cli.basic(1) client_close.IH client_close.hyps(2)] show ?case .
qed (use assms(5) in \<open>simp_all add: client_inv_def\<close>)

text \<open>Where a run starts: no stream yet, and the files of the directory.\<close>

lemma client_inv_start:
  assumes "honest fs0" and "\<And>h i p. fs_fds fs0 h = Some (i, p) \<Longrightarrow> h < fs_next fs0 \<and> i < fs_next fs0"
    and "\<And>n F cs. n \<in> R \<Longrightarrow> stored fs0 n = Some F \<Longrightarrow> headed cs F \<Longrightarrow> cs \<in> A"
  shows "client_inv env R A fs0 UNIV (newBConn True opts conn fs0)"
proof -
  have "owned R fs0 i \<and> acceptable (env_sha env) A (fs_data fs0 i)" if "n \<in> R" "\<not> foreign fs0 n" "fs_dir fs0 n = Some i" for n i
  proof -
    have s: "stored fs0 n = Some (fs_data fs0 i)" using that(3) by (simp add: stored_def)
    with that(2) obtain cs where cs: "headed cs (fs_data fs0 i)" by (auto simp: foreign_def)
    from that show ?thesis using assms(3) [OF that(1) s cs] cs by (auto simp: owned_def acceptable_def)
  qed
  then show ?thesis
    using assms(1,2) by (auto simp: client_inv_def newBConn_def noStream_def fs_ok_def honest_def)
qed

end
