(* ===== verification/Brft_Server_Life.thy ===== *)
theory Brft_Server_Life
  imports Brft_Invariants
begin

text \<open>
  The goroutines of a server connection: the handler, the sender and the handlers of the streams,
  counted by the wait group that \<open>Close\<close> waits for. What the wait group counts, which of them can
  bring the process down, and that \<open>Close\<close> returns.
\<close>

section \<open>Calls that return\<close>

text \<open>A result with a value or an error, from any state.\<close>

definition returns :: "'a outcome \<Rightarrow> bool" where
  "returns x \<longleftrightarrow> (\<exists>v. x = Ok v) \<or> (\<exists>e. x = Err e)"

definition returning :: "('s, 'a) parser \<Rightarrow> bool" where
  "returning m \<longleftrightarrow> (\<forall>s. returns (fst (m s)))"

lemma returns_simps [simp]: "returns (Ok v)" "returns (Err e)" "\<not> returns Block" "\<not> returns (Panic p)"
  by (simp_all add: returns_def)

lemma returns_bindO: "returns x \<Longrightarrow> (\<And>v. returns (f v)) \<Longrightarrow> returns (bindO x f)"
  by (cases x) auto

lemma returns_mapErr: "returns x \<Longrightarrow> returns (mapErr g x)"
  by (cases x) auto

lemma returning_bind: "returning m \<Longrightarrow> (\<And>v. returning (k v)) \<Longrightarrow> returning (bindM m k)"
  unfolding returning_def
proof
  fix s assume m: "\<forall>s. returns (fst (m s))" and k: "\<And>v. \<forall>s. returns (fst (k v s))"
  obtain x s' where x: "m s = (x, s')" by fastforce
  from m have "returns x" by (metis fst_conv x)
  with x k show "returns (fst (bindM m k s))" by (cases x) (simp_all add: bindM_def)
qed

lemma returning_mapErr: "returning m \<Longrightarrow> returning (mapErrM g m)"
  by (auto simp: returning_def mapErrM_def case_prod_beta intro: returns_mapErr)

lemma returning_basic: "returning (returnM v)" "returning (failM e)"
  by (simp_all add: returning_def returnM_def failM_def)

lemma returning_os: "returning (os_Stat name)" "returning (os_Open name b)" "returning (os_SeekStart g k)" "returning (os_Fstat g)"
  "returning (os_Read g n)" "returning (io_ReadAll g)"
  unfolding returning_def os_defs fs_defs step_defs Let_def
  by (auto split: option.splits)

lemma returning_File_Size: "returning (File_Size f)"
  using File_Size_total unfolding returning_def by (metis fst_conv returns_simps(1))

lemmas returning_rules = returning_bind returning_mapErr returning_basic returning_os returning_File_Size

lemma returning_files: "returning (OpenFile sha name)" "returning (File_Read f n)" "returning (SeekOffset f off)"
proof -
  show "returning (OpenFile sha name)"
    unfolding OpenFile_def ComputeChecksum_def by (auto intro!: returning_rules)
  show "returning (File_Read f n)" unfolding File_Read_def by (rule returning_rules)
  show "returning (SeekOffset f off)" unfolding SeekOffset_def by (auto intro!: returning_rules)
qed

context cryptobyte_laws
begin

lemma returns_Bytes: "returns (Bytes cb b)"
proof (cases "view b")
  case (Some p)
  then obtain n xs where "view b = Some (n, xs)" by (cases p) auto
  then show ?thesis using bytes_ok by simp
qed (simp add: bytes_err)

lemma returns_encodeAll: "returns (encodeAll cb b hs)"
proof (induction hs arbitrary: b)
  case (Cons h hs)
  have "returns (Opt_Encode cb h)"
    by (cases h) (auto simp: Unknown_Encode_def CompressionReq_Encode_def CompressionResp_Encode_def Let_def
        intro!: returns_bindO returns_Bytes returns_mapErr)
  with Cons.IH show ?case by (auto intro: returns_bindO)
qed simp

lemma returns_encode: "returns (Close_Encode cb m1)" "returns (Data_Encode cb m2)" "returns (FileResp_Encode cb m3)"
proof -
  show "returns (Close_Encode cb m1)" "returns (Data_Encode cb m2)"
    unfolding Close_Encode_def Data_Encode_def Let_def by (rule returns_Bytes)+
  show "returns (FileResp_Encode cb m3)"
    unfolding FileResp_Encode_def marshalOptionalHeaders_def Let_def
    by (auto intro!: returns_bindO returns_Bytes returns_mapErr returns_encodeAll)
qed

end

section \<open>What the wait group counts\<close>

text \<open>The streams whose goroutine has not returned.\<close>

definition living :: "BConn \<Rightarrow> u16 set" where
  "living c = {sid. s_pc (c_streams c sid) \<noteq> Returned}"

text \<open>
  A server before \<open>Close\<close> has closed its channels: the wait group counts the streams and the \<open>n\<close>
  senders; the table holds the living streams and no other; exactly their channels are open; and
  a stream that waits for the start or sends has its file.
\<close>

definition life :: "nat \<Rightarrow> BConn \<Rightarrow> bool" where
  "life n c \<longleftrightarrow> \<not> c_isClient c \<and> \<not> c_outClosed c \<and> finite (living c) \<and> c_wg c = n + card (living c) \<and> c_table c = living c
     \<and> (\<forall>sid. s_closed (c_streams c sid) \<longleftrightarrow> sid \<notin> living c)
     \<and> (\<forall>sid. s_pc (c_streams c sid) = SAwaitStart \<or> s_pc (c_streams c sid) = SSending \<longrightarrow> s_f (c_streams c sid) \<noteq> None)
     \<and> (\<forall>sid. s_pc (c_streams c sid) \<noteq> CAwaitResp \<and> s_pc (c_streams c sid) \<noteq> CReading)"

definition same_life :: "BConn \<Rightarrow> BConn \<Rightarrow> bool" where
  "same_life c c' \<longleftrightarrow> c_isClient c' = c_isClient c \<and> c_outClosed c' = c_outClosed c \<and> c_wg c' = c_wg c \<and> c_table c' = c_table c
     \<and> c_close c' = c_close c \<and> (\<forall>sid. s_pc (c_streams c' sid) = s_pc (c_streams c sid)
       \<and> s_closed (c_streams c' sid) = s_closed (c_streams c sid) \<and> (s_f (c_streams c' sid) = None) = (s_f (c_streams c sid) = None))"

text \<open>In the middle of a step of the stream \<open>sid\<close>, and at its end; \<open>forced\<close> steps have to finish it.\<close>

definition mid :: "nat \<Rightarrow> bool \<Rightarrow> u16 set \<Rightarrow> u16 \<Rightarrow> bool \<Rightarrow> BConn \<Rightarrow> bool" where
  "mid n z L sid hf c \<longleftrightarrow> life n c \<and> c_close c = z \<and> living c = L \<and> sid \<in> L \<and> (hf \<longrightarrow> s_f (c_streams c sid) \<noteq> None)"

definition ended :: "nat \<Rightarrow> bool \<Rightarrow> u16 set \<Rightarrow> u16 \<Rightarrow> bool \<Rightarrow> BConn \<Rightarrow> bool" where
  "ended n z L sid forced c \<longleftrightarrow> life n c \<and> c_close c = z \<and> (living c = L - {sid} \<or> living c = L \<and> \<not> forced)"

definition waiting :: "nat \<Rightarrow> bool \<Rightarrow> u16 set \<Rightarrow> u16 \<Rightarrow> bool \<Rightarrow> BConn \<Rightarrow> bool" where
  "waiting n z L sid forced c \<longleftrightarrow> \<not> forced \<and> life n c \<and> c_close c = z \<and> living c = L"

lemma same_living: "same_life c c' \<Longrightarrow> living c' = living c"
  by (simp add: same_life_def living_def)

lemma same_life: "same_life c c' \<Longrightarrow> life n c \<Longrightarrow> life n c'"
  using same_living [of c c'] by (auto simp: same_life_def life_def)

lemma same_mid: "same_life c c' \<Longrightarrow> mid n z L sid hf c \<Longrightarrow> mid n z L sid hf c'"
proof -
  assume a: "same_life c c'" "mid n z L sid hf c"
  then have "c_close c' = c_close c" "(s_f (c_streams c' sid) = None) = (s_f (c_streams c sid) = None)"
    by (simp_all add: same_life_def)
  with a(2) same_life [OF a(1)] same_living [OF a(1)] show ?thesis unfolding mid_def by metis
qed

section \<open>Steps that do not go wrong\<close>

text \<open>From \<open>P\<close> the step ends with \<open>Q\<close>, or it waits with \<open>W\<close>; it neither fails nor panics.\<close>

definition safe :: "(BConn \<Rightarrow> bool) \<Rightarrow> (BConn \<Rightarrow> bool) \<Rightarrow> (BConn, 'a) parser \<Rightarrow> ('a \<Rightarrow> BConn \<Rightarrow> bool) \<Rightarrow> bool" where
  "safe W P m Q \<longleftrightarrow> (\<forall>c x c'. P c \<longrightarrow> m c = (x, c') \<longrightarrow> (\<exists>v. x = Ok v \<and> Q v c') \<or> x = Block \<and> W c')"

lemma safeI: "(\<And>c x c'. P c \<Longrightarrow> m c = (x, c') \<Longrightarrow> (\<exists>v. x = Ok v \<and> Q v c') \<or> x = Block \<and> W c') \<Longrightarrow> safe W P m Q"
  by (simp add: safe_def)

lemma safeD: "safe W P m Q \<Longrightarrow> P c \<Longrightarrow> m c = (x, c') \<Longrightarrow> (\<exists>v. x = Ok v \<and> Q v c') \<or> x = Block \<and> W c'"
  by (simp add: safe_def)

lemma safe_bind: "safe W P m R \<Longrightarrow> (\<And>v. safe W (R v) (k v) Q) \<Longrightarrow> safe W P (bindM m k) Q"
proof (rule safeI)
  fix c y c'' assume m: "safe W P m R" and k: "\<And>v. safe W (R v) (k v) Q" and P: "P c" and b: "bindM m k c = (y, c'')"
  obtain x c' where x: "m c = (x, c')" by fastforce
  from safeD [OF m P x] show "(\<exists>v. y = Ok v \<and> Q v c'') \<or> y = Block \<and> W c''"
  proof
    assume "\<exists>v. x = Ok v \<and> R v c'"
    then obtain v where v: "x = Ok v" "R v c'" by blast
    with b x have "k v c' = (y, c'')" by (simp add: bindM_def)
    from safeD [OF k v(2) this] show ?thesis .
  qed (use b x in \<open>auto simp: bindM_def\<close>)
qed

lemma safe_weaken: "safe W P' m Q' \<Longrightarrow> (\<And>c. P c \<Longrightarrow> P' c) \<Longrightarrow> (\<And>v c. Q' v c \<Longrightarrow> Q v c) \<Longrightarrow> safe W P m Q"
  unfolding safe_def by blast

lemma safe_get: "(\<And>c. P c \<Longrightarrow> safe W (\<lambda>d. d = c) (k (f c)) Q) \<Longrightarrow> safe W P (bindM (getM f) k) Q"
  by (simp add: safe_def getM_def bindM_def)

text \<open>Steps that return and change nothing of what matters here.\<close>

definition still :: "(BConn, 'a) parser \<Rightarrow> bool" where
  "still m \<longleftrightarrow> (\<forall>c. \<exists>v c'. m c = (Ok v, c') \<and> same_life c c')"

lemma safe_still: "still m \<Longrightarrow> safe W (mid n z L sid hf) m (\<lambda>_. mid n z L sid hf)"
  unfolding still_def safe_def using same_mid by (metis prod.inject)

lemma still_tryO: "returns x \<Longrightarrow> still (tryM (liftO x))"
  by (cases x) (simp_all add: still_def tryM_def liftO_def returnM_def same_life_def)

lemma still_fs: "returning m \<Longrightarrow> still (tryM (fsM m))"
proof -
  assume m: "returning m"
  have "\<exists>v c'. tryM (fsM m) c = (Ok v, c') \<and> same_life c c'" for c :: BConn
  proof -
    obtain x fs where x: "m (c_fs c) = (x, fs)" by fastforce
    moreover have "returns x" using m x unfolding returning_def by (metis fst_conv)
    ultimately show ?thesis by (cases x) (simp_all add: tryM_def run_fs same_life_def)
  qed
  then show ?thesis by (simp add: still_def)
qed

lemma still_ignore: "still (tryM m) \<Longrightarrow> still (ignoreM m)"
  unfolding still_def
proof
  fix c assume "\<forall>c. \<exists>v c'. tryM m c = (Ok v, c') \<and> same_life c c'"
  then obtain v c' where "tryM m c = (Ok v, c')" "same_life c c'" by blast
  then show "\<exists>v c'. ignoreM m c = (Ok v, c') \<and> same_life c c'" by (simp add: ignoreM_def bindM_def returnM_def)
qed

lemma still_size: "still (fsM (File_Size f))"
  unfolding still_def
proof
  fix c :: BConn
  obtain n f' fs' where "File_Size f (c_fs c) = (Ok (n, f'), fs')" using File_Size_total by blast
  then show "\<exists>v c'. fsM (File_Size f) c = (Ok v, c') \<and> same_life c c'"
    by (simp add: run_fs same_life_def)
qed

lemma still_upd: "(\<And>s. s_pc (u s) = s_pc s \<and> s_closed (u s) = s_closed s \<and> (s_f (u s) = None) = (s_f s = None)) \<Longrightarrow> still (updS sid u)"
  by (simp add: still_def updS_def modifyM_def same_life_def)

lemma still_get: "still (getM f)"
  by (simp add: still_def getM_def same_life_def)

lemma still_return: "still (returnM v)"
  by (simp add: still_def returnM_def same_life_def)

section \<open>The steps of a stream\<close>

lemma safe_if: "(b \<Longrightarrow> safe W P m Q) \<Longrightarrow> (\<not> b \<Longrightarrow> safe W P n Q) \<Longrightarrow> safe W P (if b then m else n) Q"
  by simp

lemma safe_when: "(b \<Longrightarrow> safe W P m (\<lambda>_. Q)) \<Longrightarrow> (\<And>c. \<not> b \<Longrightarrow> P c \<Longrightarrow> Q c) \<Longrightarrow> safe W P (whenM b m) (\<lambda>_. Q)"
  by (auto simp: whenM_def safe_def returnM_def)

lemma safe_return: "(\<And>c. P c \<Longrightarrow> Q v c) \<Longrightarrow> safe W P (returnM v) Q"
  by (auto simp: safe_def returnM_def)

lemma safe_try: "still (tryM m) \<Longrightarrow> (\<And>v. safe W (mid n z L sid hf) (k v) Q) \<Longrightarrow> safe W (mid n z L sid hf) (bindM (tryM m) k) Q"
  by (rule safe_bind [OF safe_still])

lemma safe_then: "still m \<Longrightarrow> (\<And>v. safe W (mid n z L sid hf) (k v) Q) \<Longrightarrow> safe W (mid n z L sid hf) (bindM m k) Q"
  by (rule safe_bind [OF safe_still])

lemma safe_file: "(\<And>f. safe W (mid n z L sid True) (k f) Q) \<Longrightarrow> safe W (mid n z L sid True) (withFile sid k) Q"
proof (rule safeI)
  fix c x c' assume k: "\<And>f. safe W (mid n z L sid True) (k f) Q" and c: "mid n z L sid True c" "withFile sid k c = (x, c')"
  then obtain f where "s_f (c_streams c sid) = Some f" by (auto simp: mid_def)
  with c have "k f c = (x, c')" by (simp add: withFile_def)
  from safeD [OF k c(1) this] show "(\<exists>v. x = Ok v \<and> Q v c') \<or> x = Block \<and> W c'" .
qed

lemma safe_size: "safe W (mid n z L sid True) (fileSize sid) (\<lambda>_. mid n z L sid True)"
proof (rule safeI)
  fix c x c' assume c: "mid n z L sid True c" "fileSize sid c = (x, c')"
  then obtain f where f: "s_f (c_streams c sid) = Some f" by (auto simp: mid_def)
  obtain m f' fs' where S: "File_Size f (c_fs c) = (Ok (m, f'), fs')" using File_Size_total by blast
  have "x = Ok m" "c' = c\<lparr>c_fs := fs', c_streams := (c_streams c)(sid := (c_streams c sid)\<lparr>s_f := Some f'\<rparr>)\<rparr>"
    using c(2) f S by (auto simp: fileSize_def withFile_def run_fs bindM_def getM_def updS_def modifyM_def returnM_def)
  moreover from this(2) f have "same_life c c'" by (simp add: same_life_def)
  ultimately show "(\<exists>v. x = Ok v \<and> mid n z L sid True c') \<or> x = Block \<and> W c'" using same_mid c(1) by blast
qed

lemma safe_opened: "safe W (mid n z L sid hf) (updS sid (\<lambda>s. s\<lparr>s_f := Some f, s_fileName := a, s_requestedChecksum := b\<rparr>)) (\<lambda>_. mid n z L sid True)"
proof (rule safeI)
  fix c x c' assume c: "mid n z L sid hf c"
    and u: "updS sid (\<lambda>s. s\<lparr>s_f := Some f, s_fileName := a, s_requestedChecksum := b\<rparr>) c = (x, c')"
  have c': "c' = c\<lparr>c_streams := (c_streams c)(sid := (c_streams c sid)\<lparr>s_f := Some f, s_fileName := a, s_requestedChecksum := b\<rparr>)\<rparr>"
    "x = Ok ()" using u by (auto simp: updS_def modifyM_def)
  have "living c' = living c" by (auto simp: c'(1) living_def)
  with c have "mid n z L sid True c'" by (auto simp: mid_def life_def c'(1))
  with c'(2) show "(\<exists>v. x = Ok v \<and> mid n z L sid True c') \<or> x = Block \<and> W c'" by simp
qed

lemma mid_ended: "mid n z L sid hf c \<Longrightarrow> \<not> forced \<Longrightarrow> ended n z L sid forced c"
  by (simp add: mid_def ended_def)

text \<open>The program counter moves on.\<close>

lemma safe_move:
  assumes "q = SAwaitStart \<or> q = SSending"
  shows "\<not> forced \<Longrightarrow> safe W (mid n z L sid True) (updS sid (\<lambda>s. s\<lparr>s_pc := q\<rparr>)) (\<lambda>_. ended n z L sid forced)"
proof (rule safeI)
  fix c x c' assume f: "\<not> forced" and c: "mid n z L sid True c" and u: "updS sid (\<lambda>s. s\<lparr>s_pc := q\<rparr>) c = (x, c')"
  have c': "c' = c\<lparr>c_streams := (c_streams c)(sid := (c_streams c sid)\<lparr>s_pc := q\<rparr>)\<rparr>" "x = Ok ()"
    using u by (auto simp: updS_def modifyM_def)
  have "sid \<in> living c" using c by (simp add: mid_def)
  then have "living c' = living c" using assms by (auto simp: c'(1) living_def)
  with c f assms have "ended n z L sid forced c'" by (auto simp: mid_def ended_def life_def c'(1))
  with c'(2) show "(\<exists>v. x = Ok v \<and> ended n z L sid forced c') \<or> x = Block \<and> W c'" by simp
qed

lemma safe_progress: "safe W (mid n z L sid hf) (updateProgress sid a b) (\<lambda>_. mid n z L sid hf)"
proof (rule safeI)
  fix c x c' assume c: "mid n z L sid hf c" and u: "updateProgress sid a b c = (x, c')"
  have "\<not> s_closed (c_streams c sid)" using c by (simp add: mid_def life_def)
  then have "x = Ok () \<and> same_life c c'"
    using u by (auto simp: updateProgress_last same_life_def split: if_splits)
  with c same_mid show "(\<exists>v. x = Ok v \<and> mid n z L sid hf c') \<or> x = Block \<and> W c'" by blast
qed

text \<open>A send that may be cut off by \<open>Close\<close>.\<close>

lemma safe_select:
  "safe W (mid n z L sid hf) (selectCtrl p d) (\<lambda>sent c. mid n z L sid hf c \<and> (sent \<longrightarrow> \<not> (z \<and> p)))"
  "safe W (mid n z L sid hf) (selectData p d) (\<lambda>sent c. mid n z L sid hf c \<and> (sent \<longrightarrow> \<not> (z \<and> p)))"
proof -
  have "same_life c (c\<lparr>c_outCtrl := q\<rparr>)" "same_life c (c\<lparr>c_outData := q\<rparr>)" for c q by (simp_all add: same_life_def)
  note k = this [THEN same_mid]
  have o: "\<not> c_outClosed c" "c_close c = z" if "mid n z L sid hf c" for c using that by (simp_all add: mid_def life_def)
  show "safe W (mid n z L sid hf) (selectCtrl p d) (\<lambda>sent c. mid n z L sid hf c \<and> (sent \<longrightarrow> \<not> (z \<and> p)))"
    "safe W (mid n z L sid hf) (selectData p d) (\<lambda>sent c. mid n z L sid hf c \<and> (sent \<longrightarrow> \<not> (z \<and> p)))"
    using k o by (auto simp: safe_def selectCtrl_def selectData_def)
qed

lemma safe_sent:
  assumes "safe W (mid n z L sid hf) m (\<lambda>sent c. mid n z L sid hf c \<and> (sent \<longrightarrow> \<not> (z \<and> p)))"
    and "\<not> (z \<and> p) \<Longrightarrow> safe W (mid n z L sid hf) (k True) Q" and "safe W (mid n z L sid hf) (k False) Q"
  shows "safe W (mid n z L sid hf) (bindM m k) Q"
proof (rule safe_bind [OF assms(1)])
  fix v show "safe W (\<lambda>c. mid n z L sid hf c \<and> (v \<longrightarrow> \<not> (z \<and> p))) (k v) Q"
    using assms(2,3) by (cases v; cases "z \<and> p") (auto simp: safe_def)
qed

text \<open>A receive: \<open>None\<close> when it is cut off. It waits only before \<open>Close\<close>.\<close>

lemma safe_recv:
  assumes "forced \<longrightarrow> z"
  shows "safe (waiting n z L sid forced) (mid n z L sid hf) (recvIn p sid) (\<lambda>m c. mid n z L sid hf c \<and> (m \<noteq> None \<longrightarrow> \<not> (z \<and> p)))"
proof (rule safeI)
  fix c x c' assume c: "mid n z L sid hf c" and r: "recvIn p sid c = (x, c')"
  have o: "\<not> s_closed (c_streams c sid)" "c_close c = z" using c by (simp_all add: mid_def life_def)
  have s: "same_life c (c\<lparr>c_streams := (c_streams c)(sid := (c_streams c sid)\<lparr>s_in := q\<rparr>)\<rparr>)" for q
    by (simp add: same_life_def)
  show "(\<exists>v. x = Ok v \<and> mid n z L sid hf c' \<and> (v \<noteq> None \<longrightarrow> \<not> (z \<and> p))) \<or> x = Block \<and> waiting n z L sid forced c'"
  proof (cases "z \<and> (p \<or> s_in (c_streams c sid) = [])")
    case True
    with r o c show ?thesis by (auto simp: recvIn_def Let_def)
  next
    case False
    show ?thesis
    proof (cases "s_in (c_streams c sid)")
      case Nil
      then have "x = Block" "c' = c" using False r o by (auto simp: recvIn_def Let_def)
      with False Nil assms c show ?thesis by (auto simp: waiting_def mid_def)
    next
      case (Cons m ms)
      then have "x = Ok (Some (Some m))" "c' = c\<lparr>c_streams := (c_streams c)(sid := (c_streams c sid)\<lparr>s_in := ms\<rparr>)\<rparr>"
        using False r o by (auto simp: recvIn_def Let_def)
      with False same_mid [OF s c] show ?thesis by auto
    qed
  qed
qed

lemma safe_received:
  assumes "forced \<longrightarrow> z \<and> p" and "\<And>m. \<not> forced \<Longrightarrow> safe (waiting n z L sid forced) (mid n z L sid hf) (k (Some m)) Q"
    and "safe (waiting n z L sid forced) (mid n z L sid hf) (k None) Q"
  shows "safe (waiting n z L sid forced) (mid n z L sid hf) (bindM (recvIn p sid) k) Q"
proof (rule safe_bind [OF safe_recv [where forced = forced and p = p]])
  show "forced \<longrightarrow> z" using assms(1) by simp
  fix v show "safe (waiting n z L sid forced) (\<lambda>c. mid n z L sid hf c \<and> (v \<noteq> None \<longrightarrow> \<not> (z \<and> p))) (k v) Q"
    using assms by (cases v; cases "z \<and> p") (auto simp: safe_def)
qed

context cryptobyte_laws
begin

lemma safe_finish:
  assumes "env_cb env = cb"
  shows "safe W (mid n z L sid hf) (finish env p sid b r) (\<lambda>_. ended n z L sid forced)"
proof (rule safeI)
  fix c x c' assume c: "mid n z L sid hf c" and f: "finish env p sid b r c = (x, c')"
  note M = c [unfolded mid_def life_def]
  let ?c = "c\<lparr>c_table := c_table c - {sid}\<rparr>"
  obtain fs' where F: "\<And>k :: unit \<Rightarrow> (BConn, unit) parser. bindM (ignoreM (fsM (File_Close (s_f (c_streams c sid))))) k ?c = k () (?c\<lparr>c_fs := fs'\<rparr>)"
    using close_file [of "s_f (c_streams c sid)" ?c] by auto
  let ?c2 = "?c\<lparr>c_fs := fs', c_streams := (c_streams c)(sid := (c_streams c sid)\<lparr>s_closed := True\<rparr>)\<rparr>"
  obtain q where q: "sendClosePacket env p sid r ?c2 = (Ok (), ?c2\<lparr>c_outData := q\<rparr>)"
    using sendClosePacket_any [OF assms, of ?c2 p sid r] M by auto
  have n: "\<not> c_isClient c" "\<not> s_closed (c_streams c sid)" using M by auto
  have "\<exists>q t. finish env p sid b r c = (Ok (), c\<lparr>c_table := c_table c - {sid}, c_fs := fs',
      c_streams := (c_streams c)(sid := (c_streams c sid)\<lparr>s_closed := True, s_pc := Returned\<rparr>),
      c_outData := q, c_conn := t, c_wg := c_wg c - 1\<rparr>)"
    using n by (intro exI [of _ "if b then q else c_outData c"] exI [of _ "if c_table c \<subseteq> {sid} then ResetReadTimeout (c_conn c) else c_conn c"])
      (simp add: finish_def CloseStream_def F whenM_def bind_Ok [where m = "sendClosePacket env p sid r", OF q])
  then obtain q' t where e: "x = Ok ()" "c' = c\<lparr>c_table := c_table c - {sid}, c_fs := fs',
      c_streams := (c_streams c)(sid := (c_streams c sid)\<lparr>s_closed := True, s_pc := Returned\<rparr>),
      c_outData := q', c_conn := t, c_wg := c_wg c - 1\<rparr>" using f by auto
  have L: "living c' = L - {sid}" using M by (auto simp: e(2) living_def)
  moreover have "card (L - {sid}) = card L - 1" "0 < card L" using M by (auto simp: card_gt_0_iff)
  ultimately have "ended n z L sid forced c'"
    using M by (auto simp: ended_def life_def e(2))
  with e(1) show "(\<exists>v. x = Ok v \<and> ended n z L sid forced c') \<or> x = Block \<and> W c'" by simp
qed

lemma safe_serverAnswer:
  assumes "env_cb env = cb" and "\<not> forced"
  shows "safe W (mid n z L sid True) (serverAnswer env pk sid req f m) (\<lambda>_. ended n z L sid forced)"
proof -
  note fin = safe_finish [OF assms(1)]
  have "safe W (mid n z L sid True) (bindM (selectCtrl (pk 1) data) (\<lambda>sent. if sent then updS sid (\<lambda>s. s\<lparr>s_pc := SAwaitStart\<rparr>)
      else finish env (pk 2) sid False 0)) (\<lambda>_. ended n z L sid forced)" for data
    by (rule safe_sent [OF safe_select(1)]) (use assms(2) in \<open>simp_all add: safe_move fin\<close>)
  then show ?thesis
    unfolding serverAnswer_def
    by (intro safe_bind [OF safe_still] still_get)
      (auto split: option.split sum.split intro!: fin safe_then still_upd safe_try still_tryO returns_encode simp: assms(1))
qed

lemma safe_serverNegotiate:
  assumes "env_cb env = cb" and "\<not> forced"
  shows "safe W (mid n z L sid hf) (serverNegotiate env pk sid req) (\<lambda>_. ended n z L sid forced)"
proof -
  note fin = safe_finish [OF assms(1)] and ans = safe_serverAnswer [OF assms]
  have flags: "safe W (mid n z L sid True) (thenM (whenM b (updS sid (\<lambda>s. s\<lparr>s_isResumption := True\<rparr>))) m) Q"
    if "safe W (mid n z L sid True) m Q" for b W Q and m :: "(BConn, unit) parser"
    by (rule safe_bind [where R = "\<lambda>_. mid n z L sid True", OF safe_when [OF safe_still [OF still_upd]]]) (simp_all add: that)
  show ?thesis
    unfolding serverNegotiate_def
    by (rule safe_try [OF still_fs [OF returning_files(1)]])
      (auto split: sum.split intro!: fin ans flags safe_bind [OF safe_opened] safe_bind [OF safe_size] safe_then still_upd safe_if)
qed

lemma safe_serverReq:
  assumes "env_cb env = cb" and "forced \<longrightarrow> z \<and> pk 0"
  shows "safe (waiting n z L sid forced) (mid n z L sid hf) (serverReq env pk sid) (\<lambda>_. ended n z L sid forced)"
  unfolding serverReq_def
  by (rule safe_received)
    (use assms(2) in \<open>auto split: option.split BRFTMessage.split intro!: safe_finish [OF assms(1)] safe_serverNegotiate [OF assms(1)]\<close>)

lemma safe_serverStart:
  assumes "env_cb env = cb" and "forced \<longrightarrow> z \<and> pk 0"
  shows "safe (waiting n z L sid forced) (mid n z L sid True) (serverStart env pk sid) (\<lambda>_. ended n z L sid forced)"
proof -
  note fin = safe_finish [OF assms(1)]
  have ign: "still (ignoreM (fsM (SeekOffset f off)))" for f off
    by (rule still_ignore, rule still_fs, rule returning_files)
  show ?thesis
    unfolding serverStart_def
    by (rule safe_received)
      (use assms(2) in \<open>auto split: option.split BRFTMessage.split
        intro!: fin safe_file safe_if safe_bind [OF safe_size] safe_then [OF ign] safe_move\<close>)
qed

lemma safe_sendChunk:
  assumes "env_cb env = cb" and "forced \<longrightarrow> z \<and> pk 1"
  shows "safe W (mid n z L sid True) (sendChunk env pk sid d dLen b) (\<lambda>_. ended n z L sid forced)"
proof -
  note fin = safe_finish [OF assms(1)]
  have last: "safe W (mid n z L sid True) (thenM (updateProgress sid (length d) dLen)
      (whenM b (finish env (pk 2) sid True CloseReasonTransferComplete))) (\<lambda>_. ended n z L sid forced)" if "\<not> forced"
    by (rule safe_bind [OF safe_progress], rule safe_when [OF fin]) (use that in \<open>auto intro: mid_ended\<close>)
  have "safe W (mid n z L sid True) (bindM (selectData (pk 1) data) (\<lambda>sent.
         if \<not> sent then finish env (pk 2) sid False 0
         else thenM (updateProgress sid (length d) dLen)
           (whenM b (finish env (pk 2) sid True CloseReasonTransferComplete)))) (\<lambda>_. ended n z L sid forced)" for data
    by (rule safe_sent [OF safe_select(2)]) (use assms(2) in \<open>auto intro: last fin\<close>)
  then show ?thesis
    unfolding sendChunk_def
    by (intro safe_try still_tryO) (auto split: sum.split intro!: fin returns_encode simp: assms(1))
qed

lemma safe_serverChunk:
  assumes "env_cb env = cb" and "forced \<longrightarrow> z \<and> pk 1" and "\<And>x. returns (env_compress env x)"
  shows "safe W (mid n z L sid True) (serverChunk env pk sid) (\<lambda>_. ended n z L sid forced)"
proof -
  note fin = safe_finish [OF assms(1)] and sends = safe_sendChunk [where pk = pk, OF assms(1,2)]
  show ?thesis
    unfolding serverChunk_def Let_def
    by (intro safe_then [OF still_get] safe_file safe_try [OF still_fs [OF returning_files(2)]])
      (auto split: sum.split intro!: fin sends safe_if safe_try [OF still_tryO] assms(3))
qed

text \<open>
  A step of a stream of a server: it ends or waits, as a state in which the stream has returned,
  or, unless the step is forced by \<open>Close\<close>, one with the same streams.
\<close>

lemma safe_serverStep:
  assumes "env_cb env = cb" and "forced \<longrightarrow> z \<and> pk 0 \<and> pk 1" and "\<And>x. returns (env_compress env x)"
  shows "safe (waiting n z L sid forced) (mid n z L sid False) (serverStep env pk sid) (\<lambda>_. ended n z L sid forced)"
proof (rule safeI)
  fix c x c' assume c: "mid n z L sid False c" and s: "serverStep env pk sid c = (x, c')"
  have f: "mid n z L sid True c" if "s_pc (c_streams c sid) = SAwaitStart \<or> s_pc (c_streams c sid) = SSending"
    using c that unfolding mid_def life_def by blast
  have pc: "s_pc (c_streams c sid) = SAwaitReq \<or> s_pc (c_streams c sid) = SAwaitStart \<or> s_pc (c_streams c sid) = SSending"
    using c by (cases "s_pc (c_streams c sid)") (auto simp: mid_def life_def living_def)
  have a: "forced \<longrightarrow> z \<and> pk 0" "forced \<longrightarrow> z \<and> pk 1" using assms(2) by simp_all
  from pc consider "serverReq env pk sid c = (x, c')"
    | "mid n z L sid True c" "serverStart env pk sid c = (x, c')" | "mid n z L sid True c" "serverChunk env pk sid c = (x, c')"
    using s f by (auto simp: serverStep_def bindM_def getM_def)
  then show "(\<exists>v. x = Ok v \<and> ended n z L sid forced c') \<or> x = Block \<and> waiting n z L sid forced c'"
    by cases (use safeD [OF safe_serverReq [where pk = pk, OF assms(1) a(1)] c]
      safeD [OF safe_serverStart [where pk = pk, OF assms(1) a(1)]]
      safeD [OF safe_serverChunk [where pk = pk, OF assms(1) a(2) assms(3)]] in \<open>blast\<close>)+
qed

end

section \<open>The handler of the connection\<close>

lemma same_refl: "same_life c c"
  by (simp add: same_life_def)

lemma same_upd: "(\<And>s. s_pc (u s) = s_pc s \<and> s_closed (u s) = s_closed s \<and> (s_f (u s) = None) = (s_f s = None)) \<Longrightarrow> keeps (same_life c0) (updS sid u)"
  unfolding updS_def by (rule keeps_modify) (simp add: same_life_def)

lemma same_fs: "keeps (same_life c0) (fsM m)" "keeps (same_life c0) (connM m')"
  by (auto simp: keeps_alt fsM_def connM_def zoomM_def same_life_def split: prod.splits)

lemma same_select: "keeps (same_life c0) (selectCtrl p d)" "keeps (same_life c0) (selectData p d)"
  by (auto simp: keeps_alt selectCtrl_def selectData_def same_life_def)

lemmas same_rules = keeping same_upd same_fs same_select

lemma same_file: "(\<And>f. keeps (same_life c0) (k f)) \<Longrightarrow> keeps (same_life c0) (withFile sid k)"
  unfolding withFile_def by (intro same_rules)

lemma same_size: "keeps (same_life c0) (fileSize sid)"
proof (rule keepsI)
  fix c x c' assume c: "same_life c0 c" and s: "fileSize sid c = (x, c')"
  show "same_life c0 c'"
  proof (cases "s_f (c_streams c sid)")
    case (Some f)
    obtain m f' fs' where S: "File_Size f (c_fs c) = (Ok (m, f'), fs')" using File_Size_total by blast
    have "c' = c\<lparr>c_fs := fs', c_streams := (c_streams c)(sid := (c_streams c sid)\<lparr>s_f := Some f'\<rparr>)\<rparr>"
      using s Some S by (auto simp: fileSize_def withFile_def run_fs bindM_def getM_def updS_def modifyM_def returnM_def)
    moreover have "(s_f (c_streams c sid) = None) = (s_f (c_streams c0 sid) = None)" using c by (simp add: same_life_def)
    ultimately show ?thesis using c Some by (auto simp: same_life_def)
  qed (use c s in \<open>simp add: fileSize_def withFile_def bindM_def getM_def panicM_def\<close>)
qed

lemma same_messages:
  "keeps (same_life c0) (sendClosePacket env p sid r)" "keeps (same_life c0) (pushIn sid m)"
  "keeps (same_life c0) (sendMetaResps env p rs)" "keeps (same_life c0) (sendEmptyResponse env)"
proof -
  show "keeps (same_life c0) (sendClosePacket env p sid r)" "keeps (same_life c0) (sendEmptyResponse env)"
    unfolding sendClosePacket_def sendEmptyResponse_def by (intro same_rules)+
  show "keeps (same_life c0) (pushIn sid m)"
    unfolding pushIn_def by (intro same_rules) simp
  show "keeps (same_life c0) (sendMetaResps env p rs)"
    by (induction rs) (auto intro!: same_rules)
qed

lemma same_dispatch:
  "keeps (same_life c0) (serverOnStart env p start)" "keeps (same_life c0) (onClosePacket cls)"
  "keeps (same_life c0) (handleMetaDataReq env p listing req)"
  unfolding serverOnStart_def onClosePacket_def handleMetaDataReq_def Let_def
  by (intro same_rules same_file same_size same_messages; simp)+

text \<open>A request for a stream that is new.\<close>

lemma life_spawn:
  assumes "life n c" and "sid \<notin> living c"
  shows "life n (snd (spawn sid (newServerStream d msg) c))"
proof -
  let ?c = "snd (spawn sid (newServerStream d msg) c)"
  have c: "?c = c\<lparr>c_streams := (c_streams c)(sid := newServerStream d msg), c_table := insert sid (c_table c), c_wg := c_wg c + 1\<rparr>"
    by (simp add: spawn_def modifyM_def)
  have "living ?c = insert sid (living c)" unfolding c by (auto simp: living_def newServerStream_def)
  with assms show ?thesis unfolding life_def c by (auto simp: newServerStream_def)
qed

text \<open>\<open>Close\<close> waits while the wait group is not empty, and then closes the channels.\<close>

lemma life_close: "life n c \<Longrightarrow> BConn_Close env c = (r, c') \<Longrightarrow> c_outClosed c' \<or> life n c'"
proof -
  assume l: "life n c" and r: "BConn_Close env c = (r, c')"
  have "living (c\<lparr>c_close := True\<rparr>) = living c" by (simp add: living_def)
  with l have "life n (c\<lparr>c_close := True\<rparr>)" by (simp add: life_def)
  with r l show ?thesis
    by (auto simp: BConn_Close_def bindM_def modifyM_def life_def split: if_splits prod.splits)
qed

lemma ignore_state: "snd (ignoreM m c) = snd (m c)"
  by (cases "m c"; cases "fst (m c)") (auto simp: ignoreM_def tryM_def bindM_def returnM_def)

lemma life_closeConn: "life n c \<Longrightarrow> c_outClosed (snd (closeConn env c)) \<or> life n (snd (closeConn env c))"
  using life_close unfolding closeConn_def ignore_state by (metis prod.collapse)

lemma life_dispatch:
  assumes l: "life n c" and d: "serverDispatch env p listing m c = (r, c')"
  shows "c_outClosed c' \<or> life n c'"
proof -
  have same: "life n c'" if "keeps (same_life c) k" "k c = (r, c')" for k :: "(BConn, unit) parser"
    using keepsD [OF that(1) same_refl that(2)] l by (rule same_life)
  show ?thesis
  proof (cases m)
    case (BFileReq msg)
    show ?thesis
    proof (cases "isDuplicateStreamID (fq_StreamID msg) c")
      case True
      with d BFileReq have "sendClosePacket env p (fq_StreamID msg) CloseReasonUndefined c = (r, c')"
        by (simp add: serverDispatch_def serverOnFileReq_def bindM_def getM_def)
      from same [OF same_messages(1) this] show ?thesis by simp
    next
      case False
      then have "fq_StreamID msg \<notin> living c" using l by (auto simp: life_def isDuplicateStreamID_def)
      from life_spawn [OF l this, of c msg] d BFileReq False show ?thesis
        by (simp add: serverDispatch_def serverOnFileReq_def bindM_def getM_def)
    qed
  qed (use d l same [OF same_dispatch(1) [where env = env]] same [OF same_dispatch(2)] same [OF same_dispatch(3) [where env = env]] life_closeConn [OF l, of env]
      in \<open>auto simp: serverDispatch_def\<close>)
qed

lemma life_pass:
  assumes l: "life n c" and d: "serverPass env p listing c = (r, c')"
  shows "c_outClosed c' \<or> life n c'"
proof -
  obtain x c1 where x: "tryM (connM (readMsg Conn_Read)) c = (x, c1)" by fastforce
  have "keeps (same_life c) (tryM (connM (readMsg Conn_Read)))" by (intro same_rules)
  from keepsD [OF this same_refl x] have l1: "life n c1" using l by (rule same_life)
  show ?thesis
  proof (cases x)
    case (Ok v)
    show ?thesis
    proof (cases v)
      case (Inl mh)
      obtain m h where "mh = (m, h)" by fastforce
      with d x Ok Inl have "snd (serverDispatch env p listing m c1) = c'"
        by (auto simp: serverPass_def bindM_def returnM_def split: outcome.splits prod.splits)
      with life_dispatch [OF l1] show ?thesis by (metis prod.collapse)
    next
      case (Inr e)
      with d x Ok have "snd (closeConn env c1) = c'"
        by (auto simp: serverPass_def bindM_def returnM_def split: outcome.splits prod.splits)
      with life_closeConn [OF l1] show ?thesis by blast
    qed
  qed (use d x l1 in \<open>auto simp: serverPass_def bindM_def\<close>)
qed

section \<open>The connection until \<open>Close\<close> has closed its channels\<close>

text \<open>
  The handler with what the transport has to read or with a message, the streams, the sender
  until it returns, and calls of \<open>Close\<close>, in any order and with any choices; \<open>n\<close> is the number
  of senders. A call that waits is in the state it has reached.
\<close>

inductive serving :: "'b Env \<Rightarrow> nat \<Rightarrow> BConn \<Rightarrow> bool" for env where
  serving_new: "serving env 1 (newBConn False opts conn fs)"
| serving_message: "serving env n c \<Longrightarrow> serverDispatch env p listing m c = (r, c') \<Longrightarrow> \<not> c_outClosed c' \<Longrightarrow> serving env n c'"
| serving_pass: "serving env n c \<Longrightarrow> serverPass env p listing c = (r', c') \<Longrightarrow> \<not> c_outClosed c' \<Longrightarrow> serving env n c'"
| serving_stream: "serving env n c \<Longrightarrow> serverStep env pk sid c = (r, c') \<Longrightarrow> serving env n c'"
| serving_sender: "serving env 1 c \<Longrightarrow> sendMessages env p c = (r', c') \<Longrightarrow> serving env (if r' = Ok False then 0 else 1) c'"
| serving_close: "serving env n c \<Longrightarrow> BConn_Close env c = (r, c') \<Longrightarrow> \<not> c_outClosed c' \<Longrightarrow> serving env n c'"
| serving_transport: "serving env n c \<Longrightarrow> serving env n (c\<lparr>c_conn := b\<rparr>)"

lemma serving_senders: "serving env n c \<Longrightarrow> n \<le> 1"
  by (induction rule: serving.induct) auto

lemma life_new: "life 1 (newBConn False opts conn fs)"
proof -
  have "living (newBConn False opts conn fs) = {}" by (simp add: living_def newBConn_def noStream_def)
  then show ?thesis by (simp add: life_def newBConn_def noStream_def)
qed

lemma same_conn: "same_life c (c\<lparr>c_conn := b\<rparr>)" "same_life c (c\<lparr>c_outCtrl := q, c_conn := b\<rparr>)" "same_life c (c\<lparr>c_outData := q, c_conn := b\<rparr>)"
  "same_life c (c\<lparr>c_outCtrl := q\<rparr>)" "same_life c (c\<lparr>c_outData := q\<rparr>)"
  by (simp_all add: same_life_def)

lemma life_close_flag: "life n c \<Longrightarrow> life n (c\<lparr>c_close := True\<rparr>)"
  by (simp add: life_def living_def)

lemma life_writeOut: "life 1 c \<Longrightarrow> writeOut env msg c = (r, c') \<Longrightarrow> life 1 c'"
proof -
  assume l: "life 1 c" and w: "writeOut env msg c = (r, c')"
  have l': "life 1 (c\<lparr>c_conn := b\<rparr>)" for b by (rule same_life [OF same_conn(1) l])
  moreover have "0 < c_wg (c\<lparr>c_conn := b\<rparr>)" for b using l by (simp add: life_def)
  ultimately show ?thesis
    using w l life_close_flag [OF l'] by (auto simp: writeOut_def close_waits split: option.splits prod.splits outcome.splits)
qed

lemma life_sender:
  assumes "life 1 c" and "sendMessages env p c = (r, c')"
  shows "life (if r = Ok False then 0 else 1) c'"
proof (cases "c_close c \<and> (p \<or> c_outCtrl c = [])")
  case True
  with assms have "r = Ok False" "c' = c\<lparr>c_wg := c_wg c - 1\<rparr>" by (auto simp: sendMessages_def)
  with assms(1) show ?thesis by (simp add: life_def living_def)
next
  case False
  have w: "life 1 d'" "r' \<noteq> Ok False" if "thenM (writeOut env msg) (returnM True) d = (r', d')" "life 1 d" for msg d r' d'
  proof -
    obtain x e where x: "writeOut env msg d = (x, e)" by fastforce
    with that life_writeOut [OF that(2) x] show "life 1 d'" "r' \<noteq> Ok False"
      by (cases x; auto simp: bindM_def returnM_def)+
  qed
  have q: "life 1 (c\<lparr>c_outCtrl := q\<rparr>)" "life 1 (c\<lparr>c_outData := q\<rparr>)" for q
    using assms(1) same_life [OF same_conn(4)] same_life [OF same_conn(5)] by blast+
  show ?thesis
  proof (cases "c_outCtrl c")
    case (Cons msg rest)
    with False assms(2) have "thenM (writeOut env msg) (returnM True) (c\<lparr>c_outCtrl := rest\<rparr>) = (r, c')"
      by (auto simp: sendMessages_def)
    with w [OF this q(1)] show ?thesis by simp
  next
    case Nil
    note ctrl = Nil
    show ?thesis
    proof (cases "c_outData c")
      case (Cons msg rest)
      with ctrl False assms(2) have "thenM (writeOut env msg) (returnM True) (c\<lparr>c_outData := rest\<rparr>) = (r, c')"
        by (auto simp: sendMessages_def)
      with w [OF this q(2)] show ?thesis by simp
    qed (use ctrl False assms in \<open>auto simp: sendMessages_def\<close>)
  qed
qed

section \<open>The goroutines after \<open>Close\<close>\<close>

text \<open>A step of the sender, \<open>None\<close>, or of a stream, in the given order.\<close>

definition goroutine :: "'b Env \<Rightarrow> (u16 \<Rightarrow> nat \<Rightarrow> bool) \<Rightarrow> u16 option \<Rightarrow> (BConn, unit) parser" where
  "goroutine env pk g = (case g of None \<Rightarrow> bindM (sendMessages env True) (\<lambda>_. returnM ()) | Some sid \<Rightarrow> serverStep env (pk sid) sid)"

fun goroutines :: "'b Env \<Rightarrow> (u16 \<Rightarrow> nat \<Rightarrow> bool) \<Rightarrow> u16 option list \<Rightarrow> (BConn, unit) parser" where
  "goroutines env pk [] = returnM ()"
| "goroutines env pk (g # gs) = thenM (goroutine env pk g) (goroutines env pk gs)"

text \<open>Those of a connection: the sender, if it has not returned, and the streams.\<close>

definition running :: "nat \<Rightarrow> BConn \<Rightarrow> u16 option set" where
  "running n c = {g. case g of None \<Rightarrow> n = 1 | Some sid \<Rightarrow> sid \<in> living c}"

lemma running_alt: "running n c = (if n = 1 then {None} else {}) \<union> Some ` living c"
proof (rule set_eqI)
  fix g show "g \<in> running n c \<longleftrightarrow> g \<in> (if n = 1 then {None} else {}) \<union> Some ` living c"
    by (cases g) (auto simp: running_def)
qed

definition Close_result :: "'b Env \<Rightarrow> BConn \<Rightarrow> unit outcome \<times> BConn" where
  "Close_result env c = (case Conn_Close (env_cb env) (env_write env) (env_now env) (c_conn c) of
     (x, b) \<Rightarrow> (x, c\<lparr>c_close := True, c_outClosed := True, c_conn := b\<rparr>))"

lemma close_done: "c_wg c = 0 \<Longrightarrow> \<not> c_outClosed c \<Longrightarrow> BConn_Close env c = Close_result env c"
  by (simp add: BConn_Close_def Close_result_def bindM_def modifyM_def split: prod.splits)

text \<open>The steps of a server that closes leave the transport as it was, but for its read timeout.\<close>

definition quietly :: "Conn \<Rightarrow> BConn \<Rightarrow> bool" where
  "quietly b c \<longleftrightarrow> \<not> c_isClient c \<and> c_close c \<and> reset b (c_conn c)"

lemma quiet_simple:
  "keeps (quietly b) (updS sid u)" "keeps (quietly b) (fsM m)" "keeps (quietly b) (recvIn p sid)"
  "keeps (quietly b) (selectCtrl p d)" "keeps (quietly b) (selectData p d)" "keeps (quietly b) (modifyM (\<lambda>c. c\<lparr>c_table := t c\<rparr>))"
  "keeps (quietly b) (modifyM (\<lambda>c. c\<lparr>c_wg := w c\<rparr>))" "keeps (quietly b) (modifyM (\<lambda>c. c\<lparr>c_conn := ResetReadTimeout (c_conn c)\<rparr>))"
  "keeps (quietly b) (bindM (getM c_isClient) (\<lambda>k. whenM k n))" "keeps (quietly b) (sendMessages env True)"
  by (auto simp: keeps_alt quietly_def updS_def modifyM_def fsM_def zoomM_def recvIn_def selectCtrl_def selectData_def sendMessages_def
      Let_def bindM_def getM_def whenM_def returnM_def intro: reset_trans split: prod.splits if_splits list.splits)

lemmas quiet_rules = quiet_simple keeping

lemma quiet_withFile: "(\<And>f. keeps (quietly b) (k f)) \<Longrightarrow> keeps (quietly b) (withFile sid k)"
  unfolding withFile_def by (intro quiet_rules)

lemma quiet_fileSize: "keeps (quietly b) (fileSize sid)"
  unfolding fileSize_def by (intro quiet_rules quiet_withFile)

lemma quiet_finish: "keeps (quietly b) (finish env p sid k r)"
  unfolding finish_def CloseStream_def sendClosePacket_def by (intro quiet_rules)

lemma quiet_answer: "keeps (quietly b) (serverAnswer env pk sid req f n)"
  unfolding serverAnswer_def by (intro quiet_rules quiet_finish)

lemma quiet_chunk: "keeps (quietly b) (sendChunk env pk sid d n l)"
  unfolding sendChunk_def updateProgress_def Let_def by (intro quiet_rules quiet_finish)

lemma quiet_steps: "keeps (quietly b) (serverStep env pk sid)"
  unfolding serverStep_def serverReq_def serverNegotiate_def serverStart_def serverChunk_def Let_def
  by (intro quiet_rules quiet_withFile quiet_fileSize quiet_finish quiet_answer quiet_chunk)

lemma quiet_goroutines: "keeps (quietly b) (goroutines env pk gs)"
proof (induction gs)
  case (Cons g gs)
  have "keeps (quietly b) (goroutine env pk g)"
    unfolding goroutine_def by (intro quiet_rules quiet_steps)
  with Cons show ?case by (auto intro: keeping)
qed (simp add: keeping)

section \<open>The end of the transport\<close>

text \<open>Closing the channel of the reader changes what it returns only when there is nothing to deliver.\<close>

lemma recvLoop_flag:
  "recvLoop ch s = (r, s') \<Longrightarrow> recvLoop ch (s\<lparr>chanClosed := z\<rparr>)
    = (case r of Ok d \<Rightarrow> Ok d | Panic p \<Rightarrow> Panic p | _ \<Rightarrow> if z then Err EOF else Block, s'\<lparr>chanClosed := z\<rparr>)"
proof (induction ch s arbitrary: r s' rule: recvLoop.induct)
  case (3 d ch s)
  have "slot (s\<lparr>chanClosed := z\<rparr>) n = slot s n" for z n by (simp add: slot_def)
  moreover have "recvLoop ch (s\<lparr>chanClosed := z, rd_buf := x\<rparr>) = recvLoop ch (s\<lparr>rd_buf := x, chanClosed := z\<rparr>)" for z x
    by (rule arg_cong [where f = "recvLoop ch"]) simp
  ultimately show ?case using 3 by (cases "nextSeqNr s = seqOf d") auto
qed (auto split: if_splits)

lemma drain_flag: "drain (s\<lparr>chanClosed := z\<rparr>) = drain s"
proof (induction s rule: drain.induct)
  case (1 s)
  have slot: "slot (s\<lparr>chanClosed := z\<rparr>) n = slot s n" for n by (simp add: slot_def)
  obtain r s' where N: "Next s = (r, s')" by fastforce
  have "Next (s\<lparr>chanClosed := z\<rparr>) = (case r of Ok d \<Rightarrow> Ok d | Panic p \<Rightarrow> Panic p | _ \<Rightarrow> if z then Err EOF else Block, s'\<lparr>chanClosed := z\<rparr>)"
    using N recvLoop_flag [of "dataChan s" s r s' z] by (auto simp: Next_def Let_def slot split: option.splits if_splits)
  with 1 N show ?case by (cases r) (simp_all add: drain.simps [of s] drain.simps [of "s\<lparr>chanClosed := z\<rparr>"])
qed

text \<open>After the transport was torn down and read to its end, the next message is an error.\<close>

lemma closed_read_fails:
  assumes "teardown b = (Ok (), b')" and "rd_buf (dataReader b) \<noteq> []" and "unread b = []"
  shows "\<exists>b2. readMsg Conn_Read b' = (Err EOF, b2)"
proof -
  have r: "dataReader b' = (dataReader b)\<lparr>chanClosed := True\<rparr>" "readBuf b' = readBuf b"
    using assms(1) by (auto simp: teardown_def Reader_Close_def split: if_splits)
  have "length (readBuf b' @ drain (dataReader b')) < 1" using assms(3) by (simp add: unread_def r drain_flag)
  with r(1) assms(2) obtain x s' where "fillBuf 1 (readBuf b') (dataReader b') = (Err EOF, x, s')"
    using fillBuf_closed [of "dataReader b'" "readBuf b'" 1] by auto
  then show ?thesis by (simp add: readMsg_def readHeader_def bindM_def Conn_Read_def)
qed

text \<open>A transport that is open, can send and has nothing left to read, is closed and torn down.\<close>

definition drained :: "Conn \<Rightarrow> bool" where
  "drained b \<longleftrightarrow> \<not> chansClosed b \<and> \<not> chanClosed (dataReader b) \<and> rd_buf (dataReader b) \<noteq> [] \<and> unread b = []"

lemma drained_reset: "drained b \<Longrightarrow> reset b b' \<Longrightarrow> drained b'"
  by (auto simp: drained_def reset_def unread_def)

context cryptobyte_laws
begin

lemma life_stream:
  assumes "env_cb env = cb" and "\<And>x. returns (env_compress env x)" and l: "life n c"
    and s: "serverStep env pk sid c = (r, c')"
  shows "life n c' \<and> (r = Ok () \<or> r = Block)"
proof (cases "sid \<in> living c")
  case True
  with l have m: "mid n (c_close c) (living c) sid False c" by (simp add: mid_def)
  have "False \<longrightarrow> c_close c \<and> pk 0 \<and> pk 1" by simp
  from safeD [OF safe_serverStep [OF assms(1) this assms(2)] m s] show ?thesis
    by (auto simp: ended_def waiting_def)
next
  case False
  with s l show ?thesis by (simp add: living_def serverStep_def bindM_def getM_def returnM_def)
qed

lemma serving_life:
  assumes "serving env n c" and "env_cb env = cb" and "\<And>x. returns (env_compress env x)"
  shows "life n c"
  using assms(1)
proof induction
  case (serving_message n c p listing m r c')
  then show ?case using life_dispatch by blast
next
  case (serving_pass n c p listing r c')
  then show ?case using life_pass by blast
next
  case (serving_stream n c pk sid r c')
  then show ?case using life_stream [OF assms(2,3)] by blast
next
  case (serving_close n c r c')
  then show ?case using life_close by blast
next
  case (serving_transport n c b)
  then show ?case using same_life [OF same_conn(1)] by blast
qed (use life_new life_sender in \<open>blast+\<close>)

lemma drained_closes:
  assumes "drained b"
  shows "\<exists>b1 b2 b3. Conn_Close cb full_write now b = (Ok (), b1) \<and> teardown b1 = (Ok (), b2) \<and> readMsg Conn_Read b2 = (Err EOF, b3)"
proof -
  let ?m = "closeMessage CloseResonsDisconnect b"
  let ?b1 = "(sent_state now ?m b)\<lparr>closeChan := closeChan b @ [None]\<rparr>"
  have "transmit cb full_write now ?m b = (Ok (length (datagram (peekSeq b) ?m)), sent_state now ?m b)"
    by (rule transmit_full) (simp_all add: closeMessage_def isAckElicitingPacket_def btp_types)
  then have "Conn_Close cb full_write now b = (Ok (), ?b1)"
    using assms by (simp add: Conn_Close_def closeWith_def drained_def sent_state_def set_CC_def)
  moreover have "\<exists>b2. teardown ?b1 = (Ok (), b2)"
    using assms by (simp add: teardown_def Reader_Close_def drained_def sent_state_def set_CC_def)
  moreover have "rd_buf (dataReader ?b1) \<noteq> []" "unread ?b1 = []"
    using assms by (simp_all add: drained_def sent_state_def set_CC_def unread_def)
  ultimately show ?thesis using closed_read_fails [of ?b1] by blast
qed

lemma goroutine_ends:
  assumes "env_cb env = cb" and "\<And>x. returns (env_compress env x)" and l: "life n c" and z: "c_close c"
    and g: "g \<in> running n c" and pk: "\<forall>sid. pk sid 0 \<and> pk sid 1"
  shows "\<exists>m c'. goroutine env pk g c = (Ok (), c') \<and> life m c' \<and> c_close c' \<and> m \<le> n \<and> running m c' = running n c - {g}"
proof (cases g)
  case None
  with g have n: "n = 1" by (simp add: running_def)
  have "goroutine env pk g c = (Ok (), c\<lparr>c_wg := c_wg c - 1\<rparr>)"
    using z None by (simp add: goroutine_def sendMessages_def bindM_def returnM_def)
  moreover have "life 0 (c\<lparr>c_wg := c_wg c - 1\<rparr>)" using l n by (simp add: life_def living_def)
  moreover have "running 0 (c\<lparr>c_wg := c_wg c - 1\<rparr>) = running n c - {g}"
    using None by (auto simp: running_def living_def split: option.splits)
  ultimately show ?thesis using z n by (intro exI [of _ 0]) auto
next
  case (Some sid)
  with g have s: "sid \<in> living c" by (simp add: running_def)
  with l z have m: "mid n True (living c) sid False c" by (simp add: mid_def)
  obtain r c' where e: "serverStep env (pk sid) sid c = (r, c')" by fastforce
  have f: "True \<longrightarrow> True \<and> pk sid 0 \<and> pk sid 1" using pk by simp
  from safeD [OF safe_serverStep [where pk = "pk sid", OF assms(1) f assms(2)] m e]
  have c': "r = Ok ()" "life n c'" "c_close c'" "living c' = living c - {sid}" by (auto simp: ended_def waiting_def)
  then have "running n c' = running n c - {g}" using Some by (auto simp: running_def split: option.splits)
  with c' e Some show ?thesis by (auto simp: goroutine_def)
qed

lemma goroutines_end:
  assumes "env_cb env = cb" and "\<And>x. returns (env_compress env x)" and "life n c" and "c_close c" and "n \<le> 1"
    and "distinct gs" and "set gs = running n c" and "\<forall>sid. pk sid 0 \<and> pk sid 1"
  shows "\<exists>c'. goroutines env pk gs c = (Ok (), c') \<and> life 0 c' \<and> living c' = {}"
  using assms(3-7)
proof (induction gs arbitrary: n c)
  case Nil
  then have "n = 0" "living c = {}" by (auto simp: running_def split: option.splits)
  with Nil show ?case by (simp add: returnM_def)
next
  case (Cons g gs)
  from Cons.prems have "g \<in> running n c" by auto
  from goroutine_ends [OF assms(1,2) Cons.prems(1,2) this assms(8)] obtain m c1
    where c1: "goroutine env pk g c = (Ok (), c1)" "life m c1" "c_close c1" "m \<le> n" "running m c1 = running n c - {g}" by blast
  moreover have "set gs = running m c1" using Cons.prems(4,5) c1(5) by auto
  ultimately show ?case using Cons.IH [of m c1] Cons.prems(3,4) by (simp add: bindM_def)
qed

end

end
