(* ===== verification/Cli.thy ===== *)
theory Cli
  imports Brft_Conn
begin

text \<open>
  src/cli: the actions of the three commands and what ParseArgs makes of them. The command line
  library decides which action runs and with which arguments; that is an argument here. The
  parsing of numbers and of hexadecimal digits is that of the standard library.
\<close>

section \<open>Arguments (client_args.go, server_args.go)\<close>

datatype OperationMode = ModeServer | ModeClient

datatype ClientCommand = FileRequest | MetaDataRequest

record ClientArgs =
  ca_Command :: ClientCommand
  ca_DownloadFiles :: "gostring \<rightharpoonup> byte list"
  ca_DownloadDir :: gostring
  ca_ServerAddr :: gostring
  ca_UseCompression :: bool

record ServerArgs =
  ServeDir :: gostring
  Port :: int

datatype OperationArgs = OfServer ServerArgs | OfClient ClientArgs

fun GetOperationMode :: "OperationArgs \<Rightarrow> OperationMode" where
  "GetOperationMode (OfServer a) = ModeServer"
| "GetOperationMode (OfClient a) = ModeClient"

record Args =
  TestMode :: bool
  OperationArgs :: OperationArgs

section \<open>The standard library\<close>

text \<open>\<open>strconv.Atoi\<close>: an optional sign and decimal digits, within 64 bits.\<close>

definition decDigit :: "byte \<Rightarrow> nat option" where
  "decDigit c = (if 0x30 \<le> c \<and> c \<le> 0x39 then Some (unat (c - 0x30)) else None)"

fun decValue :: "nat \<Rightarrow> gostring \<Rightarrow> nat option" where
  "decValue acc [] = Some acc"
| "decValue acc (c # cs) = (case decDigit c of None \<Rightarrow> None | Some d \<Rightarrow> decValue (10 * acc + d) cs)"

definition Atoi :: "gostring \<Rightarrow> int outcome" where
  "Atoi s = (let neg = s \<noteq> [] \<and> hd s = 0x2D;
       digits = (if s \<noteq> [] \<and> (hd s = 0x2D \<or> hd s = 0x2B) then tl s else s)
     in if digits = [] then Err (New ''invalid syntax'')
        else case decValue 0 digits of
            None \<Rightarrow> Err (New ''invalid syntax'')
          | Some n \<Rightarrow> (let v = (if neg then - int n else int n)
              in if - (2 ^ 63) \<le> v \<and> v < 2 ^ 63 then Ok v else Err (New ''value out of range'')))"

text \<open>\<open>hex.DecodeString\<close>.\<close>

definition hexDigit :: "byte \<Rightarrow> byte option" where
  "hexDigit c = (if 0x30 \<le> c \<and> c \<le> 0x39 then Some (c - 0x30)
     else if 0x61 \<le> c \<and> c \<le> 0x66 then Some (c - 0x61 + 10)
     else if 0x41 \<le> c \<and> c \<le> 0x46 then Some (c - 0x41 + 10)
     else None)"

fun hexDecode :: "gostring \<Rightarrow> byte list outcome" where
  "hexDecode [] = Ok []"
| "hexDecode [c] = (case hexDigit c of None \<Rightarrow> Err (New ''encoding/hex: invalid byte'')
     | Some d \<Rightarrow> Err (New ''encoding/hex: odd length hex string''))"
| "hexDecode (a # b # cs) = (case (hexDigit a, hexDigit b) of
       (Some x, Some y) \<Rightarrow> bindO (hexDecode cs) (\<lambda>bs. Ok ((push_bit 4 x OR y) # bs))
     | _ \<Rightarrow> Err (New ''encoding/hex: invalid byte''))"

text \<open>\<open>strings.FieldsFunc\<close> for one separator: the longest pieces without it.\<close>

function fields :: "byte \<Rightarrow> gostring \<Rightarrow> gostring list" where
  "fields sep s = (let s = dropWhile (\<lambda>c. c = sep) s in
     if s = [] then [] else takeWhile (\<lambda>c. c \<noteq> sep) s # fields sep (dropWhile (\<lambda>c. c \<noteq> sep) s))"
  by pat_completeness auto
termination
proof (relation "measure (\<lambda>(sep, s). length s)")
  fix sep :: byte and s x :: gostring
  assume x: "x = dropWhile (\<lambda>c. c = sep) s" "x \<noteq> []"
  then have "hd x \<noteq> sep" using hd_dropWhile [of "\<lambda>c. c = sep" s] by auto
  with x(2) have "length (dropWhile (\<lambda>c. c \<noteq> sep) x) < length x"
    by (cases x) (auto intro: le_imp_less_Suc length_dropWhile_le)
  also have "length x \<le> length s" using x(1) by (simp add: length_dropWhile_le)
  finally show "((sep, dropWhile (\<lambda>c. c \<noteq> sep) x), (sep, s)) \<in> measure (\<lambda>(sep, s). length s)" by simp
qed simp

declare fields.simps [simp del]

section \<open>The actions (args.go)\<close>

definition serveAction :: "gostring list \<Rightarrow> ServerArgs outcome" where
  "serveAction args = (case args of
       [dir, port] \<Rightarrow> if dir = [] then Err (New ''[DIR] may not be empty'')
         else (case Atoi port of
             Ok p \<Rightarrow> Ok \<lparr>ServeDir = dir, Port = p\<rparr>
           | Err e \<Rightarrow> Err (Errorf ''parsing [PORT] failed'' (Some e))
           | Block \<Rightarrow> Block | Panic q \<Rightarrow> Panic q)
     | _ \<Rightarrow> Err (New ''[DIR] [PORT] required''))"

definition noChecksum :: "byte list" where
  "noChecksum = replicate ChecksumSize 0"

definition metadataAction :: "gostring list \<Rightarrow> ClientArgs outcome" where
  "metadataAction args =
     (let with = (\<lambda>name addr. if addr = [] then Err (New ''[SERVER ADDRESS] required: must be non-empty'')
          else Ok \<lparr>ca_Command = MetaDataRequest, ca_DownloadFiles = [name \<mapsto> noChecksum], ca_DownloadDir = [],
            ca_ServerAddr = addr, ca_UseCompression = DefaultCompressionEnabled\<rparr>)
      in case args of
          [addr] \<Rightarrow> with [] addr
        | [name, addr] \<Rightarrow> with name addr
        | _ \<Rightarrow> Err (New ''[SERVER ADDRESS] required''))"

text \<open>One argument \<open>FILE:CHECKSUM\<close>.\<close>

definition fileArg :: "gostring \<Rightarrow> (gostring \<times> byte list) outcome" where
  "fileArg arg =
     (if arg = [] then Err (New ''error parsing [FILE:CHECKSUM]: may not be set as empty'')
      else if hd arg = 0x3A then Err (New ''error parsing [FILE:CHECKSUM]: FILE may not be empty'')
      else case fields 0x3A arg of
          [name] \<Rightarrow> Ok (name, noChecksum)
        | [name, digits] \<Rightarrow> bindO (hexDecode digits) (\<lambda>checksum.
            if length checksum \<noteq> ChecksumSize then Err (New ''error parsing CHECKSUM'') else Ok (name, checksum))
        | _ \<Rightarrow> Err (New ''error parsing FILE: ':' is NOT allowed as part of the file name''))"

fun fileArgs :: "(gostring \<rightharpoonup> byte list) \<Rightarrow> gostring list \<Rightarrow> (gostring \<rightharpoonup> byte list) outcome" where
  "fileArgs m [] = Ok m"
| "fileArgs m (arg # args) = bindO (fileArg arg) (\<lambda>(name, checksum). fileArgs (m(name \<mapsto> checksum)) args)"

definition fileAction :: "bool \<Rightarrow> gostring list \<Rightarrow> ClientArgs outcome" where
  "fileAction disableCompression args =
     (if length args < 3 then Err (New ''[FILE:CHECKSUM(optional) | ...] [DOWNLOAD DIR] [SERVER ADDRESS] required'')
      else bindO (fileArgs Map.empty (take (length args - 2) args)) (\<lambda>files.
        Ok \<lparr>ca_Command = FileRequest, ca_DownloadFiles = files, ca_DownloadDir = args ! (length args - 2),
          ca_ServerAddr = args ! (length args - 1), ca_UseCompression = \<not> disableCompression\<rparr>))"

text \<open>
  What the command line library runs: one of the actions, the action of the program itself
  (with the debug flag and its arguments), or nothing, with or without an error.
\<close>

datatype Selected = Serve "gostring list" | Metadata "gostring list" | GetFile bool "gostring list"
  | App bool "gostring list" | Nothing "go_error option"

text \<open>The help words are \<open>help\<close>, \<open>h\<close>, \<open>--help\<close> and \<open>-h\<close>.\<close>

definition helpWords :: "gostring list" where
  "helpWords = [[0x68, 0x65, 0x6C, 0x70], [0x68], [0x2D, 0x2D, 0x68, 0x65, 0x6C, 0x70], [0x2D, 0x68]]"

definition HelpError :: go_error where
  "HelpError = New ''helpErr''"

definition ParseArgs :: "Selected \<Rightarrow> gostring list \<Rightarrow> Args outcome" where
  "ParseArgs sel osArgs =
     (let none = (if 2 \<le> length osArgs \<and> last osArgs \<in> set helpWords then Err HelpError
          else Err (New ''error parsing args: given command unknown''))
      in case sel of
          Serve args \<Rightarrow> bindO (serveAction args) (\<lambda>a. Ok \<lparr>TestMode = False, OperationArgs = OfServer a\<rparr>)
        | Metadata args \<Rightarrow> bindO (metadataAction args) (\<lambda>a. Ok \<lparr>TestMode = False, OperationArgs = OfClient a\<rparr>)
        | GetFile c args \<Rightarrow> bindO (fileAction c args) (\<lambda>a. Ok \<lparr>TestMode = False, OperationArgs = OfClient a\<rparr>)
        | App debug args \<Rightarrow> if args = [] then Err (New ''no Command specified'') else none
        | Nothing (Some e) \<Rightarrow> Err e
        | Nothing None \<Rightarrow> none)"

section \<open>Printing and parsing\<close>

definition hexChar :: "byte \<Rightarrow> byte" where
  "hexChar d = (if d < 10 then d + 0x30 else d - 10 + 0x61)"

definition hexEncode :: "byte list \<Rightarrow> gostring" where
  "hexEncode bs = concat (map (\<lambda>b. [hexChar (drop_bit 4 b), hexChar (b AND 15)]) bs)"

lemma hexDigits_hexChars: "list_all (\<lambda>n. hexDigit (hexChar (of_nat n)) = Some (of_nat n)) [0..<16]"
  by code_simp

lemma hexDigit_hexChar: "d < 16 \<Longrightarrow> hexDigit (hexChar d) = Some d"
proof -
  assume "d < 16"
  then have "unat d \<in> set [0..<16]" by (simp add: word_less_nat_alt)
  then have "hexDigit (hexChar (of_nat (unat d))) = Some (of_nat (unat d))"
    using hexDigits_hexChars unfolding list_all_iff by blast
  then show ?thesis by simp
qed

lemma nibbles: "drop_bit 4 (b :: byte) < 16" "b AND 15 < 16" "push_bit 4 (drop_bit 4 b) OR (b AND 15) = b"
proof -
  have m: "(15 :: byte) = mask 4" by (simp add: mask_eq_exp_minus_1)
  have "unat b < 256" using unsigned_less [of b] by simp
  moreover have "unat (drop_bit 4 b) = drop_bit 4 (unat b)" by (rule unat_drop_bit_eq)
  ultimately show "drop_bit 4 b < 16" by (simp add: word_less_nat_alt drop_bit_eq_div)
  have "unat (take_bit 4 b) = take_bit 4 (unat b)" by (rule unsigned_take_bit_eq)
  then show "b AND 15 < 16"
    unfolding m take_bit_eq_mask [symmetric] by (simp add: word_less_nat_alt take_bit_eq_mod)
  show "push_bit 4 (drop_bit 4 b) OR (b AND 15) = b"
    unfolding m take_bit_eq_mask [symmetric] by (rule bit_word_eqI) (auto simp: bit_simps)
qed

lemma hexDecode_hexEncode: "hexDecode (hexEncode bs) = Ok bs"
  by (induction bs) (simp_all add: hexEncode_def hexDigit_hexChar nibbles)

lemma hexEncode_no_colon: "0x3A \<notin> set (hexEncode bs)"
proof -
  have "hexChar d \<noteq> 0x3A" if "d < 16" for d
    using hexDigit_hexChar [OF that] by (auto simp: hexDigit_def)
  then show ?thesis by (auto simp: hexEncode_def nibbles)
qed

lemma fields_one: "s \<noteq> [] \<Longrightarrow> sep \<notin> set s \<Longrightarrow> fields sep s = [s]"
proof -
  assume s: "s \<noteq> []" "sep \<notin> set s"
  then have d: "dropWhile (\<lambda>c. c = sep) s = s" by (cases s) auto
  have t: "takeWhile (\<lambda>c. c \<noteq> sep) s = s" "dropWhile (\<lambda>c. c \<noteq> sep) s = []"
    using s(2) by (auto simp: takeWhile_eq_all_conv dropWhile_eq_Nil_conv)
  have n: "fields sep [] = []" by (simp add: fields.simps)
  have "fields sep s = takeWhile (\<lambda>c. c \<noteq> sep) s # fields sep (dropWhile (\<lambda>c. c \<noteq> sep) s)"
    using s(1) d by (subst fields.simps) (simp add: Let_def)
  then show ?thesis unfolding t n .
qed

lemma fields_two: "a \<noteq> [] \<Longrightarrow> b \<noteq> [] \<Longrightarrow> sep \<notin> set a \<Longrightarrow> sep \<notin> set b \<Longrightarrow> fields sep (a @ sep # b) = [a, b]"
proof -
  assume a: "a \<noteq> []" "sep \<notin> set a" and b: "b \<noteq> []" "sep \<notin> set b"
  have "fields sep (sep # b) = fields sep b" by (subst (1 2) fields.simps) simp
  with fields_one [OF b] have t: "fields sep (sep # b) = [b]" by simp
  from a have "dropWhile (\<lambda>c. c = sep) (a @ sep # b) = a @ sep # b" by (cases a) auto
  moreover have "takeWhile (\<lambda>c. c \<noteq> sep) (a @ sep # b) = a" "dropWhile (\<lambda>c. c \<noteq> sep) (a @ sep # b) = sep # b"
    using a(2) by (auto simp: takeWhile_append takeWhile_eq_all_conv dropWhile_append)
  ultimately show ?thesis using t by (simp add: fields.simps [of sep "a @ sep # b"])
qed

text \<open>An argument as the user writes it.\<close>

definition fileText :: "gostring \<times> byte list option \<Rightarrow> gostring" where
  "fileText p = (case snd p of None \<Rightarrow> fst p | Some cs \<Rightarrow> fst p @ 0x3A # hexEncode cs)"

definition file_ok :: "gostring \<times> byte list option \<Rightarrow> bool" where
  "file_ok p \<longleftrightarrow> fst p \<noteq> [] \<and> 0x3A \<notin> set (fst p) \<and> (\<forall>cs. snd p = Some cs \<longrightarrow> length cs = ChecksumSize)"

definition checksumOf :: "gostring \<times> byte list option \<Rightarrow> byte list" where
  "checksumOf p = (case snd p of None \<Rightarrow> noChecksum | Some cs \<Rightarrow> cs)"

lemma fileArg_text: "file_ok p \<Longrightarrow> fileArg (fileText p) = Ok (fst p, checksumOf p)"
proof -
  assume ok: "file_ok p"
  obtain name cs where p: "p = (name, cs)" by (cases p)
  have n: "name \<noteq> []" "0x3A \<notin> set name" using ok p by (auto simp: file_ok_def)
  then have h: "hd name \<noteq> 0x3A" by (cases name) auto
  show ?thesis
  proof (cases cs)
    case None
    with p n h show ?thesis by (simp add: fileArg_def fileText_def fields_one checksumOf_def)
  next
    case (Some x)
    with ok p have "length x = ChecksumSize" by (simp add: file_ok_def)
    moreover from this have "hexEncode x \<noteq> []" by (cases x) (auto simp: hexEncode_def)
    ultimately show ?thesis
      using p n h Some by (simp add: fileArg_def fileText_def fields_two hexEncode_no_colon hexDecode_hexEncode checksumOf_def)
  qed
qed

lemma fileArgs_texts: "list_all file_ok ps \<Longrightarrow>
    fileArgs m (map fileText ps) = Ok (m ++ map_of (rev (map (\<lambda>p. (fst p, checksumOf p)) ps)))"
  by (induction ps arbitrary: m) (simp_all add: fileArg_text)

lemma fileAction_texts:
  "ps \<noteq> [] \<Longrightarrow> list_all file_ok ps \<Longrightarrow> fileAction c (map fileText ps @ [dir, addr]) =
     Ok \<lparr>ca_Command = FileRequest, ca_DownloadFiles = map_of (rev (map (\<lambda>p. (fst p, checksumOf p)) ps)),
       ca_DownloadDir = dir, ca_ServerAddr = addr, ca_UseCompression = \<not> c\<rparr>"
  using fileArgs_texts [of ps Map.empty] by (simp add: fileAction_def nth_append numeral_3_eq_3)

text \<open>The debug flag is only read by the action of the program, which never makes arguments.\<close>

lemma debug_without_effect: "ParseArgs sel osArgs = Ok a \<Longrightarrow> \<not> TestMode a"
  by (cases sel) (auto simp: ParseArgs_def Let_def split: outcome.splits option.splits if_splits)

end
