(* ===== verification/Logging.thy ===== *)
theory Logging
  imports Brft_Client
begin

text \<open>
  What the program says: the names of messages and close reasons, the fields of log entries
  (brft/log.go, btp/log.go, brft/messages/log.go), the progress log (brft/log.go) and the set-up of
  the loggers (src/log/logger.go). The logging library is outside: a configuration is the record of
  the fields the code assigns, and a logged line the record of its message and fields.
\<close>

section \<open>Text\<close>

definition ascii :: "string \<Rightarrow> gostring" where
  "ascii s = map of_char s"

text \<open>\<open>strconv.Itoa\<close> and the verb \<open>%d\<close>.\<close>

fun decimal :: "nat \<Rightarrow> gostring" where
  "decimal n = (if n < 10 then [0x30 + of_nat n] else decimal (n div 10) @ [0x30 + of_nat (n mod 10)])"

declare decimal.simps [simp del]

definition itoa :: "int \<Rightarrow> gostring" where
  "itoa i = (if i < 0 then 0x2D # decimal (nat (- i)) else decimal (nat i))"

section \<open>Names (brft/messages)\<close>

definition CloseReasonNotEnoughSpace :: byte where "CloseReasonNotEnoughSpace = 4"
definition CloseReasonInvalidFlags :: byte where "CloseReasonInvalidFlags = 5"
definition CloseReasonStreamIDTaken :: byte where "CloseReasonStreamIDTaken = 10"

definition closeReasonToString :: "byte \<Rightarrow> string option" where
  "closeReasonToString = map_of
    [(CloseReasonUndefined, ''Undefined''),
     (CloseReasonTransferComplete, ''Transfer Complete''),
     (CloseReasonChecksumInvalid, ''Checksum Invalid''),
     (CloseReasonInvalidOffset, ''Invalid Offset''),
     (CloseReasonNotEnoughSpace, ''Not Enough Space''),
     (CloseReasonInvalidFlags, ''Invalid Flags''),
     (CloseReasonResumeNoChecksum, ''Resume No Checksum''),
     (CloseReasonFileNotFound, ''File Not Found''),
     (CloseReasonUnsupportedOptionalHeader, ''Unsupported Optional Header''),
     (CloseReasonUnexpectedOptionalHeader, ''Unexpected Optional Header''),
     (CloseReasonStreamIDTaken, ''Stream ID Taken'')]"

definition CloseReason_String :: "byte \<Rightarrow> string" where
  "CloseReason_String r = (case closeReasonToString r of None \<Rightarrow> ''unknown'' | Some s \<Rightarrow> s)"

definition StreamID_String :: "u16 \<Rightarrow> gostring" where
  "StreamID_String s = itoa (uint s)"

definition FileReq_Name :: "FileReq \<Rightarrow> gostring" where "FileReq_Name m = ascii ''FileReq''"
definition FileResp_Name :: "FileResp \<Rightarrow> gostring" where "FileResp_Name m = ascii ''FileResp''"
definition Data_Name :: "BData \<Rightarrow> gostring" where "Data_Name m = ascii ''Data len='' @ decimal (length (bd_Data m))"
definition StartTransmission_Name :: "StartTransmission \<Rightarrow> gostring" where
  "StartTransmission_Name m = ascii ''StartTransmission''"
definition Close_Name :: "BClose \<Rightarrow> gostring" where
  "Close_Name m = ascii ''Close Reason='' @ decimal (unat (bc_Reason m)) @ ascii '', StreamID='' @ decimal (unat (bc_StreamID m))"
definition MetaReq_Name :: "MetaReq \<Rightarrow> gostring" where "MetaReq_Name m = ascii ''MetaItemReq''"
definition MetaResp_Name :: "MetaResp \<Rightarrow> gostring" where "MetaResp_Name m = ascii ''MetaResp''"

fun BRFTMessage_Name :: "BRFTMessage \<Rightarrow> gostring" where
  "BRFTMessage_Name (BFileReq m) = FileReq_Name m"
| "BRFTMessage_Name (BFileResp m) = FileResp_Name m"
| "BRFTMessage_Name (BDataMsg m) = Data_Name m"
| "BRFTMessage_Name (BStart m) = StartTransmission_Name m"
| "BRFTMessage_Name (BCloseMsg m) = Close_Name m"
| "BRFTMessage_Name (BMetaReq m) = MetaReq_Name m"
| "BRFTMessage_Name (BMetaResp m) = MetaResp_Name m"

text \<open>The reorder buffer as the code draws it, a cross for a slot in use.\<close>

fun slotMarks :: "'a option list \<Rightarrow> string" where
  "slotMarks [] = ''''"
| "slotMarks [v] = (if v = None then '' '' else ''x'')"
| "slotMarks (v # vs) = (if v = None then '' '' else ''x'') @ '' | '' @ slotMarks vs"

definition Reader_String :: "sequentialDataReader \<Rightarrow> string" where
  "Reader_String s = ''[ '' @ slotMarks (rd_buf s) @ '']''"

section \<open>Fields (log.go)\<close>

datatype zapField = StringField string gostring | Uint8Field string byte | Uint16Field string u16

definition FPeer :: "gostring \<Rightarrow> zapField" where "FPeer peer = StringField ''peer'' peer"
definition FComponent :: "gostring \<Rightarrow> zapField" where "FComponent component = StringField ''component'' component"

text \<open>The argument is the address in its textual form.\<close>

definition FAddr :: "gostring \<Rightarrow> zapField" where "FAddr addr = StringField ''addr'' addr"

definition FHeaderProtocolVersion :: "byte \<Rightarrow> zapField" where
  "FHeaderProtocolVersion v = Uint8Field ''version'' v"
definition FHeaderMessageType :: "byte \<Rightarrow> zapField" where
  "FHeaderMessageType t = Uint8Field ''message_type'' t"
definition FHeaderMessageTypeString :: "byte \<Rightarrow> zapField" where
  "FHeaderMessageTypeString t = StringField ''message_type_name'' (ascii (MessageType_String t))"
definition FSequenceNumber :: "u16 \<Rightarrow> zapField" where
  "FSequenceNumber seq = Uint16Field ''seq_nr'' seq"
definition FOptionalHeaderType :: "byte \<Rightarrow> zapField" where
  "FOptionalHeaderType optType = Uint8Field ''header_type'' optType"

section \<open>Progress (brft/log.go)\<close>

text \<open>
  \<open>minProgressDelta\<close> is 0.05 as a \<open>float32\<close>, \<open>13421773 / 2 ^ 28\<close>; the step is the product of two
  \<open>float32\<close> values, truncated.
\<close>

definition progressStep :: "u64 \<Rightarrow> u64" where
  "progressStep tot = of_nat (rnd_sig 24 (13421773 * rnd_sig 24 (unat tot)) div 2 ^ 28)"

text \<open>
  \<open>float32(a) / float32(b) * 100\<close> at the scale \<open>2 ^ 97\<close>: the quotient is taken with enough digits
  and a sticky bit, each operation is rounded. The verb rounds the exact value to hundredths,
  ties to even.
\<close>

definition f32_percent :: "nat \<Rightarrow> nat \<Rightarrow> nat" where
  "f32_percent a b = (let x = rnd_sig 24 a * 2 ^ 96; y = rnd_sig 24 b
     in rnd_sig 24 (100 * rnd_sig 24 (2 * (x div y) + (if x mod y = 0 then 0 else 1))))"

definition hundredths :: "nat \<Rightarrow> nat" where
  "hundredths v = round_shift 97 (100 * v) div 2 ^ 97"

definition percentText :: "u64 \<Rightarrow> u64 \<Rightarrow> gostring" where
  "percentText transmitted tot =
     (if tot = 0 then (if transmitted = 0 then ascii ''NaN'' else ascii ''+Inf'')
      else let c = hundredths (f32_percent (unat transmitted) (unat tot))
        in decimal (c div 100) @ [0x2E, 0x30 + of_nat (c div 10 mod 10), 0x30 + of_nat (c mod 10)]) @ ascii ''%''"

datatype ProgressMessage = InitialProgress | CurrentProgress

record LogLine =
  ll_message :: ProgressMessage
  ll_file_name :: gostring
  ll_transmitted :: u64
  ll_total :: u64
  ll_progress :: gostring

definition progressLine :: "ProgressMessage \<Rightarrow> gostring \<Rightarrow> u64 \<times> u64 \<Rightarrow> LogLine" where
  "progressLine m name prog = (case prog of (tot, transmitted) \<Rightarrow>
     \<lparr>ll_message = m, ll_file_name = name, ll_transmitted = transmitted, ll_total = tot,
      ll_progress = percentText transmitted tot\<rparr>)"

text \<open>The loop after the first value; a value is a pair of the total and the transmitted bytes.\<close>

fun currentProgress :: "gostring \<Rightarrow> u64 \<Rightarrow> u64 \<Rightarrow> (u64 \<times> u64) list \<Rightarrow> LogLine list" where
  "currentProgress name logStep prev [] = []"
| "currentProgress name logStep prev (prog # progs) =
     (if snd prog > prev + logStep
      then progressLine CurrentProgress name prog # currentProgress name logStep (snd prog) progs
      else currentProgress name logStep prev progs)"

text \<open>
  The goroutine of one file, with the values it receives: the step computed from the first
  value is a variable of the inner block, the outer one stays 0. It returns when the channel
  is closed.
\<close>

definition progressLoop :: "gostring \<Rightarrow> u64 \<Rightarrow> (u64 \<times> u64) list \<Rightarrow> LogLine list" where
  "progressLoop name start progs =
     (let prevTransmitted = start; logStep = 0
      in case progs of
          [] \<Rightarrow> currentProgress name logStep prevTransmitted []
        | prog # rest \<Rightarrow>
            (let inner = progressStep (fst prog)
             in if snd prog > prevTransmitted + inner
                then progressLine InitialProgress name prog # currentProgress name logStep (snd prog) rest
                else currentProgress name logStep prevTransmitted rest))"

text \<open>
  The lines of each goroutine, and whether the wait for all of them ends: \<open>chan\<close> gives the
  values on the channel of a download and whether it is closed.
\<close>

definition LogMultipleProgresses ::
  "(gostring \<times> DownloadInfo) list \<Rightarrow> (gostring \<Rightarrow> (u64 \<times> u64) list \<times> bool) \<Rightarrow> LogLine list list \<times> unit outcome" where
  "LogMultipleProgresses infos chan =
     (map (\<lambda>(name, info). progressLoop name (StartOffset info) (fst (chan name))) infos,
      if list_all (\<lambda>(name, info). snd (chan name)) infos then Ok () else Block)"

definition LogProgress ::
  "gostring \<Rightarrow> DownloadInfo \<Rightarrow> (gostring \<Rightarrow> (u64 \<times> u64) list \<times> bool) \<Rightarrow> LogLine list list \<times> unit outcome" where
  "LogProgress name info chan = LogMultipleProgresses [(name, info)] chan"

text \<open>\<open>ConsumeProgress\<close> takes what is sent and returns when all channels are closed.\<close>

definition ConsumeProgress :: "bool list \<Rightarrow> unit outcome" where
  "ConsumeProgress closed = (if list_all (\<lambda>c. c) closed then Ok () else Block)"

lemma remdups_adj_above: "sorted (t # us) \<Longrightarrow> remdups_adj (t # us) = t # remdups_adj (filter (\<lambda>u. t < u) us)"
  for t :: u64
proof (induction us)
  case (Cons u us)
  show ?case
  proof (cases "t = u")
    case False
    with Cons.prems have "t < u" "filter (\<lambda>x. t < x) us = us" by (auto simp: filter_id_conv)
    then show ?thesis by simp
  qed (use Cons in auto)
qed simp

text \<open>A growing sequence of values is logged without repetitions, from the first one above the start on.\<close>

lemma currentProgress_sorted:
  "sorted (map snd ps) \<Longrightarrow>
    map ll_transmitted (currentProgress name 0 prev ps) = remdups_adj (filter (\<lambda>t. prev < t) (map snd ps))"
proof (induction ps arbitrary: prev)
  case (Cons p ps)
  show ?case
  proof (cases "prev < snd p")
    case True
    with Cons.prems have "filter (\<lambda>t. prev < t) (map snd ps) = map snd ps"
      by (auto simp: filter_id_conv)
    with True Cons remdups_adj_above [of "snd p" "map snd ps"] show ?thesis
      by (simp add: progressLine_def split: prod.splits)
  qed (use Cons in simp)
qed simp

section \<open>Loggers (log/logger.go)\<close>

record LogOptions =
  lo_color :: bool
  lo_prettyNewLine :: bool
  lo_prod :: bool
  lo_client :: bool

definition NewLogOptions :: LogOptions where
  "NewLogOptions = \<lparr>lo_color = True, lo_prettyNewLine = True, lo_prod = False, lo_client = False\<rparr>"

definition WithColor :: "bool \<Rightarrow> LogOptions \<Rightarrow> LogOptions" where "WithColor v opt = opt\<lparr>lo_color := v\<rparr>"
definition WithProd :: "bool \<Rightarrow> LogOptions \<Rightarrow> LogOptions" where "WithProd v opt = opt\<lparr>lo_prod := v\<rparr>"
definition WithClient :: "bool \<Rightarrow> LogOptions \<Rightarrow> LogOptions" where "WithClient v opt = opt\<lparr>lo_client := v\<rparr>"

text \<open>A preset of the library with the fields that are assigned, \<open>None\<close> where it keeps its own.\<close>

datatype Preset = DevelopmentConfig | ProductionConfig

record LogConfig =
  lc_preset :: Preset
  lc_Encoding :: "string option"
  lc_EncodeTime :: "string option"
  lc_EncodeDuration :: "string option"
  lc_EncodeLevel :: "string option"

text \<open>The configuration that \<open>NewLogger\<close> builds the logger from.\<close>

definition NewLogger :: "(LogOptions \<Rightarrow> LogOptions) list \<Rightarrow> LogConfig" where
  "NewLogger opts = (let lo = fold (\<lambda>opt. opt) opts NewLogOptions;
     conf = \<lparr>lc_preset = (if lo_prod lo then ProductionConfig else DevelopmentConfig), lc_Encoding = None,
       lc_EncodeTime = None, lc_EncodeDuration = None, lc_EncodeLevel = None\<rparr>;
     conf = (if lo_client lo
       then conf\<lparr>lc_Encoding := Some ''console'', lc_EncodeTime := Some ''15:04:05.000000'',
         lc_EncodeDuration := Some ''StringDurationEncoder''\<rparr> else conf);
     conf = (if lo_color lo then conf\<lparr>lc_EncodeLevel := Some ''CapitalColorLevelEncoder''\<rparr> else conf)
   in if lo_prettyNewLine lo then conf\<lparr>lc_Encoding := Some ''pretty-console''\<rparr> else conf)"

text \<open>Its encoder writes the escape sequence for a line break as a line break.\<close>

fun replaceNewLines :: "gostring \<Rightarrow> gostring" where
  "replaceNewLines (a # b # s) =
     (if a = 0x5C \<and> b = 0x6E then 0x0A # replaceNewLines s else a # replaceNewLines (b # s))"
| "replaceNewLines s = s"

definition EncodeEntry :: "gostring outcome \<Rightarrow> gostring outcome" where
  "EncodeEntry encoded = bindO encoded (\<lambda>b. Ok (replaceNewLines b))"

text \<open>No option turns the line breaks off, and no escape sequence is left.\<close>

lemma NewLogger_pretty:
  assumes "set opts \<subseteq> range WithColor \<union> range WithProd \<union> range WithClient"
  shows "lc_Encoding (NewLogger opts) = Some ''pretty-console''"
proof -
  have "lo_prettyNewLine (fold (\<lambda>opt. opt) opts lo) = lo_prettyNewLine lo" for lo
    using assms by (induction opts arbitrary: lo) (auto simp: WithColor_def WithProd_def WithClient_def)
  then show ?thesis by (simp add: NewLogger_def Let_def NewLogOptions_def)
qed

lemma replaceNewLines_hd: "replaceNewLines (a # s) \<noteq> [] \<and> hd (replaceNewLines (a # s)) \<in> {a, 0x0A}"
  by (cases s) auto

lemma replaceNewLines_none_left: "replaceNewLines s \<noteq> xs @ 0x5C # 0x6E # ys"
proof (induction s arbitrary: xs rule: replaceNewLines.induct)
  case (1 a b s)
  show ?case
  proof (cases "a = 0x5C \<and> b = 0x6E")
    case True
    then show ?thesis using 1(1) by (cases xs) auto
  next
    case False
    then show ?thesis using 1(2) replaceNewLines_hd [of b s]
      by (cases xs; cases "replaceNewLines (b # s)") auto
  qed
qed (auto simp: Cons_eq_append_conv)

end
