(* ===== verification/Main_Program.thy ===== *)
theory Main_Program
  imports Cli Logging
begin

text \<open>
  src/main.go and src/brft/compression/gzip.go: the loggers, the two ways the program runs, what it
  prints, and the compressor the connections use. A fatal log entry, which ends the program with status
  1, is an error; the order in which the map of files is gone through is an argument.
\<close>

section \<open>The gzip compressor (brft/compression/gzip.go)\<close>

text \<open>
  What the code asks of the gzip package, for one chunk: copying it to a writer and closing the
  writer, each with the bytes in the buffer afterwards; opening a reader on compressed bytes,
  copying out of it and closing it.
\<close>

record gzip =
  gz_copyIn :: "byte list \<Rightarrow> unit outcome \<times> byte list"
  gz_closeWriter :: "byte list \<Rightarrow> unit outcome \<times> byte list"
  gz_newReader :: "byte list \<Rightarrow> unit outcome"
  gz_copyOut :: "byte list \<Rightarrow> unit outcome \<times> byte list"
  gz_closeReader :: "byte list \<Rightarrow> unit outcome"

text \<open>The error of a \<open>Close\<close> is a variable of its own block: it is logged and not returned.\<close>

definition logged :: "unit outcome \<Rightarrow> 'a \<Rightarrow> 'a outcome" where
  "logged res buf = (case res of Ok _ \<Rightarrow> Ok buf | Err e \<Rightarrow> Ok buf | Block \<Rightarrow> Block | Panic p \<Rightarrow> Panic p)"

definition Compress :: "gzip \<Rightarrow> byte list \<Rightarrow> byte list outcome" where
  "Compress gz chunk = bindO (fst (gz_copyIn gz chunk)) (\<lambda>_.
     case gz_closeWriter gz chunk of (res, buf) \<Rightarrow> logged res buf)"

definition Decompress :: "gzip \<Rightarrow> byte list \<Rightarrow> byte list outcome" where
  "Decompress gz chunk = bindO (gz_newReader gz chunk) (\<lambda>_.
     case gz_copyOut gz chunk of (res, buf) \<Rightarrow> bindO res (\<lambda>_. logged (gz_closeReader gz chunk) buf))"

text \<open>What the package documents: writing into a buffer succeeds, and what was written is read back.\<close>

definition gzip_ok :: "gzip \<Rightarrow> bool" where
  "gzip_ok gz \<longleftrightarrow> (\<forall>x. fst (gz_copyIn gz x) = Ok () \<and> (\<exists>d. gz_closeWriter gz x = (Ok (), d)
     \<and> gz_newReader gz d = Ok () \<and> gz_copyOut gz d = (Ok (), x) \<and> gz_closeReader gz d = Ok ()))"

lemma Decompress_Compress: "gzip_ok gz \<Longrightarrow> \<exists>d. Compress gz x = Ok d \<and> Decompress gz d = Ok x"
proof -
  assume "gzip_ok gz"
  then obtain d where "fst (gz_copyIn gz x) = Ok ()" "gz_closeWriter gz x = (Ok (), d)"
      "gz_newReader gz d = Ok ()" "gz_copyOut gz d = (Ok (), x)" "gz_closeReader gz d = Ok ()"
    unfolding gzip_ok_def by blast
  then show ?thesis by (simp add: Compress_def Decompress_def logged_def)
qed

text \<open>A writer that cannot be closed: the chunk so far is passed on as if it were complete.\<close>

lemma Compress_swallows: "gz_copyIn gz x = (Ok (), b) \<Longrightarrow> gz_closeWriter gz x = (Err e, d) \<Longrightarrow> Compress gz x = Ok d"
  by (simp add: Compress_def logged_def)

section \<open>Loggers\<close>

record Loggers =
  lg_cli :: LogConfig
  lg_btp :: LogConfig
  lg_brft :: LogConfig

text \<open>\<open>getenv\<close> gives the value of a variable of the environment; \<open>isClient\<close> is not used.\<close>

definition getLoggers :: "(string \<Rightarrow> string) \<Rightarrow> bool \<Rightarrow> bool \<Rightarrow> Loggers" where
  "getLoggers getenv testMode isClient =
     (let debug = testMode \<or> getenv ''DEBUG'' = ''true'';
          btpDebug = debug \<or> getenv ''DEBUG_BTP'' = ''true'';
          brftDebug = debug \<or> getenv ''DEBUG_BRFT'' = ''true''
      in \<lparr>lg_cli = NewLogger [WithClient True, WithColor True, WithProd (\<not> debug)],
          lg_btp = NewLogger [WithClient True, WithColor True, WithProd (\<not> btpDebug)],
          lg_brft = NewLogger [WithClient True, WithColor True, WithProd (\<not> brftDebug)]\<rparr>)"

section \<open>The client\<close>

definition fatal :: "string \<Rightarrow> go_error \<Rightarrow> go_error" where
  "fatal msg e = Errorf msg (Some e)"

definition clientOptions :: "ClientArgs \<Rightarrow> BOptions" where
  "clientOptions a = NewDefaultBOptions (ca_UseCompression a)"

definition connect :: "(gostring \<Rightarrow> 'a outcome) \<Rightarrow> (ConnOptions \<Rightarrow> 'a \<Rightarrow> Conn outcome) \<Rightarrow> ClientArgs \<Rightarrow> FS \<Rightarrow> BConn outcome" where
  "connect resolve dial a fs =
     mapErr (fatal ''failed to connect to server'') (Brft_Dial (resolve (ca_ServerAddr a)) (Some (clientOptions a)) dial fs)"

text \<open>\<open>files\<close> holds the pairs of the map in some order.\<close>

definition getSingleKeyValPair :: "(gostring \<times> byte list) list \<Rightarrow> (gostring \<times> byte list) outcome" where
  "getSingleKeyValPair files = (case files of [p] \<Rightarrow> Ok p
     | _ \<Rightarrow> Err (New ''given map does not exactly contain a single k:v pair''))"

text \<open>The downloads are started, each with the identifier that is drawn for it; a map in the code never has a nil checksum.\<close>

definition startDownloads ::
  "'b Env \<Rightarrow> bool \<Rightarrow> u16 list \<Rightarrow> (gostring \<times> byte list) list \<Rightarrow> (BConn, (gostring \<times> DownloadInfo) list) parser" where
  "startDownloads env pick sids files =
     (if length files = 1
      then bindM (mapErrM (fatal ''error parsing files'') (liftO (getSingleKeyValPair files))) (\<lambda>(f, cs).
           bindM (mapErrM (fatal ''failed to download file'') (DownloadFile env pick (hd sids) f (Some cs))) (\<lambda>info.
           returnM [(f, info)]))
      else bindM (mapErrM (fatal ''failed to download files'')
             (DownloadFiles env pick (map (\<lambda>(sid, f, cs). (sid, f, Some cs)) (zip sids files)))) (\<lambda>(infos, err).
           case err of Some e \<Rightarrow> failM (fatal ''failed to download files'' e) | None \<Rightarrow> returnM infos))"

text \<open>The program then waits in the progress log until every progress channel is closed.\<close>

definition waitDownloads ::
  "(gostring \<times> DownloadInfo) list \<Rightarrow> (gostring \<Rightarrow> (u64 \<times> u64) list \<times> bool) \<Rightarrow> LogLine list list \<times> unit outcome" where
  "waitDownloads infos chan = (case infos of
       [(f, info)] \<Rightarrow> LogProgress f info chan
     | _ \<Rightarrow> LogMultipleProgresses infos chan)"

definition requestMetaData :: "'b Env \<Rightarrow> bool \<Rightarrow> nat \<Rightarrow> (gostring \<times> byte list) list \<Rightarrow> (BConn, gostring) parser" where
  "requestMetaData env pick ref files =
     bindM (mapErrM (fatal ''error parsing files'') (liftO (getSingleKeyValPair files))) (\<lambda>(f, _).
     thenM (mapErrM (fatal ''failed to fetch file metadata'') (ListFileMetaData env pick ref f)) (returnM f))"

definition hexText :: "byte list \<Rightarrow> gostring" where
  "hexText bs = hexEncode bs"

definition itemLine :: "MetaItem \<Rightarrow> gostring" where
  "itemLine item = (case mi_FileSize item of
       Some n \<Rightarrow> mi_FileName item @ ascii '' '' @ decimal (unat n) @ ascii ''B '' @ hexText (mi_Checksum item) @ ascii '' \<newline>''
     | None \<Rightarrow> mi_FileName item @ ascii ''\<newline>'')"

text \<open>The headings are chosen the wrong way round: the empty name stands for the directory.\<close>

definition headings :: "gostring \<Rightarrow> gostring list" where
  "headings f = (if f \<noteq> [] then [ascii ''files available on server:\<newline>'', ascii ''--------------------------\<newline>'']
     else [ascii ''file details of '' @ f @ ascii ''\<newline>'', ascii ''--------------------------\<newline>''])"

definition printMetaData :: "gostring \<Rightarrow> MetaResp list \<Rightarrow> gostring list" where
  "printMetaData f resps = headings f @ concat (map (\<lambda>resp. map itemLine (mr_Items resp)) resps)"

text \<open>With the responses that were collected: the connection is closed, its error is not looked at.\<close>

definition showMetaData :: "'b Env \<Rightarrow> gostring \<Rightarrow> MetaResp list \<Rightarrow> (BConn, gostring list) parser" where
  "showMetaData env f resps = thenM (ignoreM (BConn_Close env)) (returnM (printMetaData f resps))"

section \<open>The server\<close>

definition listenAddr :: "ServerArgs \<Rightarrow> gostring" where
  "listenAddr a = ascii ''0.0.0.0:'' @ itoa (Port a)"

definition createServer ::
  "(gostring \<Rightarrow> 'a outcome) \<Rightarrow> (ConnOptions \<Rightarrow> 'a \<Rightarrow> 'l outcome) \<Rightarrow> ServerArgs \<Rightarrow> 'l Server outcome" where
  "createServer resolve listen a = mapErr (fatal ''failed to create server'')
     (NewServer (Some (NewDefaultBOptions DefaultCompressionEnabled)) (resolve (listenAddr a)) listen)"

text \<open>
  The loop of \<open>ListenAndServe\<close> over the results of \<open>Accept\<close>; it only stops where \<open>Accept\<close> does
  not return. The connections it made are the result.
\<close>

fun serveAll :: "(Conn outcome \<times> FS) list \<Rightarrow> 'l Server \<Rightarrow> BConn list \<times> 'l Server" where
  "serveAll [] s = ([], s)"
| "serveAll ((res, fs) # rest) s = (case serveOne res fs s of
       (Ok None, s) \<Rightarrow> serveAll rest s
     | (Ok (Some c), s) \<Rightarrow> (case serveAll rest s of (cs, s) \<Rightarrow> (c # cs, s))
     | (_, s) \<Rightarrow> ([], s))"

section \<open>The program\<close>

text \<open>Which way the program goes, or the status it exits with.\<close>

datatype Run = RunClient ClientArgs Loggers | RunServer ServerArgs Loggers | Exit int

definition main :: "(string \<Rightarrow> string) \<Rightarrow> Args outcome \<Rightarrow> Run outcome" where
  "main getenv parsed = (case parsed of
       Err e \<Rightarrow> Ok (Exit (if e = HelpError then 2 else 1))
     | Block \<Rightarrow> Block | Panic p \<Rightarrow> Panic p
     | Ok args \<Rightarrow> (case OperationArgs args of
           OfClient a \<Rightarrow> Ok (RunClient a (getLoggers getenv (TestMode args) True))
         | OfServer a \<Rightarrow> Ok (RunServer a (getLoggers getenv (TestMode args) False))))"

end
