(* ===== verification/Listing.thy ===== *)
theory Listing
  imports Main_Program Brft_Stream
begin

text \<open>
  The listing of a directory from the request of the client to the lines it prints: the handlers
  of both sides on the messages of the exchange.
\<close>

section \<open>The listing of a directory\<close>

text \<open>The handler of the connection on several messages.\<close>

fun dispatchAll :: "'b Env \<Rightarrow> bool \<Rightarrow> BRFTMessage list \<Rightarrow> (BConn, unit) parser" where
  "dispatchAll env pick [] = returnM ()"
| "dispatchAll env pick (m # ms) = thenM (clientDispatch env pick m) (dispatchAll env pick ms)"

definition nameItem :: "gostring \<Rightarrow> MetaItem" where
  "nameItem name = \<lparr>mi_FileName = name, mi_FileSize = None, mi_Checksum = []\<rparr>"

definition fileNames :: "(gostring \<times> bool) list \<Rightarrow> gostring list" where
  "fileNames entries = map fst (filter (\<lambda>(_, isDir). \<not> isDir) entries)"

definition listingResps :: "(gostring \<times> bool) list \<Rightarrow> MetaResp list" where
  "listingResps entries = NewMetaResps True (map nameItem (fileNames entries))"

lemma listingResps_split: "listingResps entries = splitItems (map nameItem (fileNames entries))"
  by (auto simp: listingResps_def NewMetaResps_def nameItem_def length_Suc_conv)

lemma splitItems_subset: "r \<in> set (splitItems is) \<Longrightarrow> set (mr_Items r) \<subseteq> set is"
proof -
  assume "r \<in> set (splitItems is)"
  then have "set (mr_Items r) \<subseteq> set (concat (map mr_Items (splitItems is)))" by auto
  then show ?thesis unfolding splitItems_items .
qed

lemma listingResps_ok:
  assumes "\<forall>n \<in> set (fileNames entries). n \<noteq> [] \<and> length n \<le> 255" and "r \<in> set (listingResps entries)"
  shows "msg_ok (BMetaResp r)"
proof -
  have r: "r \<in> set (splitItems (map nameItem (fileNames entries)))" using assms(2) by (simp add: listingResps_split)
  then have "length (mr_Items r) \<le> 255" "\<not> isExtended r"
    using splitItems_sizes [of "map nameItem (fileNames entries)"] by (auto simp: MaxMetaItemsNum_def)
  moreover have "item_ok False i" if "i \<in> set (mr_Items r)" for i
    using subsetD [OF splitItems_subset [OF r] that] assms(1) by (auto simp: nameItem_def item_ok_def)
  ultimately show ?thesis by simp
qed

lemma sendMetaResps_run:
  assumes "cryptobyte_laws (env_cb env) view" and "\<forall>r \<in> set rs. msg_ok (BMetaResp r)"
    and "\<not> (c_close c \<and> pick)" and "\<not> c_outClosed c"
  shows "sendMetaResps env pick rs c = (Ok (), c\<lparr>c_outCtrl := c_outCtrl c @ map (\<lambda>r. brft_wire (BMetaResp r)) rs\<rparr>)"
  using assms(2,3,4)
proof (induction rs arbitrary: c)
  case (Cons r rs)
  have "MetaResp_Encode (env_cb env) r = Ok (brft_wire (BMetaResp r))"
    using cryptobyte_laws.BEncode_wire [OF assms(1), of "BMetaResp r"] Cons.prems by simp
  with Cons show ?case
    by (auto simp: step_defs liftO_def selectCtrl_def)
qed (simp add: returnM_def)

lemma server_listing:
  assumes "cryptobyte_laws (env_cb env) view"
    and "\<forall>n \<in> set (fileNames entries). n \<noteq> [] \<and> length n \<le> 255"
    and "\<not> (c_close c \<and> pick)" and "\<not> c_outClosed c"
  shows "serverDispatch env pick (Ok entries) (BMetaReq \<lparr>mq_FileName = []\<rparr>) c
    = (Ok (), c\<lparr>c_outCtrl := c_outCtrl c @ map (\<lambda>r. brft_wire (BMetaResp r)) (listingResps entries)\<rparr>)"
proof -
  have "map (\<lambda>(name, _). \<lparr>mi_FileName = name, mi_FileSize = None, mi_Checksum = []\<rparr>) (filter (\<lambda>(_, isDir). \<not> isDir) entries)
      = map nameItem (fileNames entries)"
    by (simp add: fileNames_def nameItem_def case_prod_beta)
  then show ?thesis
    using sendMetaResps_run [OF assms(1) _ assms(3,4), of "listingResps entries"] listingResps_ok [OF assms(2)]
    by (simp add: serverDispatch_def handleMetaDataReq_def step_defs liftO_def listingResps_def [symmetric])
qed

text \<open>All but the last response leave the request registered.\<close>

lemma onMetaResp_full:
  assumes "\<not> c_metaLocked c" and "c_metaRequests c = ref # refs" and "length (mr_Items r) = MaxMetaItemsNum"
  shows "clientDispatch env pick (BMetaResp r) c
    = (Ok (), c\<lparr>c_metaChans := (c_metaChans c)(ref := c_metaChans c ref @ [r])\<rparr>)"
  using assms by (simp add: clientDispatch_def onMetaResp_def)

lemma dispatch_full:
  assumes "\<not> c_metaLocked c" and "c_metaRequests c = ref # refs"
    and "\<forall>r \<in> set rs. length (mr_Items r) = MaxMetaItemsNum"
  shows "dispatchAll env pick (map BMetaResp rs @ ms) (c\<lparr>c_metaChans := chans(ref := got)\<rparr>)
    = dispatchAll env pick ms (c\<lparr>c_metaChans := chans(ref := got @ rs)\<rparr>)"
  using assms(3)
proof (induction rs arbitrary: got)
  case (Cons r rs)
  have "clientDispatch env pick (BMetaResp r) (c\<lparr>c_metaChans := chans(ref := got)\<rparr>)
      = (Ok (), c\<lparr>c_metaChans := chans(ref := got @ [r])\<rparr>)"
    using onMetaResp_full [of "c\<lparr>c_metaChans := chans(ref := got)\<rparr>" ref refs r] assms(1,2) Cons.prems by simp
  with Cons.IH [of "got @ [r]"] Cons.prems show ?case by (simp add: bindM_def del: fun_upd_apply)
qed simp

lemma client_collects:
  assumes "\<not> c_metaLocked c" and "c_metaRequests c = ref # refs"
  shows "dispatchAll env pick (map BMetaResp (splitItems is)) (c\<lparr>c_metaChans := chans(ref := got)\<rparr>)
    = (Ok (), c\<lparr>c_metaChans := chans(ref := got @ splitItems is), c_metaRequests := refs\<rparr>)"
proof -
  obtain rs r where s: "splitItems is = rs @ [r]" "\<forall>x \<in> set rs. length (mr_Items x) = MaxMetaItemsNum"
    "length (mr_Items r) < MaxMetaItemsNum" using splitItems_sizes by blast
  show ?thesis
    using dispatch_full [OF assms s(2), of env pick "[BMetaResp r]" chans got] s(1,3) assms
    by (simp add: clientDispatch_def onMetaResp_def step_defs)
qed

lemma request_listing:
  assumes "cryptobyte_laws (env_cb env) view"
    and "c_isClient c" and "\<not> c_metaLocked c" and "\<not> (c_close c \<and> pick)" and "\<not> c_outClosed c"
  shows "requestMetaData env pick ref [([], cs)] c
    = (Ok [], c\<lparr>c_metaRequests := c_metaRequests c @ [ref], c_metaChans := (c_metaChans c)(ref := []),
        c_outCtrl := c_outCtrl c @ [brft_wire (BMetaReq \<lparr>mq_FileName = []\<rparr>)]\<rparr>)"
proof -
  have "MetaReq_Encode (env_cb env) \<lparr>mq_FileName = []\<rparr> = Ok (brft_wire (BMetaReq \<lparr>mq_FileName = []\<rparr>))"
    using cryptobyte_laws.BEncode_wire [OF assms(1), of "BMetaReq \<lparr>mq_FileName = []\<rparr>"] by simp
  with assms show ?thesis
    by (auto simp: requestMetaData_def getSingleKeyValPair_def ListFileMetaData_def step_defs liftO_def selectCtrl_def)
qed

lemma printed_listing: "printMetaData [] (listingResps entries) = headings [] @ map (\<lambda>n. n @ ascii ''\<newline>'') (fileNames entries)"
proof -
  have c: "concat (map (\<lambda>r. map itemLine (mr_Items r)) rs) = map itemLine (concat (map mr_Items rs))" for rs
    by (induction rs) simp_all
  have "concat (map mr_Items (listingResps entries)) = map nameItem (fileNames entries)"
    by (simp add: listingResps_split splitItems_items)
  then show ?thesis
    unfolding printMetaData_def c by (simp add: itemLine_def nameItem_def)
qed

end
