(* ===== verification/Brft_Properties.thy ===== *)
theory Brft_Properties
  imports Brft_Over_Transport Brft_Negotiation Brft_Client_Runs Brft_Server_Life Listing
begin

text \<open>
  The properties of the file transfer layer, each with the identifier C1 and so on, and the
  concrete connections on which the hypotheses of each hold.
\<close>

section \<open>Concrete connections\<close>

text \<open>The checksum is the length, the compressor does nothing.\<close>

definition ex_env :: "builder_view Env" where
  "ex_env = \<lparr>env_cb = ref_cb, env_write = (\<lambda>b. (length b, None)), env_now = 0,
     env_sha = (\<lambda>d. replicate 31 0 @ [of_nat (length d)]), env_compress = Ok, env_decompress = Ok,
     env_tmp = [0x74], env_path = (\<lambda>n. 0x2F # n)\<rparr>"

definition ex_fs :: "(gostring \<rightharpoonup> nat) \<Rightarrow> (nat \<Rightarrow> byte list) \<Rightarrow> FS" where
  "ex_fs names contents = \<lparr>fs_dir = names, fs_data = contents, fs_fds = Map.empty, fs_next = 1,
     fs_fault = (\<lambda>_. None), fs_calls = 0\<rparr>"

definition ex_conn :: Conn where
  "ex_conn = fresh_conn NewDefaultOptions 4000 \<lparr>gen_next = 0\<rparr>"

definition ex_client :: BConn where
  "ex_client = newBConn True (NewDefaultBOptions False) ex_conn (ex_fs Map.empty (\<lambda>_. []))"

definition ex_server :: BConn where
  "ex_server = newBConn False (NewDefaultBOptions True) ex_conn (ex_fs [[0x61] \<mapsto> 0] (\<lambda>_. [1, 2, 3]))"

lemma ex_env_simps [simp]:
  "env_cb ex_env = ref_cb" "env_sha ex_env d = replicate 31 0 @ [of_nat (length d)]" "env_tmp ex_env = [0x74]"
  "env_compress ex_env = Ok" "env_decompress ex_env = Ok"
  by (simp_all add: ex_env_def)

lemma ex_fs_simps [simp]:
  "healthy (ex_fs D d)" "fs_dir (ex_fs D d) = D" "fs_data (ex_fs D d) = d" "fs_next (ex_fs D d) = 1"
  "fs_fds (ex_fs D d) = Map.empty"
  by (simp_all add: ex_fs_def)

lemma ex_laws: "cryptobyte_laws (env_cb ex_env) (\<lambda>b. b)"
  using cryptobyte_laws_ref by simp

lemma ex_ready: "ready ex_env ex_env 5 [0x61] [1, 2, 3] None ex_client ex_server"
  by (simp add: ready_def ex_client_def ex_server_def newBConn_def calm_def local_part_def isDuplicateStreamID_def
      fileRegex_def Let_def nameChar_def wordChar_def stored_def)

section \<open>Downloads\<close>

text \<open>
  C2. A download brings the file. Client and server start as \<open>ready\<close> says: nothing of the file
  at the client, or a part of it with its header from an earlier download; no faults; the
  request for that name, for any content or for the one with the server's checksum. After the
  exchange, the passes of the server's loop and the delivery of its packets in order the server
  has closed the stream and its files are as before; the client has the file under its name,
  unless the chunk size divides what was left to send: then all bytes have arrived but the file
  keeps its header and stays pending. When it was the client's last stream its goroutine then
  waits for ever.
\<close>

theorem download_delivers:
  assumes "cryptobyte_laws (env_cb envC) viewC" and "cryptobyte_laws (env_cb envS) viewS"
    and "ready envC envS sid name F prev c s" and "n = agreedChunk (c_options c) (c_options s) F"
    and "rest = length F - (case prev of None \<Rightarrow> 0 | Some d \<Rightarrow> length d)"
    and "compressor_ok envC envS (agreedCompression (c_options c) F) n"
    and "checksum = None \<or> checksum = Some (env_sha envS F)"
  shows "\<exists>c' s'. download envC envS sid name checksum (rest div n + 1) (c, s)
      = (if c_table c \<subseteq> {sid} then Block else Ok (), (c', s'))
    \<and> stored (c_fs c') name = Some (if n dvd rest then pending (env_sha envS F) F else F)
    \<and> sid \<notin> c_table s' \<and> fs_data (c_fs s') = fs_data (c_fs s) \<and> fs_dir (c_fs s') = fs_dir (c_fs s)"
  using download_result [OF assms(1-4) _ assms(6,7)] assms(5) by (simp add: offsetIn_def)

lemma ex_chunk: "agreedChunk (NewDefaultBOptions a) (NewDefaultBOptions b) [1, 2, 3] = 65536"
  by (simp add: agreedChunk_def agreedCompression_def NewDefaultBOptions_def ComputeChunkSize_def MinFileSize_def)

theorem download_delivers_witness:
  "\<exists>c' s'. download ex_env ex_env 5 [0x61] None 1 (ex_client, ex_server) = (Block, (c', s'))
    \<and> stored (c_fs c') [0x61] = Some [1, 2, 3] \<and> 5 \<notin> c_table s'"
proof -
  have o: "c_options ex_client = NewDefaultBOptions False" "c_options ex_server = NewDefaultBOptions True" "c_table ex_client = {}"
    by (simp_all add: ex_client_def ex_server_def newBConn_def)
  have z: "compressor_ok ex_env ex_env (agreedCompression (c_options ex_client) [1, 2, 3]) 65536"
    by (simp add: compressor_ok_def compressor_within_def agreedCompression_def MinFileSize_def)
  show ?thesis
    using download_delivers [OF ex_laws ex_laws ex_ready, of 65536 3 None] z o ex_chunk [of False True]
    by (simp add: nat_dvd_not_less) blast
qed

text \<open>
  C3. From \<open>Dial\<close> to the file. Client and server handshake; each takes what its side queued, cuts
  it into packets and transmits them; the network carries them in rounds of up to 36 packets and
  reorders each round; the other side puts them back into order, reads the messages and handles
  them. Whatever the order, the download ends as C2 states, unless the schedule of the network
  ends before everything was transmitted; and there is a schedule on which it does not. The
  messages must fit the channel of the reader: at most 99 packets of the smaller of the two
  packet sizes.
\<close>

theorem dial_and_download:
  assumes "cryptobyte_laws (env_cb envC) viewC" and "cryptobyte_laws (env_cb envS) viewS"
    and "Version optsC = ProtocolVersionBTPv1" and "Version optsS = ProtocolVersionBTPv1"
    and "12 \<le> ReadBufferCap optsC" and "unat (MaxPacketSize optsC) + 6 \<le> ReadBufferCap optsS"
    and "unat (MaxPacketSize optsS) + 6 \<le> ReadBufferCap optsC"
    and "0 < MaxPacketSize optsC" and "0 < MaxPacketSize optsS"
    and "pipe (CC optsC) = 0" and "1 \<le> cwnd (CC optsC)" and "0 < InitCwndSize optsS"
    and "room div unat (min (MaxPacketSize optsC) (MaxPacketSize optsS)) \<le> 98" and "1 \<le> w" and "w \<le> 36"
    and "ready envC envS sid name F prev c s" and "n = agreedChunk (c_options c) (c_options s) F"
    and "rest = length F - offsetIn prev" and "k = rest div n + 1"
    and "compressor_within envC envS (agreedCompression (c_options c) F) n B" and "B \<le> 2 ^ 24" and "B + 6 \<le> room" and "300 \<le> room"
    and "checksum = None \<or> checksum = Some (env_sha envS F)"
  shows "\<exists>a b. handshake (env_cb envC) now (Ok b1) (Ok b2) lport cport mport optsC optsS = Ok (a, b)
    \<and> (\<forall>netUp netDown. (\<forall>x y. permuting (netUp x y) \<and> permuting (netDown x y)) \<longrightarrow> unless (\<lambda>e. e = early)
        (download_over_transport envC envS w netUp netDown sid name checksum k (c\<lparr>c_conn := a\<rparr>, s\<lparr>c_conn := b\<rparr>))
        (transferred sid name F n rest (env_sha envS F) c s))
    \<and> transferred sid name F n rest (env_sha envS F) c s
        (download_over_transport envC envS w prompt prompt sid name checksum k (c\<lparr>c_conn := a\<rparr>, s\<lparr>c_conn := b\<rparr>))"
proof -
  obtain a b where H: "handshake (env_cb envC) now (Ok b1) (Ok b2) lport cport mport optsC optsS = Ok (a, b)" "flowing w room a b"
    using cryptobyte_laws.handshake_flowing [OF assms(1,3-13,15), of now b1 b2 lport cport mport] by blast
  from dial_download [OF assms(1,2) H(2) assms(14,16-18,20-24)] H(1) show ?thesis unfolding assms(19) by blast
qed

theorem dial_and_download_witness:
  "\<exists>a b x. handshake ref_cb 0 (Ok (255, 255)) (Ok (1, 2)) 1337 5000 6000 NewDefaultOptions NewDefaultOptions = Ok (a, b)
    \<and> download_over_transport ex_env ex_env 36 prompt prompt 5 [0x61] None 1 (ex_client\<lparr>c_conn := a\<rparr>, ex_server\<lparr>c_conn := b\<rparr>) = (Block, x)
    \<and> stored (c_fs (fst x)) [0x61] = Some [1, 2, 3]"
proof -
  have o: "c_options ex_client = NewDefaultBOptions False" "c_options ex_server = NewDefaultBOptions True" "c_table ex_client = {}"
    by (simp_all add: ex_client_def ex_server_def newBConn_def)
  have z: "compressor_within ex_env ex_env (agreedCompression (c_options ex_client) [1, 2, 3]) 65536 65537"
    by (simp add: compressor_within_def agreedCompression_def MinFileSize_def)
  obtain a b where "handshake ref_cb 0 (Ok (255, 255)) (Ok (1, 2)) 1337 5000 6000 NewDefaultOptions NewDefaultOptions = Ok (a, b)"
    "transferred 5 [0x61] [1, 2, 3] 65536 3 (env_sha ex_env [1, 2, 3]) ex_client ex_server
      (download_over_transport ex_env ex_env 36 prompt prompt 5 [0x61] None 1 (ex_client\<lparr>c_conn := a\<rparr>, ex_server\<lparr>c_conn := b\<rparr>))"
    using dial_and_download [OF ex_laws ex_laws, of NewDefaultOptions NewDefaultOptions 65543 36 5 "[0x61]" "[1, 2, 3]" None ex_client ex_server
        65536 3 1 65537 None 0 "(255, 255)" "(1, 2)" 1337 5000 6000] z o ex_chunk [of False True] ex_ready
    by (auto simp: NewDefaultOptions_def NewElasticTcpAlgorithm_def offsetIn_def)
  then show ?thesis using o(3) by (auto simp: transferred_def nat_dvd_not_less split: prod.splits)
qed

text \<open>
  C6. Only checked files are published, whatever fails. A client stream that reads makes a step
  on any message, while every call of the system may fail or write only a part: other names of
  the directory lead to what they led to, other files have the same content, and the name of
  the file is untouched, or removed because the content does not have the expected checksum, or
  leads to a file that is the received content without the header and has the checksum.
\<close>

theorem client_publishes_verified:
  assumes "s_pc (c_streams c sid) = CReading" and "s_f (c_streams c sid) = Some f"
    and "fs_fds (c_fs c) (f_fd f) = Some (i, p)" and "f_fd f < fs_next (c_fs c)" and "i < fs_next (c_fs c)"
    and "env_tmp env \<noteq> f_name f" and "clientStep env pk sid c = (r, c')"
  shows "(\<forall>n. n \<noteq> env_tmp env \<longrightarrow> n \<noteq> f_name f \<longrightarrow> fs_dir (c_fs c') n = fs_dir (c_fs c) n)
    \<and> (\<forall>j < fs_next (c_fs c). j \<noteq> i \<longrightarrow> fs_data (c_fs c') j = fs_data (c_fs c) j)
    \<and> (let content = drop 37 (fs_data (c_fs c) i) in
        fs_dir (c_fs c') (f_name f) = fs_dir (c_fs c) (f_name f)
      \<or> fs_dir (c_fs c') (f_name f) = None \<and> env_sha env content \<noteq> f_checksum f
      \<or> stored (c_fs c') (f_name f) = Some content \<and> env_sha env content = f_checksum f)"
proof -
  let ?D = "fs_dir (c_fs c)" and ?d = "fs_data (c_fs c)" and ?N = "fs_next (c_fs c)"
  have "reading sid f ?D ?d ?N i c" using assms(2,3) by (auto simp: reading_def opened_def)
  moreover have "clientRead env pk sid c = (r, c')" using assms(1,7) by (simp add: clientStep_def)
  ultimately have "verified (env_sha env) (env_tmp env) f ?D ?d ?N i (c_fs c')"
    using guardsD [OF clientRead_verified [OF assms(6,4,5)]] by (cases r) fastforce+
  then show ?thesis by (auto simp: verified_def stored_def Let_def)
qed

definition ex_file :: File where
  "ex_file = \<lparr>f_fd = 0, f_stat = 40, isClientFile = True, f_name = [0x61], f_checksum = replicate 32 9\<rparr>"

definition ex_reader :: BConn where
  "ex_reader = ex_client\<lparr>c_streams := (\<lambda>_. noStream\<lparr>s_f := Some ex_file, s_pc := CReading, s_closed := False,
       s_in := [closeMsg 5 CloseReasonTransferComplete]\<rparr>),
     c_fs := (ex_fs [[0x61] \<mapsto> 0] (\<lambda>_. pending (replicate 32 9) [1, 2, 3]))\<lparr>fs_fds := [0 \<mapsto> (0, 40)]\<rparr>\<rparr>"

theorem client_publishes_verified_witness:
  "\<exists>r c'. clientStep ex_env never 5 ex_reader = (r, c') \<and> fs_dir (c_fs c') [0x62] = None"
proof -
  obtain r c' where S: "clientStep ex_env never 5 ex_reader = (r, c')" by fastforce
  from client_publishes_verified [OF _ _ _ _ _ _ S, of ex_file 0 40] S show ?thesis
    by (simp add: ex_reader_def ex_file_def ex_client_def newBConn_def noStream_def)
qed

text \<open>
  C16. The server's loop sends what the reference \<open>chunks\<close> cuts. From a position in the file, on
  a system without faults, the loop ends after one pass for each chunk of the rest (and one more
  when the chunk size divides it); it queues one data packet per chunk, packed, in order, and a
  last packet whose reason is TransferComplete only if the last chunk was shorter than the
  others; the chunks together are the rest of the file.
\<close>

theorem server_sends_chunks:
  assumes "cryptobyte_laws (env_cb env) view" and "sending sid f i F n z pos c" and "0 < n" and "pos \<le> length F"
    and "\<forall>x. length x \<le> n \<longrightarrow> (\<exists>d. packs env z x d)"
  shows "\<exists>ds c'. list_all2 (packs env z) (chunks n (drop pos F)) ds \<and> concat (chunks n (drop pos F)) = drop pos F
    \<and> repeatM (length ds + (if n dvd length F - pos then 1 else 0)) (serverStep env pk sid) c = (Ok (), c')
    \<and> c_outData c' = c_outData c @ map (\<lambda>d. brft_wire (dataMsg sid d)) ds
        @ [brft_wire (closeMsg sid (if n dvd length F - pos then CloseReasonUndefined else CloseReasonTransferComplete))]
    \<and> c_outCtrl c' = c_outCtrl c \<and> c_table c' = c_table c - {sid} \<and> s_pc (c_streams c' sid) = Returned"
proof -
  have "\<exists>ds. list_all2 (packs env z) xs ds" if "\<forall>x \<in> set xs. length x \<le> n" for xs
    using that
  proof (induction xs)
    case (Cons x xs)
    moreover obtain d where "packs env z x d" using assms(5) Cons.prems by auto
    ultimately obtain ds where "list_all2 (packs env z) (x # xs) (d # ds)" by auto
    then show ?case by blast
  qed (auto intro: exI [of _ "[]"])
  then obtain ds where ds: "list_all2 (packs env z) (chunks n (drop pos F)) ds" using chunks_bound by blast
  from cryptobyte_laws.server_sends [OF assms(1) refl assms(2-4) ds, of pk] ds show ?thesis
    by (auto simp: sent_def lastReason_def concat_chunks [OF assms(3)])
qed

text \<open>A server in the middle of a file of five bytes, with chunks of two.\<close>

definition ex_sending :: BConn where
  "ex_sending = ex_server\<lparr>c_streams := (\<lambda>_. noStream\<lparr>s_f := Some ex_file, s_pc := SSending, s_closed := False, s_chunkSize := 2\<rparr>),
     c_fs := (ex_fs [[0x61] \<mapsto> 0] (\<lambda>_. [1, 2, 3, 4, 5]))\<lparr>fs_fds := [0 \<mapsto> (0, 1)]\<rparr>\<rparr>"

theorem server_sends_chunks_witness:
  "\<exists>c'. repeatM 3 (serverStep ex_env never 5) ex_sending = (Ok (), c')
    \<and> c_outData c' = [brft_wire (dataMsg 5 [2, 3]), brft_wire (dataMsg 5 [4, 5]), brft_wire (closeMsg 5 CloseReasonUndefined)]"
proof -
  have ch: "chunks 2 (drop 1 [1, 2, 3, 4, 5]) = [[2, 3], [4, 5 :: byte]]"
    by (simp add: chunks.simps numeral_2_eq_2)
  have S: "sending 5 ex_file 0 [1, 2, 3, 4, 5] 2 False 1 ex_sending" and o: "c_outData ex_sending = []"
    by (simp_all add: sending_def calm_def ex_sending_def ex_server_def newBConn_def ex_file_def noStream_def)
  show ?thesis
    using server_sends_chunks [OF ex_laws S, of never] ch o
    by (fastforce simp: packs_def numeral_3_eq_3 list_all2_Cons1 simp del: repeatM.simps)
qed

section \<open>Files\<close>

text \<open>
  C10. A server only reads, and only discloses files of its directory. On a connection that was
  accepted, whatever messages arrive, in whatever order streams and sender make steps, and
  whatever calls of the system fail, names and contents are those of the beginning; a file that
  a stream has open has a name without a slash that does not start with a dot, and the checksum
  and size it was opened with are those of the content under that name; and what is queued to be
  sent on the data channel is a close packet or carries, compressed or not, a piece of a file
  with such a name.
\<close>

theorem server_only_reads:
  assumes "server_run env (newBConn False opts conn fs) c" and "fs_fds fs = Map.empty"
  shows "fs_dir (c_fs c) = fs_dir fs \<and> fs_data (c_fs c) = fs_data fs
    \<and> (\<forall>sid f. s_f (c_streams c sid) = Some f \<longrightarrow>
         f_name f \<noteq> [] \<and> 0x2F \<notin> set (f_name f) \<and> hd (f_name f) \<noteq> 0x2E
         \<and> (\<exists>F. stored fs (f_name f) = Some F \<and> f_checksum f = env_sha env F \<and> f_stat f = length F))
    \<and> (\<forall>b \<in> set (c_outData c). (\<exists>m. Close_Encode (env_cb env) m = Ok b)
         \<or> (\<exists>m x name F k n. Data_Encode (env_cb env) m = Ok b \<and> (bd_Data m = x \<or> env_compress env x = Ok (bd_Data m))
              \<and> x = take n (drop k F) \<and> stored fs name = Some F
              \<and> name \<noteq> [] \<and> 0x2F \<notin> set name \<and> hd name \<noteq> 0x2E))"
proof -
  have "server_inv env fs (newBConn False opts conn fs)"
    using assms(2) by (simp add: server_inv_def newBConn_def noStream_def confined_def)
  note I = server_run_inv [OF assms(1) this]
  show ?thesis
  proof (intro conjI ballI allI impI)
    fix sid f assume "s_f (c_streams c sid) = Some f"
    with I have "served (env_sha env) fs f" by (simp add: server_inv_def)
    then show "f_name f \<noteq> []" "0x2F \<notin> set (f_name f)" "hd (f_name f) \<noteq> 0x2E"
      "\<exists>F. stored fs (f_name f) = Some F \<and> f_checksum f = env_sha env F \<and> f_stat f = length F"
      using fileRegex_confined [of "f_name f"] by (simp_all add: served_def)
  next
    fix b assume "b \<in> set (c_outData c)"
    with I consider (closing) m where "Close_Encode (env_cb env) m = Ok b"
      | (data) m x name F k n where "Data_Encode (env_cb env) m = Ok b" "bd_Data m = x \<or> env_compress env x = Ok (bd_Data m)"
        "fileRegex name" "stored fs name = Some F" "x = take n (drop k F)"
      unfolding server_inv_def closes_def pieces_def piece_def by blast
    then show "(\<exists>m. Close_Encode (env_cb env) m = Ok b)
         \<or> (\<exists>m x name F k n. Data_Encode (env_cb env) m = Ok b \<and> (bd_Data m = x \<or> env_compress env x = Ok (bd_Data m))
              \<and> x = take n (drop k F) \<and> stored fs name = Some F
              \<and> name \<noteq> [] \<and> 0x2F \<notin> set name \<and> hd name \<noteq> 0x2E)"
      by cases (use fileRegex_confined in metis)+
  qed (use I in \<open>simp_all add: server_inv_def\<close>)
qed

definition ex_req :: FileReq where
  "ex_req = \<lparr>fq_StreamID = 5, fq_Flags = [], fq_OptHeaders = [], fq_FileName = [0x61], fq_Checksum = zeroChecksum\<rparr>"

lemma ex_served: "\<exists>c1 c2. serverDispatch ex_env False (Ok []) (BFileReq ex_req) ex_server = (Ok (), c1)
    \<and> serverStep ex_env never 5 c1 = (Ok (), c2) \<and> s_f (c_streams c2 5) \<noteq> None"
proof -
  let ?n = "\<lparr>n_status = FileRespStatusOk, n_comp = False, n_chunkSize = 65536, n_optHeaders = []\<rparr>"
  have "\<exists>c2. thenM (serverDispatch ex_env False (Ok []) (BFileReq ex_req)) (serverStep ex_env never 5) ex_server = (Ok (), c2)
      \<and> s_f (c_streams c2 5) \<noteq> None"
    using cryptobyte_laws.server_accepts [OF cryptobyte_laws_ref, of ex_env ex_server ex_req 0 ?n 65536 False "Ok []" never]
    by (auto simp: ex_server_def newBConn_def ex_req_def calm_def isDuplicateStreamID_def fileRegex_def Let_def nameChar_def
        wordChar_def NewDefaultBOptions_def ComputeChunkSize_def IsSet_def opts_ok_def awaiting_def)
  then show ?thesis by (auto simp: bindM_def split: prod.splits outcome.splits)
qed

theorem server_only_reads_witness:
  "\<exists>c. server_run ex_env ex_server c \<and> s_f (c_streams c 5) \<noteq> None \<and> fs_dir (c_fs c) = [[0x61] \<mapsto> 0]"
proof -
  obtain c1 c2 where c: "serverDispatch ex_env False (Ok []) (BFileReq ex_req) ex_server = (Ok (), c1)"
    "serverStep ex_env never 5 c1 = (Ok (), c2)" "s_f (c_streams c2 5) \<noteq> None"
    using ex_served by blast
  have run: "server_run ex_env ex_server c2"
    by (rule run_stream [OF run_message [OF run_start c(1)] c(2)])
  have "fs_dir (c_fs c2) = [[0x61] \<mapsto> 0]"
    using server_only_reads [OF run [unfolded ex_server_def]] by simp
  with run c(3) show ?thesis by blast
qed

text \<open>
  C30. A pending file survives. On a system without faults a new file can be written to, opened
  again under any request, and then has the checksum it was created with and the size of the
  data; the check compares the data alone, and stripping leaves the data.
\<close>

theorem pending_file_roundtrip:
  assumes "healthy fs" and "fs_dir fs name = None" and "length cs = ChecksumSize" and "length d < 2 ^ 63"
    and "fs_dir fs tmp = None" and "tmp \<noteq> name"
  shows "\<exists>f g fs1 fs2 fs3 fs4. NewFile name (Some cs) fs = (Ok f, fs1) \<and> File_Write f d fs1 = (Ok (length d), fs2)
    \<and> NewFile name cs' fs2 = (Ok g, fs3) \<and> f_checksum g = cs
    \<and> (\<exists>g' fs'. File_Size g fs3 = (Ok (of_nat (length d), g'), fs'))
    \<and> (\<exists>fs'. CheckChecksum sha g fs3 = (Ok (sha d = cs), fs'))
    \<and> StripChecksum tmp g fs3 = (Ok (), fs4) \<and> stored fs4 name = Some d \<and> fs_dir fs4 tmp = None"
proof -
  let ?i = "fs_next fs"
  let ?f = "\<lparr>f_fd = ?i, f_stat = 37, isClientFile = True, f_name = name, f_checksum = cs\<rparr>"
  obtain fs1 where f: "NewFile name (Some cs) fs = (Ok ?f, fs1)" and fs1: "healthy fs1" "fs_dir fs1 = (fs_dir fs)(name \<mapsto> ?i)"
    "fs_data fs1 ?i = pending cs []" "fs_fds fs1 ?i = Some (?i, 37)" "fs_next fs1 = ?i + 1"
    using NewFile_new [OF assms(1-3)] assms(1) by simp
  have P: "put_bytes (pending cs []) 37 d = pending cs d"
    using assms(3) by (cases "d = []") (simp_all add: put_bytes_def pending_def)
  obtain fs2 where w: "File_Write ?f d fs1 = (Ok (length d), fs2)" and fs2: "healthy fs2" "fs_dir fs2 = (fs_dir fs)(name \<mapsto> ?i)"
    "fs_data fs2 ?i = pending cs d" "fs_next fs2 = ?i + 1"
    using fs1 P by (simp add: File_Write_def os_Write_def writeAt_def seekTo_def)
  let ?g = "\<lparr>f_fd = ?i + 1, f_stat = 37 + length d, isClientFile = True, f_name = name, f_checksum = cs\<rparr>"
  obtain fs3 where g: "NewFile name cs' fs2 = (Ok ?g, fs3)" and fs3: "healthy fs3" "fs_dir fs3 = (fs_dir fs)(name \<mapsto> ?i)"
    "fs_data fs3 ?i = pending cs d" "fs_fds fs3 (?i + 1) = Some (?i, 37 + length d)" "fs_next fs3 = ?i + 2"
    using NewFile_pending [OF fs2(1) _ fs2(3) assms(3), of name cs'] fs2 by simp
  have len: "(of_nat (length (pending cs d)) :: u64) - 37 = of_nat (length d)" using assms(3) by simp
  obtain fs4 where s4: "StripChecksum tmp ?g fs3 = (Ok (), fs4)" "fs_dir fs4 = (fs_dir fs3)(name \<mapsto> fs_next fs3)"
    "fs_data fs4 = (fs_data fs3)(fs_next fs3 := d)"
    using StripChecksum_ok [of fs3 ?g ?i "37 + length d" cs d tmp] fs3 assms(3,5,6) by auto
  show ?thesis
    using f w g s4 fs3 assms(5,6) len
      File_Size_client [of fs3 ?g ?i "37 + length d"] CheckChecksum_ok [of fs3 ?g ?i "37 + length d" cs d sha] assms(3)
    by (intro exI [of _ ?f] exI [of _ ?g] exI [of _ fs1] exI [of _ fs2] exI [of _ fs3] exI [of _ fs4]) (simp add: stored_def)
qed

theorem pending_file_roundtrip_witness:
  "\<exists>f g fs1 fs2 fs3. NewFile [0x61] (Some (replicate 32 9)) (ex_fs Map.empty (\<lambda>_. [])) = (Ok f, fs1)
    \<and> File_Write f [1, 2, 3] fs1 = (Ok 3, fs2) \<and> NewFile [0x61] None fs2 = (Ok g, fs3) \<and> f_checksum g = replicate 32 9"
  using pending_file_roundtrip [of "ex_fs Map.empty (\<lambda>_. [])" "[0x61]" "replicate 32 9" "[1, 2, 3]" "[0x74]" None]
  by (simp add: numeral_3_eq_3) blast

section \<open>Refusals, panics and waiting\<close>



text \<open>
  C21. A client waits for itself. When the last stream of a client ends, for whatever reason and
  with or without a close packet, it closes the connection from its own goroutine, which is one
  of those that Close waits for: the step does not return, the count stays as it was, and while
  it is not zero no other Close returns either.
\<close>

theorem client_waits_for_itself:
  assumes "cryptobyte_laws (env_cb env) view" and "c_isClient c" and "c_table c \<subseteq> {sid}" and "0 < c_wg c"
    and "\<not> s_closed (c_streams c sid)" and "\<not> c_outClosed c"
  shows "\<exists>c'. finish env pick sid b r c = (Block, c') \<and> c_wg c' = c_wg c \<and> c_close c' \<and> \<not> c_outClosed c'
    \<and> (\<exists>c''. BConn_Close env c' = (Block, c''))"
proof -
  let ?c = "c\<lparr>c_table := c_table c - {sid}\<rparr>"
  have block: "0 < c_wg x \<Longrightarrow> BConn_Close env x = (Block, x\<lparr>c_close := True\<rparr>)" for x
    by (simp add: BConn_Close_def)
  obtain fs' where F: "\<And>k :: unit \<Rightarrow> (BConn, unit) parser. bindM (ignoreM (fsM (File_Close (s_f (c_streams c sid))))) k ?c = k () (?c\<lparr>c_fs := fs'\<rparr>)"
    using close_file [of "s_f (c_streams c sid)" ?c] by auto
  let ?d = "?c\<lparr>c_fs := fs', c_streams := (c_streams c)(sid := (c_streams c sid)\<lparr>s_closed := True\<rparr>)\<rparr>"
  have "\<exists>q. whenM b (sendClosePacket env pick sid r) ?d = (Ok (), ?d\<lparr>c_outData := q\<rparr>)"
  proof (cases b)
    case True
    then show ?thesis
      using cryptobyte_laws.sendClosePacket_any [OF assms(1) refl, of ?d pick sid r] assms(6) by (simp add: whenM_def)
  qed (auto simp: whenM_def intro: exI [of _ "c_outData c"])
  then obtain q where "whenM b (sendClosePacket env pick sid r) ?d = (Ok (), ?d\<lparr>c_outData := q\<rparr>)" ..
  note q = bind_Ok [where m = "whenM b (sendClosePacket env pick sid r)", OF this]
  show ?thesis
    using assms(2-6) by (simp add: finish_def CloseStream_def F q whenM_def [of True] close_waits block)
qed

theorem client_waits_for_itself_witness:
  "\<exists>c'. finish ex_env False 5 True CloseReasonUndefined ex_reader = (Block, c') \<and> c_wg c' = 1 \<and> c_close c'"
  using client_waits_for_itself [OF ex_laws, of ex_reader 5 False True CloseReasonUndefined]
  by (simp add: ex_reader_def ex_client_def newBConn_def noStream_def) blast

section \<open>The goroutines of a server\<close>


text \<open>A server that has read a request.\<close>

definition ex_asked :: BConn where
  "ex_asked = snd (serverDispatch ex_env False (Ok []) (BFileReq ex_req) ex_server)"

lemmas ex_asked_simps = ex_asked_def serverDispatch_def serverOnFileReq_def isDuplicateStreamID_def ex_server_def newBConn_def spawn_def
  bindM_def getM_def modifyM_def

lemma ex_asked: "serving ex_env 1 ex_asked" "living ex_asked = {5}"
proof -
  have d: "serverDispatch ex_env False (Ok []) (BFileReq ex_req) ex_server = (Ok (), ex_asked)"
    by (simp add: ex_asked_simps)
  then show "serving ex_env 1 ex_asked"
    by (rule serving_message [OF serving_new [where opts = "NewDefaultBOptions True" and conn = ex_conn
          and fs = "ex_fs [[0x61] \<mapsto> 0] (\<lambda>_. [1, 2, 3])", folded ex_server_def]])
      (simp add: ex_asked_simps)
  show "living ex_asked = {5}"
    by (auto simp: ex_asked_simps living_def newServerStream_def noStream_def ex_req_def)
qed

lemma ex_returns: "\<forall>x. returns (env_compress ex_env x)"
  by simp





text \<open>
  C22. A message of the wrong kind takes the server down. When a server reads a message that only
  a client may get, its handler waits in \<open>Close\<close>. When sender and streams have returned, on a
  transport that can send its close packet and has nothing left to read, \<open>Close\<close> succeeds and
  the handler goes on with its loop: once the transport has torn itself down the next read fails,
  the handler calls \<open>Close\<close> again, and that closes a closed channel.
\<close>

theorem wrong_message_panics:
  assumes "cryptobyte_laws (env_cb env) view" and "\<forall>x. returns (env_compress env x)" and "serving env 1 c"
    and "(\<exists>v. m = BFileResp v) \<or> (\<exists>v. m = BDataMsg v) \<or> (\<exists>v. m = BMetaResp v)"
    and "distinct gs" and "set gs = running 1 c" and "\<forall>sid. pk sid 0 \<and> pk sid 1"
    and "env_write env = full_write" and "drained (c_conn c)"
  shows "\<exists>c1 c2 c3 b. serverDispatch env p listing m c = (Block, c1) \<and> goroutines env pk gs c1 = (Ok (), c2)
    \<and> closeConn env c2 = (Ok (), c3) \<and> teardown (c_conn c3) = (Ok (), b)
    \<and> fst (serverPass env p listing (c3\<lparr>c_conn := b\<rparr>)) = Panic ''close of closed channel''"
proof -
  let ?c1 = "c\<lparr>c_close := True\<rparr>"
  have l: "life 1 c" by (rule cryptobyte_laws.serving_life [OF assms(1,3) refl]) (simp add: assms(2))
  then have l1: "life 1 ?c1" by (rule life_close_flag)
  have "serverDispatch env p listing m c = closeConn env c" using assms(4) by (auto simp: serverDispatch_def)
  also have "\<dots> = (Block, ?c1)"
    using l by (simp add: life_def closeConn_def ignoreM_def tryM_def bindM_def BConn_Close_def modifyM_def)
  finally have c1: "serverDispatch env p listing m c = (Block, ?c1)" .
  have "living ?c1 = living c" by (simp add: living_def)
  then have gs: "set gs = running 1 ?c1" using assms(6) by (simp add: running_alt)
  have "\<exists>c'. goroutines env pk gs ?c1 = (Ok (), c') \<and> life 0 c' \<and> living c' = {}"
    by (rule cryptobyte_laws.goroutines_end [OF assms(1) refl _ l1 _ _ assms(5) gs assms(7)]) (simp_all add: assms(2))
  then obtain c2 where c2: "goroutines env pk gs ?c1 = (Ok (), c2)" "c_wg c2 = 0" "\<not> c_outClosed c2"
    by (auto simp: life_def)
  have "quietly (c_conn c) ?c1" using l by (simp add: quietly_def life_def)
  from keepsD [OF quiet_goroutines this c2(1)] have "drained (c_conn c2)"
    using drained_reset [OF assms(9)] by (simp add: quietly_def)
  then obtain b1 b2 b3 where b: "Conn_Close (env_cb env) (env_write env) (env_now env) (c_conn c2) = (Ok (), b1)"
      "teardown b1 = (Ok (), b2)" "readMsg Conn_Read b2 = (Err EOF, b3)"
    using cryptobyte_laws.drained_closes [OF assms(1)] unfolding assms(8) by blast
  let ?c3 = "c2\<lparr>c_close := True, c_outClosed := True, c_conn := b1\<rparr>"
  have c3: "closeConn env c2 = (Ok (), ?c3)"
    using close_done [OF c2(2,3), of env] b(1) by (simp add: closeConn_def ignoreM_def tryM_def bindM_def Close_result_def returnM_def)
  have "fst (closeConn env (?c3\<lparr>c_conn := b3\<rparr>)) = Panic ''close of closed channel''"
    using c2(2) by (simp add: closeConn_def ignoreM_def tryM_def bindM_def BConn_Close_def modifyM_def)
  then have "fst (serverPass env p listing (?c3\<lparr>c_conn := b2\<rparr>)) = Panic ''close of closed channel''"
    using b(3) by (auto simp: serverPass_def bindM_def tryM_def connM_def zoomM_def returnM_def split: prod.splits)
  moreover have "teardown (c_conn ?c3) = (Ok (), b2)" using b(2) by simp
  ultimately show ?thesis using c1 c2(1) c3 by blast
qed

theorem wrong_message_panics_witness:
  "\<exists>c1 c2 c3 b. serverDispatch ex_env False (Ok []) (dataMsg 5 []) ex_asked = (Block, c1)
    \<and> goroutines ex_env (\<lambda>_ _. True) [Some 5, None] c1 = (Ok (), c2)
    \<and> closeConn ex_env c2 = (Ok (), c3) \<and> teardown (c_conn c3) = (Ok (), b)
    \<and> fst (serverPass ex_env False (Ok []) (c3\<lparr>c_conn := b\<rparr>)) = Panic ''close of closed channel''"
proof (rule wrong_message_panics [OF ex_laws ex_returns ex_asked(1)])
  have "living ex_asked = {5}" by (rule ex_asked(2))
  then show "set [Some 5, None] = running 1 ex_asked" by (auto simp: running_alt)
  have "c_conn ex_asked = ex_conn"
    by (simp add: ex_asked_simps)
  moreover have "drain (dataReader ex_conn) = []"
    by (subst drain.simps) (simp add: ex_conn_def fresh_conn_def NewDataReader_def Next_def Let_def slot_def)
  ultimately show "drained (c_conn ex_asked)"
    by (simp add: drained_def unread_def ex_conn_def fresh_conn_def NewDataReader_def)
  show "env_write ex_env = full_write" by (rule ext) (simp add: ex_env_def full_write_def)
qed auto

section \<open>Stream identifiers and negotiation\<close>

text \<open>
  C24. A new identifier is the first number drawn when that is free; when it is taken, or zero
  while there are streams, the loop never returns, whatever numbers follow.
\<close>

theorem newStreamID_first:
  "newStreamID c (r # rs) = (if c_table c \<noteq> {} \<and> (ucast r \<in> c_table c \<or> ucast r = (0 :: u16)) then None else Some (ucast r))"
proof -
  have "newStreamIDLoop True t xs = None" for t xs by (induction xs) (simp_all add: Let_def)
  then show ?thesis by (simp add: newStreamID_def Let_def)
qed

text \<open>
  C28. The negotiation meets its description. The loop over the optional headers gives up
  exactly on a header that no decoder returns; otherwise each compression request has its reply,
  in order: unknown algorithm, file too small, or accepted; compression is on exactly if gzip
  was asked for and the file is large enough, with the chunk size of the last such request; and
  the status is the one with the highest precedence among those the headers call for.
\<close>

theorem negotiation_spec:
  "negotiate fsize hs \<lparr>n_status = FileRespStatusOk, n_comp = False, n_chunkSize = k, n_optHeaders = []\<rparr>
    = (if NilHeader \<in> set hs then None else Some
        \<lparr>n_status = (if list_ex unexpected hs then FileRespStatusUnexpectedOptionalHeader
           else if list_ex unsupported hs then FileRespStatusUnsupportedOptionalHeader else FileRespStatusOk),
         n_comp = (gzipAsks hs \<noteq> [] \<and> \<not> fsize < MinFileSize),
         n_chunkSize = (if gzipAsks hs = [] \<or> fsize < MinFileSize then k else ComputeChunkSize (snd (last (gzipAsks hs)))),
         n_optHeaders = map (replyTo fsize) (asks hs)\<rparr>)"
proof (cases "NilHeader \<in> set hs")
  case True
  then have "negotiate fsize hs n = None" for n
    by (induction hs arbitrary: n) (auto split: option.split)
  with True show ?thesis by simp
qed (simp add: negotiate_any worst_def)

section \<open>The client's directory\<close>

text \<open>
  C7. What the client does to its directory. Whatever messages come in, as long as the checksums
  in responses are in \<open>A\<close>, in whatever order downloads of names in \<open>R\<close>, streams, sender and closing
  make steps, and whatever calls of the system fail or write only a part: every other name but
  that of the temporary file keeps its content, and so does a name in \<open>R\<close> whose file the client
  did not begin itself; any other name in \<open>R\<close> has no file, or a pending one with a checksum of
  \<open>A\<close> in its header, or the beginning of such a header, or a file whose checksum is in \<open>A\<close>.
\<close>

theorem client_keeps_directory:
  assumes "client_run env R A (newBConn True opts conn fs) S c"
    and "honest fs" and "\<And>h i p. fs_fds fs h = Some (i, p) \<Longrightarrow> h < fs_next fs \<and> i < fs_next fs"
    and "announced (env_sha env) A" and "env_tmp env \<notin> R"
    and "\<And>n F cs. n \<in> R \<Longrightarrow> stored fs n = Some F \<Longrightarrow> headed cs F \<Longrightarrow> cs \<in> A"
    and links: "\<And>n m i. n \<notin> R \<Longrightarrow> m \<in> R \<Longrightarrow> fs_dir fs n = Some i \<Longrightarrow> fs_dir fs m \<noteq> Some i"
  shows "(\<forall>n. n \<notin> R \<or> foreign fs n \<longrightarrow> n \<noteq> env_tmp env \<longrightarrow> stored (c_fs c) n = stored fs n)
    \<and> (\<forall>n \<in> R. \<forall>F. \<not> foreign fs n \<longrightarrow> stored (c_fs c) n = Some F \<longrightarrow>
         (\<exists>cs \<in> A. headed cs F) \<or> (\<exists>cs \<in> A. \<exists>k. F = take k (fileSignature @ cs)) \<or> env_sha env F \<in> A)"
proof -
  have "client_inv env R A fs S c"
    by (rule client_run_inv [OF assms(1,4,2,5) client_inv_start [OF assms(2,3,6)]])
  then have I: "fs_ok (env_sha env) (env_tmp env) R A fs (c_fs c)" by (simp add: client_inv_def)
  have "stored (c_fs c) n = stored fs n" if "n \<notin> R \<or> foreign fs n" "n \<noteq> env_tmp env" for n
  proof (cases "fs_dir fs n")
    case (Some i)
    have "\<not> owned R fs i"
    proof (cases "n \<in> R")
      case True
      with that(1) foreign_not_owned [OF assms(2) _ Some] show ?thesis by blast
    next
      case False
      with links [OF False _ Some] assms(2) Some show ?thesis by (fastforce simp: owned_def honest_def)
    qed
    with fs_ok_other [OF I] that Some show ?thesis by (simp add: stored_def)
  qed (use fs_ok_other(1) [OF I that] in \<open>simp add: stored_def\<close>)
  moreover have "(\<exists>cs \<in> A. headed cs F) \<or> (\<exists>cs \<in> A. \<exists>k. F = take k (fileSignature @ cs)) \<or> env_sha env F \<in> A"
    if "n \<in> R" "\<not> foreign fs n" "stored (c_fs c) n = Some F" for n F
    using fs_ok_mine [OF I that(1,2)] that(3) by (auto simp: stored_def acceptable_def)
  ultimately show ?thesis by blast
qed

text \<open>A message that is delivered is a step of the handler and, when that returns, one of the stream.\<close>

lemma client_run_deliver:
  assumes "client_run env R A c0 S c" and "deliver env pk sid m c = (r, c')" and "fine A m" and "sid \<notin> S"
  shows "\<exists>S'. client_run env R A c0 S' c' \<and> (r = Ok () \<and> s_pc (c_streams c' sid) \<noteq> Returned \<longrightarrow> S' = S)"
proof -
  obtain x c1 where d: "clientDispatch env (pk 2) m c = (x, c1)" by fastforce
  have run: "client_run env R A c0 S c1" by (rule client_message [OF assms(1,3) d])
  show ?thesis
  proof (cases x)
    case (Ok v)
    with assms(2) d have "clientStep env pk sid c1 = (r, c')" by (simp add: deliver_def bindM_def)
    from client_stream [OF run assms(4) this refl] show ?thesis by (auto split: if_splits)
  qed (use assms(2) d run in \<open>auto simp: deliver_def bindM_def\<close>)
qed

text \<open>A checksum that no other content has.\<close>

definition ex_env_one :: "builder_view Env" where
  "ex_env_one = ex_env\<lparr>env_sha := (\<lambda>d. replicate 32 (if d = [1, 2, 3] then 7 else 8))\<rparr>"

theorem client_keeps_directory_witness:
  "\<exists>S c. client_run ex_env_one {[0x61]} {replicate 32 7} ex_client S c \<and> stored (c_fs c) [0x61] = Some [1, 2, 3]
    \<and> stored (c_fs c) [0x62] = None"
proof -
  let ?cs = "replicate 32 7 :: byte list" and ?R = "{[0x61 :: byte]}"
  let ?resp = "\<lparr>fp_Status = FileRespStatusOk, fp_OptHeaders = [], fp_StreamID = 5, fp_FileSize = 3, fp_Checksum = ?cs\<rparr>"
  let ?run = "client_run ex_env_one ?R {?cs} ex_client"
  have e: "env_cb ex_env_one = ref_cb" "env_tmp ex_env_one = [0x74]" "env_sha ex_env_one [1, 2, 3] = ?cs"
    by (simp_all add: ex_env_one_def)
  have c: "calm ex_client" "c_isClient ex_client" "local_part (c_fs ex_client) [0x61] ?cs None" "c_table ex_client = {}"
    "fs_dir (c_fs ex_client) = Map.empty"
    by (simp_all add: ex_client_def newBConn_def calm_def local_part_def)
  note laws = cryptobyte_laws_ref
  obtain info c1 where c1: "DownloadFile ex_env_one False 5 [0x61] None ex_client = (Ok info, c1)"
    "asking 5 [0x61] zeroChecksum (map_option length (None :: byte list option)) c1" "local_part (c_fs c1) [0x61] ?cs None" "fs_dir (c_fs c1) = Map.empty"
    "c_table c1 = {5}"
    using cryptobyte_laws.client_asks [OF laws e(1) c(1-3), of None False 5] c(4,5) by (auto simp: zeroChecksum_def)
  have r1: "?run (UNIV - {5}) c1" by (rule client_download [OF client_start _ _ c1(1)]) auto
  obtain f i c2 where c2: "deliver ex_env_one never 5 (BFileResp ?resp) c1 = (Ok (), c2)" "receiving 5 f i [0x61] ?cs False [] c2"
    "c_table c2 = {5}" "fs_dir (c_fs c2) [0x74] = None"
    using cryptobyte_laws.client_accepts [OF laws e(1) c1(2,3), of ?resp False never] c1(4,5) by auto
  have r2: "?run (UNIV - {5}) c2"
    using client_run_deliver [OF r1 c2(1)] c2(2) by (auto simp: fine_def receiving_def)
  obtain c3 where c3: "deliver ex_env_one never 5 (dataMsg 5 [1, 2, 3]) c2 = (Ok (), c3)" "receiving 5 f i [0x61] ?cs False [1, 2, 3] c3"
    "c_table c3 = {5}" "fs_dir (c_fs c3) [0x74] = None"
    using deliver_data [OF c2(2), of ex_env_one "[1, 2, 3]" "[1, 2, 3]" never] c2(3,4) by (auto simp: unpacks_def)
  have r3: "?run (UNIV - {5}) c3"
    using client_run_deliver [OF r2 c3(1)] c3(2) by (auto simp: fine_def receiving_def)
  obtain c4 where c4: "deliver ex_env_one never 5 (closeMsg 5 CloseReasonTransferComplete) c3 = (Block, c4)" "stored (c_fs c4) [0x61] = Some [1, 2, 3]"
    using deliver_complete [OF c3(2) e(3)] e(2) c3(3,4) by auto
  obtain S where r4: "?run S c4"
    using client_run_deliver [OF r3 c4(1)] by (auto simp: fine_def)
  have a: "announced (env_sha ex_env_one) {?cs}"
    by (auto simp: announced_def headed_def fileSignature_def ex_env_one_def split: if_splits)
  have "stored (c_fs c4) [0x62] = None"
  proof -
    have "client_run ex_env_one ?R {?cs} (newBConn True (NewDefaultBOptions False) ex_conn (ex_fs Map.empty (\<lambda>_. []))) S c4"
      using r4 by (simp add: ex_client_def)
    from client_keeps_directory [OF this _ _ a] show ?thesis
      by (simp add: e(2) honest_def foreign_def stored_def ex_fs_def)
  qed
  with r4 c4(2) show ?thesis by blast
qed

section \<open>The listing and the log\<close>



text \<open>
  C39. The progress log. When the transmitted bytes only grow, the lines after the first value
  show each new value once: the step of five percent, which the code computes from the first
  value, decides about the first line only. The log ends when the channel is closed.
\<close>

theorem progress_logged:
  assumes "sorted (map snd (p # ps))" and L: "LogProgress name info (\<lambda>_. (p # ps, closed)) = ([lines], res)"
  shows "map ll_transmitted lines = (if snd p > StartOffset info + progressStep (fst p) then remdups_adj (map snd (p # ps))
       else remdups_adj (filter (\<lambda>t. StartOffset info < t) (map snd ps)))
    \<and> res = (if closed then Ok () else Block)"
proof -
  let ?start = "StartOffset info"
  have "map ll_transmitted (currentProgress name 0 q ps) = remdups_adj (filter (\<lambda>t. q < t) (map snd ps))" for q
    using assms(1) by (simp add: currentProgress_sorted)
  moreover have "remdups_adj (map snd (p # ps)) = snd p # remdups_adj (filter (\<lambda>t. snd p < t) (map snd ps))"
    using remdups_adj_above [of "snd p" "map snd ps"] assms(1) by simp
  ultimately have "map ll_transmitted (progressLoop name ?start (p # ps))
      = (if snd p > ?start + progressStep (fst p) then remdups_adj (map snd (p # ps))
         else remdups_adj (filter (\<lambda>t. ?start < t) (map snd ps)))"
    by (simp add: progressLoop_def Let_def progressLine_def split: prod.splits)
  with L show ?thesis by (auto simp: LogProgress_def LogMultipleProgresses_def)
qed

theorem progress_logged_witness:
  "\<exists>lines. LogProgress [0x61] \<lparr>StartOffset = 0, di_Checksum = []\<rparr> (\<lambda>_. ([(1000, 50), (1000, 51), (1000, 51), (1000, 52)], True))
      = ([lines], Ok ()) \<and> map ll_transmitted lines = [51, 52]"
proof -
  have step: "progressStep 1000 = 50"
    by (simp add: progressStep_def rnd_sig_def bitlen.simps round_shift_def Let_def)
  obtain lines res where L: "LogProgress [0x61] \<lparr>StartOffset = 0, di_Checksum = []\<rparr>
      (\<lambda>_. ([(1000, 50), (1000, 51), (1000, 51), (1000, 52)], True)) = ([lines], res)"
    by (simp add: LogProgress_def LogMultipleProgresses_def)
  with progress_logged [OF _ L] step show ?thesis by simp
qed

end
