(* ===== verification/Spec2Isabelle.thy ===== *)
theory Spec2Isabelle
  imports Brft_Properties
begin

text \<open>
  BBRFT, a file transfer over its own reliable transport on UDP (Go). The program has two
  layers. BTP (src/btp) turns datagrams into a byte stream: a connection numbers its packets,
  keeps them in flight until they are acknowledged, retransmits them, limits them by a
  congestion window and puts what it receives back into order. BRFT (src/brft) exchanges
  typed messages over that stream: a client asks for a file, a server answers and sends it in
  chunks, and the client checks its checksum and publishes it. This development models both
  layers.

  Theories and the code they model, in the order they build on each other.
  Prelude: Go errors and outcomes of a call (a value, an error, a wait that the input does not
  end, a panic), parsers over a source of bytes, big-endian bytes.
  Cryptobyte: the third-party builder and string of golang.org/x/crypto/cryptobyte as a record
  of operations; its documented behaviour is the locale cryptobyte_laws, and theorems that
  depend on it have it as a hypothesis. A reference instance shows that the laws can hold.
  Cyberbyte: src/cyberbyte/string.go over any reader; the locales byte_source and
  stream_source are what decoders need of a reader.
  Go_Arith: truncated division, rounding to 24 and 53 significant bits and roots, where the
  code computes in float32 and float64.
  Congestion_Control: src/btp/congestioncontrol, the locales flow_control and
  congestion_window, interpreted on both algorithms.
  Rtt: src/btp/rtt.go. Packet_Number: src/btp/packet_number.go.
  Btp_Messages: src/btp/messages and the decoding half of Conn.recv; btp_wire is the wire format.
  Data_Reader: src/btp/data_reader.go, its invariant and the interleavings of arrivals and reads.
  Btp_Conn: state and operations of src/btp/conn.go and conn_client.go.
  Btp_Stream: Write as chunks and Read as a stream_source. Btp_Handshake: onMessage, Dial and
  src/btp/listener.go. Btp_Run: one pass of the run loop and of the receive loop, teardown, and
  conn_step, which interleaves them with the calls from above.
  Btp_Session: compositions of these operations into a handshake and into a transfer between
  two connections; nothing in it is code of its own. Btp_Rounds: a transfer in rounds, of which
  each has to fit the reorder buffer, to a reader that may have more in its channel.
  Brft_OptHeaders, Brft_Messages: src/brft/messages and readMsg of src/brft/conn.go; brft_wire
  is the wire format. Brft_Stream: the locale stream_codec (one value is read back and exactly
  its bytes are consumed), interpreted on the messages and on the optional headers over
  Conn.Read, and the transfer of messages.
  Brft_File: src/brft/file.go and common/file.go over a model of the calls of package os on one
  directory, where any call may fail; the triples guards P m Q E describe steps under faults.
  Brft_Conn: src/brft/conn.go, stream.go and conf.go, with the connections that Dial and
  ListenAndServe make. Brft_Server, Brft_Client: src/brft/server.go and client.go. The handler of
  a connection is serverPass and clientPass, one message at a time; the goroutine of a stream is
  serverStep and clientStep, one step from a receive to the next; the sender is sendMessages.
  Brft_Steps, Brft_Sending, Brft_Receiving: how these steps run when nothing fails.
  Brft_Link: what these steps need of the layer below, the locale message_link (the next message
  of one side reaches the handler of the other, or the link fails in a way it names), with a link
  that has no transport as an instance. Brft_Download: the composition of the steps into a whole
  download, proved once over any link. Brft_Over_Transport: the link that two connections and a
  network that reorders provide (the locale network, a sublocale of message_link), a schedule on
  which it never fails, and the state after a handshake as its starting point. Brft_Invariants: what the steps keep
  when any call may fail, with the locale step_invariant for the steps both sides share, and all
  runs of a server connection. Brft_Client_Files: what the file operations of a client's streams
  keep of the directory under faults. Brft_Client_Runs: all runs of a client connection.
  Brft_Server_Life: the goroutines of a server connection. The predicate life says what its wait
  group counts and which streams its table holds; safe says that a step from there neither fails
  nor panics; serving are all runs until Close has closed the channels, running the goroutines
  that have not returned, and goroutines their steps after Close, in a given order.
  Brft_Negotiation: a description of the negotiation of options.
  Brft_Transport: the sender and the handlers on top of the transport.
  Cli: src/cli, what the three commands make of their arguments. Logging: the names, the log
  fields, the progress log and the set-up of the loggers (log.go of each package, src/log).
  Main_Program: src/main.go and the compressor of src/brft/compression. Listing: a request for the
  metadata of the directory from the command line to what is printed.
  Brft_Properties: the properties of this layer, and the connections they are applied to.
  This theory: the properties of the transport, of the messages and of the command line. A property
  has an identifier C1 and so on and is followed by concrete inputs on which its hypotheses hold.

  Conventions. A Go method on a pointer is a function that returns the new state. A channel is
  the list of values sent and not yet received; a send that waits for room is the same list
  after the wait, only Push of the data reader, which has a capacity to respect, can return
  Block. What comes from outside is an argument: the clock, results of the sockets, random
  bytes, which ready case a select takes and the iteration order of a map. Go integers of a
  fixed width on the wire are words; int, time and counters are unbounded. Mutexes make each
  modelled method one step; the unsynchronised access of the two loops of a connection to its
  state is modelled as an interleaving of whole passes. Log entries are left out of the
  operations that write them; only the progress log, which is all a user sees, is modelled.

  Loops. The loop of Write is a partial function and write_never_returns shows when it does
  not return; the loops of Read and Next consume what is pending and terminate by its size.
  No fuel is used.

  Windows. The reader's buffer has 50 slots; two numbers within 36 of each other never share a
  slot, also across the wrap-around at 65536, since 36 is 65536 modulo 50. The theorems on
  delivery take any window w with w at most 65536 modulo the number of slots. The sender does
  not keep to such a window in general: the code leaves that to the congestion window, which
  window_never_grows bounds by its initial size.

  Goroutines. A step of a stream's goroutine ends at its next receive; a send on a channel takes
  place when it is done. What ends in Block waits for something the step itself does not bring
  about. server_only_reads, client_keeps_directory and server_goroutines_counted hold for every
  interleaving of such steps, and while any call of the system may fail; the second one has to
  know the names that were asked for and the checksums in the responses. server_close_completes
  needs that a select with two ready cases takes the closed channel in the end, which the
  scheduler of Go makes certain only with probability one; Close, which waits, is the same call
  made again when its wait is over. download_delivers is about one schedule, in which each side reads what the other sent before it goes on;
  dial_and_download states the same for the connections a handshake makes and every order in
  which a network delivers the packets of a round. Packets that are lost are the subject of
  the theorems on retransmission, not of this one.

  Not modelled: the gzip package, whose calls are parameters with the law that a chunk is
  restored; the regular expressions of the standard library beyond the one that is used; the
  logging library, which is given a configuration; the command line library, whose choice of an
  action is an argument; what only prints for debugging; SimpleAIMD, a structure without state or
  methods that nothing uses.
\<close>

section \<open>Concrete connections for the witnesses\<close>

definition ex_options :: ConnOptions where
  "ex_options = NewDefaultOptions\<lparr>CC := NewElasticTcpAlgorithm 3 25\<rparr>"

definition ex_sender :: Conn where
  "ex_sender = (fresh_conn ex_options 4000 \<lparr>gen_next = 65535\<rparr>)\<lparr>isConnOpen := True\<rparr>"

definition ex_receiver :: Conn where
  "ex_receiver = (fresh_conn ex_options 4001 \<lparr>gen_next = 9\<rparr>)\<lparr>isConnOpen := True,
     dataReader := (NewDataReader 100 50)\<lparr>nextSeqNr := 65535\<rparr>\<rparr>"

lemma ex_options_simps [simp]:
  "MaxPacketSize ex_options = 1024" "ReadBufferCap ex_options = 2048" "Version ex_options = ProtocolVersionBTPv1"
  "pipe (CC ex_options) = 0" "cwnd (CC ex_options) = 3" "rtt_max (CC ex_options) = 0" "MaxRetransmits ex_options = 20"
  by (simp_all add: ex_options_def NewDefaultOptions_def NewElasticTcpAlgorithm_def)

lemma ex_sender_simps [simp]:
  "isConnOpen ex_sender" "\<not> chansClosed ex_sender" "txChan ex_sender = []" "wire_out ex_sender = []"
  "Options ex_sender = ex_options" "peekSeq ex_sender = 65535"
  by (simp_all add: ex_sender_def fresh_conn_def Gen_Peek_def)

lemma ex_receiver_simps [simp]:
  "can_receive 36 ex_receiver" "pend (dataReader ex_receiver) = []" "reader_inv 36 (dataReader ex_receiver)"
  "readBuf ex_receiver = []" "nextSeqNr (dataReader ex_receiver) = 65535" "Options ex_receiver = ex_options"
  "unread ex_receiver = []"
proof -
  show inv: "reader_inv 36 (dataReader ex_receiver)"
    by (simp add: ex_receiver_def fresh_conn_def reader_inv_fresh)
  show p: "pend (dataReader ex_receiver) = []"
    by (simp add: ex_receiver_def fresh_conn_def pend_def NewDataReader_def)
  show b: "readBuf ex_receiver = []" by (simp add: ex_receiver_def fresh_conn_def)
  show "unread ex_receiver = []"
    using drain_reorders [OF inv, of "[]"] p b by (simp add: unread_def)
qed (simp_all add: ex_receiver_def fresh_conn_def can_receive_def NewDataReader_def)

section \<open>From one end to the other\<close>

text \<open>
  C1. Messages of the file transfer layer reach the other side. For messages the protocol
  allows, encoding and writing them on an open connection succeeds; and whatever the schedule
  of transmissions and acknowledgements was once the queue is empty, and in whatever order the
  datagrams arrive, \<open>readMsg\<close> on the receiver returns the same messages in the same order and
  nothing is left over. The packets have to fit the window of the reorder buffer.
\<close>

theorem messages_delivered:
  assumes cb: "cryptobyte_laws cb view"
    and ms: "\<forall>m \<in> set ms. msg_ok m"
    and c: "isConnOpen c" "\<not> chansClosed c" "txChan c = []" "0 < MaxPacketSize (Options c)"
    and s: "can_receive w s" "pend (dataReader s) = []" "reader_inv w (dataReader s)" "readBuf s = []"
      "nextSeqNr (dataReader s) = peekSeq c" "unat (MaxPacketSize (Options c)) + 6 \<le> ReadBufferCap (Options s)"
    and fits: "packets_needed (unat (MaxPacketSize (Options c))) (map brft_wire ms) \<le> w"
  shows "\<exists>bs c1. encode_all cb ms = Ok bs \<and> write_all bs c = Some (Ok (), c1) \<and>
    (\<forall>es ds now. txChan (sender_run cb es c1) = [] \<longrightarrow>
       mset (drop (length (wire_out c)) (wire_out (sender_run cb es c1))) = mset ds \<longrightarrow>
       (\<exists>s'. read_many (readMsg Conn_Read) (length ms) (receive_all cb now ds s)
          = (Ok (map (\<lambda>m. (decoded m, headerForMessage m)) ms), s') \<and> unread s' = []))"
proof -
  have enc: "encode_all cb ms = Ok (map brft_wire ms)"
    by (rule cryptobyte_laws.encode_all_wire [OF cb ms])
  have "\<forall>b \<in> set (map brft_wire ms). b \<noteq> []" by (auto simp: brft_wire_def)
  from write_all_queues [OF c(1,2) this c(4)] obtain c1
    where W: "write_all (map brft_wire ms) c = Some (Ok (), c1)" by blast
  with enc show ?thesis
    using cryptobyte_laws.messages_across [OF cb ms enc c W _ _ s fits] by blast
qed

definition ex_messages :: "BRFTMessage list" where
  "ex_messages = [BCloseMsg \<lparr>bc_StreamID = 3, bc_Reason = 1\<rparr>, BMetaReq \<lparr>mq_FileName = [0x61]\<rparr>]"

lemma ex_messages_fit: "packets_needed 1024 (map brft_wire ex_messages) = 2"
  by (simp add: ex_messages_def packets_needed_def brft_wire_def name_wire_def)

theorem messages_delivered_witness:
  "\<exists>bs c1. encode_all ref_cb ex_messages = Ok bs \<and> write_all bs ex_sender = Some (Ok (), c1) \<and>
    (\<exists>es. txChan (sender_run ref_cb es c1) = [] \<and>
      (\<exists>s'. read_many (readMsg Conn_Read) 2 (receive_all ref_cb 0 (rev (wire_out (sender_run ref_cb es c1))) ex_receiver)
        = (Ok (map (\<lambda>m. (m, headerForMessage m)) ex_messages), s')))"
proof -
  have ok: "\<forall>m \<in> set ex_messages. msg_ok m" and d: "map (\<lambda>m. (decoded m, headerForMessage m)) ex_messages
      = map (\<lambda>m. (m, headerForMessage m)) ex_messages" and l: "length ex_messages = 2"
    by (simp_all add: ex_messages_def)
  have bs: "encode_all ref_cb ex_messages = Ok (map brft_wire ex_messages)"
    by (rule ref.encode_all_wire [OF ok])
  have fit: "packets_needed (unat (MaxPacketSize (Options ex_sender))) (map brft_wire ex_messages) \<le> 36"
    by (simp add: ex_messages_fit)
  have "\<exists>bs c1. encode_all ref_cb ex_messages = Ok bs \<and> write_all bs ex_sender = Some (Ok (), c1) \<and>
      (\<forall>es ds now. txChan (sender_run ref_cb es c1) = [] \<longrightarrow>
         mset (drop (length (wire_out ex_sender)) (wire_out (sender_run ref_cb es c1))) = mset ds \<longrightarrow>
         (\<exists>s'. read_many (readMsg Conn_Read) (length ex_messages) (receive_all ref_cb now ds ex_receiver)
            = (Ok (map (\<lambda>m. (decoded m, headerForMessage m)) ex_messages), s') \<and> unread s' = []))"
    by (rule messages_delivered [OF cryptobyte_laws_ref ok, where w = 36]) (use fit in simp_all)
  then obtain bs' c1 where W': "encode_all ref_cb ex_messages = Ok bs'" "write_all bs' ex_sender = Some (Ok (), c1)"
    and go': "\<And>es ds now. txChan (sender_run ref_cb es c1) = [] \<Longrightarrow>
         mset (drop (length (wire_out ex_sender)) (wire_out (sender_run ref_cb es c1))) = mset ds \<Longrightarrow>
         (\<exists>s'. read_many (readMsg Conn_Read) (length ex_messages) (receive_all ref_cb now ds ex_receiver)
            = (Ok (map (\<lambda>m. (decoded m, headerForMessage m)) ex_messages), s') \<and> unread s' = [])"
    by blast
  have W: "write_all (map brft_wire ex_messages) ex_sender = Some (Ok (), c1)"
    using W' bs by simp
  have "\<forall>b \<in> set (map brft_wire ex_messages). b \<noteq> []" by (auto simp: brft_wire_def)
  from write_all_queues [of ex_sender, OF _ _ this] W obtain cs
    where c1: "c1 = ex_sender\<lparr>txChan := map (\<lambda>b. MData (NewData b)) cs\<rparr>" "\<forall>x \<in> set cs. length x \<le> 1024"
    by auto
  then have "\<forall>m \<in> set (txChan c1). isAckElicitingPacket m \<and> payload_fits m"
    by (fastforce simp: isAckElicitingPacket_def NewData_def btp_types)
  then obtain es where "txChan (sender_run ref_cb es c1) = []"
    using ref.sender_finishes [of c1] c1(1) by auto
  with go' [OF this, of "rev (wire_out (sender_run ref_cb es c1))" 0] W bs d l show ?thesis
    by (intro exI [of _ "map brft_wire ex_messages"] exI [of _ c1]) (auto intro!: exI [of _ es])
qed









text \<open>
  C8. The handshake of \<open>Dial\<close> and \<open>Accept\<close> over a network that delivers: both ends are open, each
  expects the sequence number the other sends next, the client has moved to the server's new
  port, no handshake packet is left in flight, and the client uses the minimum of the two
  sides' window and packet sizes. The server keeps its own options.
\<close>

theorem handshake_agrees:
  assumes cb: "cryptobyte_laws cb view"
    and v: "Version optsC = ProtocolVersionBTPv1" "Version optsS = ProtocolVersionBTPv1"
    and cap: "12 \<le> ReadBufferCap optsC" "4 \<le> ReadBufferCap optsS"
    and free: "pipe (CC optsC) < cwnd (CC optsC)"
  shows "\<exists>c s. handshake cb now (Ok b1) (Ok b2) lport cport mport optsC optsS = Ok (c, s)
    \<and> isConnOpen c \<and> isConnOpen s \<and> nextSeqNr (dataReader c) = peekSeq s
    \<and> nextSeqNr (dataReader s) = peekSeq c \<and> remotePort c = mport \<and> remotePort s = cport
    \<and> dom (inflightPackets c) = {} \<and> dom (inflightPackets s) = {}
    \<and> InitCwndSize (Options c) = min (InitCwndSize optsC) (InitCwndSize optsS)
    \<and> MaxCwndSize (Options c) = min (MaxCwndSize optsC) (MaxCwndSize optsS)
    \<and> MaxPacketSize (Options c) = min (MaxPacketSize optsC) (MaxPacketSize optsS)
    \<and> Options s = ConnOptions_Clone optsS"
  using cryptobyte_laws.handshake_synchronised [OF cb v cap free, of now b1 b2 lport cport mport] by blast

theorem handshake_agrees_witness:
  "\<exists>c s. handshake ref_cb 0 (Ok (255, 255)) (Ok (1, 2)) 1337 5000 6000 ex_options (NewDefaultOptions\<lparr>MaxPacketSize := 512\<rparr>) = Ok (c, s)
    \<and> isConnOpen c \<and> isConnOpen s \<and> nextSeqNr (dataReader c) = peekSeq s
    \<and> nextSeqNr (dataReader s) = peekSeq c \<and> MaxPacketSize (Options c) = 512"
  using handshake_agrees [OF cryptobyte_laws_ref, where optsC = ex_options and optsS = "NewDefaultOptions\<lparr>MaxPacketSize := 512\<rparr>"
      and ?b1.0 = "(255, 255)" and ?b2.0 = "(1, 2)" and now = 0 and lport = 1337 and cport = 5000 and mport = 6000]
  by (auto simp: NewDefaultOptions_def)

section \<open>Data in order\<close>

text \<open>
  C9. In every interleaving of arrivals and reads in which each packet arrives once and not
  further ahead than the window, \<open>Next\<close> has returned the packets with consecutive numbers
  from the first one on, and every packet that arrived was returned or is still held.
\<close>

theorem delivered_in_order:
  assumes "0 < L" and "W \<le> 2 ^ 16 mod L"
    and "(reader_step W)\<^sup>*\<^sup>* ((NewDataReader capacity L)\<lparr>nextSeqNr := n0\<rparr>, [], []) (s, arr, out)"
  shows "map seqOf out = seqs n0 (length out) \<and> nextSeqNr s = n0 + of_nat (length out)
    \<and> mset arr = mset out + mset (pend s)"
proof -
  have "reader_conf_inv W n0 ((NewDataReader capacity L)\<lparr>nextSeqNr := n0\<rparr>, [], [])"
    using reader_inv_fresh [OF assms(1,2), of n0 capacity]
    by (simp add: reader_conf_inv_def) (simp add: pend_def NewDataReader_def)
  from reader_run_inv [OF assms(3) this] show ?thesis by (simp add: reader_conf_inv_def)
qed

definition ex_packet :: "u16 \<Rightarrow> MsgData" where
  "ex_packet n = data_msg n [1]"

lemma ex_reader_run:
  "(reader_step 36)\<^sup>*\<^sup>* ((NewDataReader 100 50)\<lparr>nextSeqNr := 65535\<rparr>, [], [])
    ((NewDataReader 100 50)\<lparr>nextSeqNr := 1, rd_buf := (replicate 50 None)[0 := None]\<rparr>,
     [ex_packet 0, ex_packet 65535], [ex_packet 65535, ex_packet 0])"
proof -
  let ?r = "(NewDataReader 100 50)\<lparr>nextSeqNr := 65535\<rparr>"
  let ?r1 = "?r\<lparr>dataChan := [Some (ex_packet 0)]\<rparr>"
  let ?r2 = "?r\<lparr>dataChan := [Some (ex_packet 0), Some (ex_packet 65535)]\<rparr>"
  let ?r3 = "?r\<lparr>nextSeqNr := 0, rd_buf := (replicate 50 None)[0 := Some (ex_packet 0)]\<rparr>"
  let ?r4 = "(NewDataReader 100 50)\<lparr>nextSeqNr := 1, rd_buf := (replicate 50 None)[0 := None]\<rparr>"
  have 1: "reader_step 36 (?r, [], []) (?r1, [] @ [ex_packet 0], [])"
    by (rule reader_step.arrive) (simp_all add: ex_packet_def pend_def NewDataReader_def Push_def)
  have 2: "reader_step 36 (?r1, [ex_packet 0], []) (?r2, [ex_packet 0] @ [ex_packet 65535], [])"
    by (rule reader_step.arrive) (simp_all add: ex_packet_def pend_def NewDataReader_def Push_def)
  have 3: "reader_step 36 (?r2, [ex_packet 0, ex_packet 65535], []) (?r3, [ex_packet 0, ex_packet 65535], [] @ [ex_packet 65535])"
    by (rule reader_step.consume) (simp add: ex_packet_def NewDataReader_def Next_def slot_def Let_def)
  have 4: "reader_step 36 (?r3, [ex_packet 0, ex_packet 65535], [ex_packet 65535])
      (?r4, [ex_packet 0, ex_packet 65535], [ex_packet 65535] @ [ex_packet 0])"
    by (rule reader_step.consume) (simp add: ex_packet_def NewDataReader_def Next_def slot_def Let_def)
  from 1 2 3 4 show ?thesis
    by (auto intro: converse_rtranclp_into_rtranclp)
qed

theorem delivered_in_order_witness:
  "map seqOf [ex_packet 65535, ex_packet 0] = [65535, 0]"
  using delivered_in_order [OF _ _ ex_reader_run] by simp

text \<open>
  C11. \<open>Next\<close> returns the packet with the number it waits for whenever that packet is in the
  channel or the buffer. Otherwise it waits, or reports the end of a closed channel, and keeps
  every packet.
\<close>

theorem next_returns:
  assumes "reader_inv W s" and "Next s = (res, s')"
  shows "(nextSeqNr s \<in> seqOf ` set (pend s) \<longrightarrow> (\<exists>d. res = Ok d \<and> seqOf d = nextSeqNr s
        \<and> mset (pend s) = add_mset d (mset (pend s')) \<and> nextSeqNr s' = nextSeqNr s + 1))
    \<and> (nextSeqNr s \<notin> seqOf ` set (pend s) \<longrightarrow> res = (if chanClosed s then Err EOF else Block)
        \<and> mset (pend s') = mset (pend s) \<and> nextSeqNr s' = nextSeqNr s)
    \<and> reader_inv W s'"
  using Next_correct [OF assms] by (auto simp: next_found_def next_missing_def split: if_splits)

theorem next_returns_witness:
  "fst (Next ((NewDataReader 100 50)\<lparr>nextSeqNr := 7\<rparr>)) = Block
    \<and> reader_inv 36 (snd (Next ((NewDataReader 100 50)\<lparr>nextSeqNr := 7\<rparr>)))"
  using next_returns [OF reader_inv_fresh [of 50 36 7 100] prod.collapse [symmetric]]
  by (simp add: pend_def NewDataReader_def)

text \<open>
  C12. The reader does not compare the number of the packet in a slot with the number it waits
  for. A packet that arrives a second time after its delivery is buffered, and 49 reads
  later it is handed out again, in place of the packet whose number is 50 higher.
\<close>

theorem duplicate_redelivered:
  fixes n :: u16
  assumes "unat n + 50 < 2 ^ 16"
  shows "fst (take_data 50 ((NewDataReader 100 50)\<lparr>nextSeqNr := n + 1,
      dataChan := Some (data_msg n b) # map Some (map (\<lambda>i. data_msg i b') (seqs (n + 1) 50))\<rparr>))
    = map (\<lambda>i. data_msg i b') (seqs (n + 1) 49) @ [data_msg n b]"
  by (rule take_data_duplicate [OF assms]) simp_all

theorem duplicate_redelivered_witness:
  "last (fst (take_data 50 ((NewDataReader 100 50)\<lparr>nextSeqNr := 8,
      dataChan := Some (data_msg 7 [9]) # map Some (map (\<lambda>i. data_msg i [5]) (seqs 8 50))\<rparr>)))
    = data_msg 7 [9]"
  using duplicate_redelivered [of 7 "[9]" "[5]"] by simp

section \<open>What is in flight\<close>

text \<open>
  C13. In every interleaving of the run loop, the receive loop and the calls of the layer above,
  the packets in flight are counted in the pipe, and the pipe exceeds the initial window only
  by the calls of \<open>Close\<close>, which transmits without asking; the window itself never closes and
  never exceeds its initial size.
\<close>

theorem inflight_bounded:
  assumes "newConn rnd rport opts = Ok c0" and "1 \<le> cwnd (CC opts)" and "pipe (CC opts) = 0"
    and "rtt_max (CC opts) = 0" and "(conn_step cb)\<^sup>*\<^sup>* (newRunLoop, c0, 0) (r, c, k)"
  shows "int (card (dom (inflightPackets c))) \<le> pipe (cc_of c) \<and> pipe (cc_of c) \<le> cwnd (CC opts) + k
    \<and> 1 \<le> cwnd (cc_of c) \<and> cwnd (cc_of c) \<le> cwnd (CC opts)"
  using conn_run_ok [OF assms(5) newConn_ok [OF assms(1-4)]]
  by (simp add: conn_conf_ok_def conn_ok_def flight_ok_def)

theorem inflight_bounded_witness:
  "\<exists>r c. (conn_step ref_cb)\<^sup>*\<^sup>* (newRunLoop, fresh_conn ex_options 1 \<lparr>gen_next = 513\<rparr>, 0) (r, c, 1)
    \<and> int (card (dom (inflightPackets c))) \<le> pipe (cc_of c) \<and> pipe (cc_of c) \<le> 4 \<and> 1 \<le> cwnd (cc_of c)"
proof -
  let ?c = "fresh_conn ex_options 1 \<lparr>gen_next = 513\<rparr>"
  have new: "newConn (Ok (1, 2)) 1 ex_options = Ok ?c"
    by (simp add: newConn_def NewRandomNumberGenerator_def seedSeqNumber_def fresh_conn_def)
  obtain x c where x: "closeWith ref_cb full_write 0 1 ?c = (x, c)" by fastforce
  from conn_step.call_close [OF this, of newRunLoop 0]
  have "(conn_step ref_cb)\<^sup>*\<^sup>* (newRunLoop, ?c, 0) (newRunLoop, c, 1)" by simp
  with inflight_bounded [OF new _ _ _ this] show ?thesis by auto
qed

text \<open>
  C17. In the same runs, every packet in flight has been retransmitted at most
  \<open>MaxRetransmits\<close> times and has a timeout of at least 400 milliseconds, the smoothed RTT and
  its variation are never negative, the minimum RTT stays at its initial 0 and so does the
  maximum RTT of the congestion control.
\<close>

theorem timing_bounded:
  assumes "newConn rnd rport opts = Ok c0" and "1 \<le> cwnd (CC opts)" and "pipe (CC opts) = 0"
    and "rtt_max (CC opts) = 0" and "(conn_step cb)\<^sup>*\<^sup>* (newRunLoop, c0, 0) (r, c, k)"
    and "inflightPackets c n = Some p"
  shows "retransmits p \<le> MaxRetransmits (Options c) \<and> 400 * 1000000 \<le> rtoDuration p
    \<and> 0 \<le> RTT_SRTT (rttMeasurement c) \<and> 0 \<le> RTT_RTTVar (rttMeasurement c)
    \<and> RTT_Min (rttMeasurement c) = 0 \<and> rtt_max (cc_of c) = 0"
  using conn_run_ok [OF assms(5) newConn_ok [OF assms(1-4)]] ranI [of "inflightPackets c", OF assms(6)]
  by (simp add: conn_conf_ok_def conn_ok_def timing_ok_def rtt_ok_def RTT_SRTT_def RTT_RTTVar_def RTT_Min_def)

theorem timing_bounded_witness:
  "\<exists>r c p. (conn_step ref_cb)\<^sup>*\<^sup>* (newRunLoop, fresh_conn ex_options 1 \<lparr>gen_next = 513\<rparr>, 0) (r, c, 1)
    \<and> inflightPackets c 513 = Some p \<and> 400 * 1000000 \<le> rtoDuration p"
proof -
  let ?c = "fresh_conn ex_options 1 \<lparr>gen_next = 513\<rparr>"
  have new: "newConn (Ok (1, 2)) 1 ex_options = Ok ?c"
    by (simp add: newConn_def NewRandomNumberGenerator_def seedSeqNumber_def fresh_conn_def)
  obtain x c where x: "closeWith ref_cb full_write 0 1 ?c = (x, c)" by fastforce
  have "isAckElicitingPacket (closeMessage 1 ?c)" "payload_fits (closeMessage 1 ?c)"
    by (simp_all add: isAckElicitingPacket_def closeMessage_def btp_types)
  from ref.transmit_full [OF this] x obtain p where p: "inflightPackets c 513 = Some p"
    by (auto simp: closeWith_def sent_state_def fresh_conn_def Gen_Peek_def split: if_splits)
  from conn_step.call_close [OF x, of newRunLoop 0]
  have run: "(conn_step ref_cb)\<^sup>*\<^sup>* (newRunLoop, ?c, 0) (newRunLoop, c, 1)" by simp
  with timing_bounded [OF new _ _ _ run p] p show ?thesis by auto
qed




text \<open>
  One look at the packets in flight that ends without an error: packets within their
  timeout are as before, an overdue packet has been sent again, with the time of this look
  and one more retransmission, which is still allowed.
\<close>

lemma retransmission_pass:
  assumes "proccessRetransmission wr now ks c = (Ok (), c')" and "inflightPackets c k = Some p"
    and "0 \<le> rtoDuration p" and "k \<in> set ks"
  shows "inflightPackets c' k = Some (if now - transmissionTime p \<le> rtoDuration p then p
      else p\<lparr>transmissionTime := now, retransmits := retransmits p + 1\<rparr>)
    \<and> (rtoDuration p < now - transmissionTime p \<longrightarrow> retransmits p + 1 \<le> MaxRetransmits (Options c))"
  using proccessRetransmission_keeps [OF assms(1,2)] proccessRetransmission_resends [OF assms(1,2) _ assms(4,3)]
  by auto

section \<open>Writing and reading\<close>

text \<open>
  C19. \<open>Write\<close> on an open connection queues data messages whose payloads are the argument in
  order, all of the maximal packet size but the last, which is shorter: a multiple of the
  packet size is followed by an empty message. The returned count is the size of that last
  message with its headers.
\<close>

theorem write_splits:
  assumes "isConnOpen c" and "\<not> chansClosed c" and "b \<noteq> []" and "0 < MaxPacketSize (Options c)"
  shows "\<exists>cs. Conn_Write b c = Some (Ok (6 + length (last cs)), c\<lparr>txChan := txChan c @ map (\<lambda>b. MData (NewData b)) cs\<rparr>)
    \<and> concat cs = b \<and> (\<forall>x \<in> set (butlast cs). length x = unat (MaxPacketSize (Options c)))
    \<and> length (last cs) < unat (MaxPacketSize (Options c))
    \<and> length cs = length b div unat (MaxPacketSize (Options c)) + 1"
  using Conn_Write_queues [OF assms] by (auto simp: chunk_list_def btp_sizes NewData_def)

theorem write_splits_witness:
  "\<exists>cs. Conn_Write (replicate 1024 0) ex_sender = Some (Ok 6, ex_sender\<lparr>txChan := map (\<lambda>b. MData (NewData b)) cs\<rparr>)
    \<and> concat cs = replicate 1024 0 \<and> length cs = 2"
proof -
  have "replicate 1024 (0 :: byte) \<noteq> []" by simp
  from write_splits [of ex_sender, OF _ _ this] obtain cs where
    cs: "Conn_Write (replicate 1024 0) ex_sender = Some (Ok (6 + length (last cs)), ex_sender\<lparr>txChan := map (\<lambda>b. MData (NewData b)) cs\<rparr>)"
      "concat cs = replicate 1024 0" "\<forall>x \<in> set (butlast cs). length x = 1024" "length cs = 2" by auto
  then obtain x y where xy: "cs = [x, y]" by (auto simp: numeral_2_eq_2 length_Suc_conv)
  have "length (concat cs) = 1024" using cs(2) by simp
  with xy cs(3) have "length x + length y = 1024" "length x = 1024" by simp_all
  then have "length (last cs) = 0" using xy by simp
  with cs(1,2,4) show ?thesis by (metis add_0_right)
qed



text \<open>
  \<open>Read\<close> with a buffer of \<open>n\<close> bytes returns exactly the next \<open>n\<close> bytes of the stream when
  they are there, from the buffer and as many packets as it takes, and loses none of the rest.
\<close>

lemma read_exact:
  assumes "n \<le> length (unread c)"
  shows "\<exists>c'. Conn_Read c n = (Ok (take n (unread c)), c') \<and> unread c' = drop n (unread c)"
  using assms conn_reader.read_pos [of n c] conn_reader.read_zero [of c] by (cases "n = 0") auto

lemma read_exact_example:
  "\<exists>c'. Conn_Read (ex_receiver\<lparr>readBuf := [1, 2, 3]\<rparr>) 2 = (Ok [1, 2], c') \<and> unread c' = [3]"
proof -
  have "unread (ex_receiver\<lparr>readBuf := [1, 2, 3]\<rparr>) = [1, 2, 3]"
    using ex_receiver_simps(4,7) by (simp add: unread_def)
  with read_exact [of 2 "ex_receiver\<lparr>readBuf := [1, 2, 3]\<rparr>"] show ?thesis by simp
qed

text \<open>
  C25. After \<open>teardown\<close>: a \<open>Read\<close> of more bytes than are left returns \<open>io.EOF\<close> instead of waiting,
  and a \<open>Write\<close> panics, because nothing marks the connection as not open any more.
\<close>

theorem after_teardown:
  assumes "teardown c = (Ok (), c')" and "rd_buf (dataReader c) \<noteq> []"
  shows "(length (unread c') < n \<longrightarrow> fst (Conn_Read c' n) = Err EOF)
    \<and> (isConnOpen c \<and> b \<noteq> [] \<and> 0 < MaxPacketSize (Options c) \<longrightarrow>
        Conn_Write b c' = Some (Panic ''send on closed channel'', c'))"
proof -
  from assms(1) have c': "chanClosed (dataReader c')" "rd_buf (dataReader c') = rd_buf (dataReader c)"
      "chansClosed c'" "isConnOpen c' = isConnOpen c" "Options c' = Options c"
    by (auto simp: teardown_def Reader_Close_def split: if_splits)
  have "fst (Conn_Read c' n) = Err EOF" if less: "length (unread c') < n"
  proof -
    obtain b' s' where "fillBuf n (readBuf c') (dataReader c') = (Err EOF, b', s')"
      using fillBuf_closed [OF c'(1), of "readBuf c'" n] c'(2) less assms(2) by (auto simp: unread_def)
    then show ?thesis by (simp add: Conn_Read_def)
  qed
  moreover have "Conn_Write b c' = Some (Panic ''send on closed channel'', c')"
    if prems: "isConnOpen c" "b \<noteq> []" "0 < MaxPacketSize (Options c)"
  proof -
    have "0 < unat (MaxPacketSize (Options c))" using prems(3) by (simp add: unat_gt_0)
    from write_loop_chunks [OF this, of b "[]"] obtain cs
      where cs: "write_loop (unat (MaxPacketSize (Options c))) b [] = Some cs" "chunk_list (unat (MaxPacketSize (Options c))) cs"
      by auto
    then obtain x xs where "cs = x # xs" by (cases cs) (auto simp: chunk_list_def)
    then have "send_all cs c' = (Panic ''send on closed channel'', c')"
      using c'(3) by (cases xs) (simp_all add: send_def)
    with prems cs c' show ?thesis by (simp add: Conn_Write_def)
  qed
  ultimately show ?thesis by blast
qed

theorem after_teardown_witness:
  "\<exists>c'. teardown ex_receiver = (Ok (), c') \<and> Conn_Write [7] c' = Some (Panic ''send on closed channel'', c')"
proof -
  obtain c' where t: "teardown ex_receiver = (Ok (), c')" and "rd_buf (dataReader ex_receiver) \<noteq> []"
    by (simp add: teardown_def Reader_Close_def ex_receiver_def fresh_conn_def NewDataReader_def)
  from after_teardown [OF this, where n = 0 and b = "[7]"] t show ?thesis
    by (auto simp: ex_receiver_def fresh_conn_def)
qed

section \<open>Packets and messages on the wire\<close>

text \<open>
  C26. A packet the code builds is marshalled within the size computed for it, and the
  datagram, read into the receive buffer it fits, is decoded to the same packet, up to the
  reserved flags, which are not parsed.
\<close>

theorem packet_roundtrip:
  assumes "cryptobyte_laws cb view" and "sendable m" and "length (btp_wire m) \<le> ReadBufferCap (Options c)"
  shows "\<exists>d. Marshal cb m = Ok d \<and> length d \<le> Size m \<and> recv cb (Ok d) c = Ok (received m)"
proof -
  have "length (btp_wire m) \<le> Size m" by (cases m) (simp_all add: length_btp_wire)
  with cryptobyte_laws.Marshal_wire [OF assms(1)] cryptobyte_laws.recv_wire [OF assms] assms(2)
  show ?thesis by (auto simp: sendable_def)
qed

theorem packet_roundtrip_witness:
  "\<exists>d. Marshal ref_cb (MData (data_msg 7 [1, 2])) = Ok d \<and> length d \<le> 8 \<and> recv ref_cb (Ok d) ex_receiver = Ok (MData (data_msg 7 [1, 2]))"
  using packet_roundtrip [OF cryptobyte_laws_ref, of "MData (data_msg 7 [1, 2])" ex_receiver]
  by (simp add: sendable_def data_msg_def zeroHeader_def length_btp_wire btp_sizes)

text \<open>
  C27. \<open>Marshal\<close> on every packet: its wire format, unless it is a data packet with a payload of
  more than 65535 bytes, which is an error.
\<close>

theorem marshal_total:
  assumes "cryptobyte_laws cb view"
  shows "Marshal cb m = (case m of
      MData p \<Rightarrow> if length (Payload p) > 65535 then Err (EncodeError ''payload too large'') else Ok (btp_wire m)
    | _ \<Rightarrow> Ok (btp_wire m))"
  using cryptobyte_laws.Marshal_wire [OF assms, of m] cryptobyte_laws.Marshal_too_large [OF assms, of m]
  by (cases m) auto

theorem marshal_total_witness:
  "Marshal ref_cb (MData (data_msg 7 (replicate 65536 0))) = Err (EncodeError ''payload too large'')
    \<and> Marshal ref_cb (ackIn 258) = Ok [0x43, 1, 2, 0]"
  using marshal_total [OF cryptobyte_laws_ref, of "MData (data_msg 7 (replicate 65536 0))"]
    marshal_total [OF cryptobyte_laws_ref, of "ackIn 258"]
  by (simp add: ackIn_def btp_wire_def header_wire_def zeroHeader_def btp_consts be16_def)

text \<open>
  C29. A file transfer message the protocol allows is encoded within the capacity computed for
  it, and \<open>readMsg\<close> on a connection whose stream continues with these bytes returns the message
  and leaves the rest of the stream.
\<close>

theorem message_roundtrip:
  assumes "cryptobyte_laws cb view" and "msg_ok m"
  shows "\<exists>bs. BEncode cb m = Ok bs \<and> (\<forall>c rest. unread c = bs @ rest \<longrightarrow>
    (\<exists>c'. readMsg Conn_Read c = (Ok (decoded m, headerForMessage m), c') \<and> unread c' = rest))"
  using cryptobyte_laws.BEncode_wire [OF assms] parsesD [OF brft_stream.dec_enc [OF assms(2)]] by blast

lemma unread_with_buf: "unread (ex_receiver\<lparr>readBuf := bs\<rparr>) = bs"
  using ex_receiver_simps(4,7) by (simp add: unread_def)

theorem message_roundtrip_witness:
  "\<exists>bs c'. BEncode ref_cb (BCloseMsg \<lparr>bc_StreamID = 3, bc_Reason = 1\<rparr>) = Ok bs
    \<and> readMsg Conn_Read (ex_receiver\<lparr>readBuf := bs @ [9]\<rparr>) = (Ok (BCloseMsg \<lparr>bc_StreamID = 3, bc_Reason = 1\<rparr>,
       headerForMessage (BCloseMsg \<lparr>bc_StreamID = 3, bc_Reason = 1\<rparr>)), c') \<and> unread c' = [9]"
  using message_roundtrip [OF cryptobyte_laws_ref, of "BCloseMsg \<lparr>bc_StreamID = 3, bc_Reason = 1\<rparr>"] unread_with_buf
  by (metis decoded.simps(5) msg_ok.simps(5))

text \<open>
  The stream of messages splits in one way: if the encodings of two sequences of allowed
  messages of the same length continue to the same bytes, the receiver sees the same messages
  and the same rest.
\<close>

lemma stream_splits_once:
  assumes "\<forall>m \<in> set ms. msg_ok m" and "\<forall>m \<in> set ms'. msg_ok m" and "length ms = length ms'"
    and "concat (map brft_wire ms) @ xs = concat (map brft_wire ms') @ ys"
  shows "map decoded ms = map decoded ms' \<and> xs = ys"
proof -
  have d: "map decoded ms = map fst (map (\<lambda>m. (decoded m, headerForMessage m)) ms)" for ms by simp
  from brft_stream.stream_unique [OF assms] show ?thesis unfolding d by simp
qed

definition ex_request :: "byte list \<Rightarrow> BRFTMessage" where
  "ex_request checksum = BFileReq \<lparr>fq_StreamID = 1, fq_Flags = [], fq_OptHeaders = [NewCompressionReqOptionalHeader 1 0],
     fq_FileName = [0x61], fq_Checksum = checksum\<rparr>"

lemma ex_request_ok: "msg_ok (ex_request [])" "msg_ok (ex_request (replicate 32 0))"
  by (simp_all add: ex_request_def opts_ok_def NewCompressionReqOptionalHeader_def ChecksumSize_def)

lemma stream_splits_once_example:
  "map decoded [ex_request []] = map decoded [ex_request (replicate 32 0)]"
proof -
  have "concat (map brft_wire [ex_request []]) @ [] = concat (map brft_wire [ex_request (replicate 32 0)]) @ []"
    by (simp add: ex_request_def brft_wire_def header_byte_def sent_checksum_def ChecksumSize_def)
  from stream_splits_once [OF _ _ _ this] ex_request_ok show ?thesis by simp
qed

text \<open>
  C31. The optional headers the protocol knows are read back as they were written, whatever
  follows them in the stream.
\<close>

theorem optional_headers_roundtrip:
  assumes "cryptobyte_laws cb view" and "opts_ok hs" and "unread c = opts_wire hs @ rest"
  shows "marshalOptionalHeaders cb hs = Ok (opts_wire hs)
    \<and> (\<exists>c'. readOptionalHeaders Conn_Read c = (Ok hs, c') \<and> unread c' = rest)"
  using cryptobyte_laws.marshalOptionalHeaders_wire [OF assms(1,2)]
    parsesD [OF opts_stream.dec_enc [OF assms(2)] assms(3)] by blast

theorem optional_headers_roundtrip_witness:
  "\<exists>c'. readOptionalHeaders Conn_Read (ex_receiver\<lparr>readBuf := [1, 3, 1, 1, 9, 77]\<rparr>)
     = (Ok [NewCompressionReqOptionalHeader 1 9], c') \<and> unread c' = [77]"
  using optional_headers_roundtrip [OF cryptobyte_laws_ref, of "[NewCompressionReqOptionalHeader 1 9]"
      "ex_receiver\<lparr>readBuf := [1, 3, 1, 1, 9, 77]\<rparr>" "[77]"] unread_with_buf
  by (simp add: opts_ok_def NewCompressionReqOptionalHeader_def opts_wire_def opt_wire_def base_wire_def opt_consts)

text \<open>
  C32. A header of an unknown type: its decoder takes as many bytes as the length field says,
  although the type byte before them is included in that length, so it takes the first byte
  of what follows; and the header it returns cannot be encoded again.
\<close>

theorem unknown_header_overreads:
  assumes "cryptobyte_laws cb view" and "Type h \<notin> {OptionalHeaderTypeReserved,
      OptionalHeaderTypeCompressionReq, OptionalHeaderTypeCompressionResp}"
    and "0 < Length h" and "length d = unat (Length h) - 1" and "unread c = base_wire h @ d @ x # rest"
  shows "\<exists>c'. bindM (Base_Decode Conn_Read) (readOne Conn_Read) c = (Ok (UnknownOptionalHeader h (d @ [x])), c')
    \<and> unread c' = rest \<and> Opt_Encode cb (UnknownOptionalHeader h (d @ [x])) = Err BuilderError"
proof -
  have "0 < unat (Length h)" using assms(3) by (simp add: unat_gt_0)
  with assms(4) have l: "length (d @ [x]) = unat (Length h)" by simp
  have "parses unread (bindM (Base_Decode Conn_Read) (readOne Conn_Read)) (base_wire h @ (d @ [x]))
      (UnknownOptionalHeader h (d @ [x]))"
    by (rule parses_bind [OF stream_source.parses_base stream_source.parses_unknown])
      (use l assms(2) conn_reader.stream_source_axioms in auto)
  from parsesD [OF this, of c rest] assms(5) cryptobyte_laws.unknown_not_encoded [OF assms(1) l]
  show ?thesis by auto
qed

theorem unknown_header_overreads_witness:
  "\<exists>c'. bindM (Base_Decode Conn_Read) (readOne Conn_Read) (ex_receiver\<lparr>readBuf := [2, 9, 5, 6, 7]\<rparr>)
    = (Ok (UnknownOptionalHeader \<lparr>Length = 2, Type = 9\<rparr> [5, 6]), c') \<and> unread c' = [7]"
  using unknown_header_overreads [OF cryptobyte_laws_ref, of "\<lparr>Length = 2, Type = 9\<rparr>" "[5]"
      "ex_receiver\<lparr>readBuf := [2, 9, 5, 6, 7]\<rparr>" 6 "[7]"] unread_with_buf
  by (auto simp: opt_consts base_wire_def)

text \<open>
  The metadata of any number of files is split into responses of at most 255 items that
  together hold all the items in order, and the client, which stops at the first response with
  fewer than 255 items, takes exactly these responses whatever comes after them.
\<close>

lemma metadata_complete:
  "collectResps (NewMetaResps chkNil is @ later) = Some (NewMetaResps chkNil is)
   \<and> concat (map mr_Items (NewMetaResps chkNil is)) = is
   \<and> (\<forall>r \<in> set (NewMetaResps chkNil is). length (mr_Items r) \<le> 255)"
proof -
  have "\<forall>r \<in> set (NewMetaResps chkNil is). length (mr_Items r) \<le> 255"
    using NewMetaResps_cases [of chkNil "is"] splitItems_sizes [of "is"]
    by (auto simp: MaxMetaItemsNum_def)
  then show ?thesis using collect_NewMetaResps NewMetaResps_items by blast
qed

lemma metadata_complete_example:
  "collectResps (NewMetaResps True [] @ [\<lparr>mr_Items = [], isExtended = True\<rparr>]) = Some [\<lparr>mr_Items = [], isExtended = False\<rparr>]"
  using metadata_complete [of True "[]" "[\<lparr>mr_Items = [], isExtended = True\<rparr>]"]
  by (simp add: NewMetaResps_def splitItems.simps MaxMetaItemsNum_def)

section \<open>Congestion control and numbers\<close>

text \<open>
  C34. The Elastic-TCP window of a connection: the connection makes every call of the interface
  but \<open>CongAvoid\<close>, and without that call the window never exceeds its initial size and never
  closes, whatever is sent, acknowledged, measured or lost.
\<close>

theorem window_never_grows:
  assumes "elastic_run nan xs (NewElasticTcpAlgorithm i m) = Ok e" and "OpAvoid \<notin> set xs" and "1 \<le> i"
  shows "1 \<le> cwnd e \<and> cwnd e \<le> i"
  using elastic_run_window [OF assms(1,2)] assms(3) by (simp add: NewElasticTcpAlgorithm_def)

theorem window_never_grows_witness:
  "\<exists>e. elastic_run 0 [OpSent 1, OpAcks 1, OpRTT 5, OpEvent Loss] (NewElasticTcpAlgorithm 10 25) = Ok e
    \<and> 1 \<le> cwnd e \<and> cwnd e \<le> 10"
proof -
  obtain e where e: "elastic_run 0 [OpSent 1, OpAcks 1, OpRTT 5, OpEvent Loss] (NewElasticTcpAlgorithm 10 25) = Ok e"
    by simp
  from window_never_grows [OF this] e show ?thesis by simp
qed

text \<open>
  \<open>UpdateRTT\<close> stores 0 for the maximum RTT, so in every state that calls of the interface
  reach, \<open>CongAvoid\<close> past the slow start threshold does not change the window.
\<close>

lemma no_growth_past_slow_start:
  assumes "elastic_run nan xs (NewElasticTcpAlgorithm i m) = Ok e"
    and "ssthresh e \<le> cwnd e" and "cwnd e < max_cwnd e" and "CongAvoid nan e = Ok e'"
  shows "e' = e"
proof -
  have "rtt_max e = 0"
    by (rule elastic_run_rtt_max [OF assms(1)]) (simp add: NewElasticTcpAlgorithm_def)
  from CongAvoid_no_growth [OF this assms(3,2,4)] show ?thesis .
qed

text \<open>Under the lock-step algorithm at most one message is in the pipe, whatever acknowledgements come.\<close>

lemma lock_step_one_in_flight:
  "0 \<le> ls_pipe (flow_run LockStep_SentMessages LockStep_ReceivedAcks LockStep_NumFreeSend es NewLockStepAlgorithm)
   \<and> ls_pipe (flow_run LockStep_SentMessages LockStep_ReceivedAcks LockStep_NumFreeSend es NewLockStepAlgorithm) \<le> 1"
proof -
  have "LockStep_window l = 1" for l by (simp add: LockStep_window_def)
  then show ?thesis
    using lock_step.flow_run_bounded [of NewLockStepAlgorithm es] by (simp add: NewLockStepAlgorithm_def)
qed

text \<open>
  C35. The smoothed RTT after a measurement exceeds the larger of the old value and the
  measurement by less than one part in four million, which is the rounding of the \<open>float32\<close>
  arithmetic, and is not negative; the first measurement is taken as it is.
\<close>

theorem smoothed_rtt_bounded:
  assumes "0 \<le> srtt r" and "s \<le> a"
  shows "0 \<le> RTT_SRTT (Update s a r)
    \<and> 2 ^ 22 * RTT_SRTT (Update s a r) \<le> (2 ^ 22 + 1) * max (srtt r) (a - s)
    \<and> (\<not> hasSample r \<longrightarrow> RTT_SRTT (Update s a r) = a - s)"
proof -
  have "2 ^ 22 * weighted 7 1 (srtt r) (a - s) \<le> (2 ^ 22 + 1) * max (srtt r) (a - s)"
    by (rule weighted_le) (use assms in simp_all)
  moreover have "2 ^ 22 * (a - s) \<le> (2 ^ 22 + 1) * max (srtt r) (a - s)"
    using assms by (intro mult_mono) auto
  ultimately show ?thesis
    using assms by (simp add: RTT_SRTT_def Update_def Let_def)
qed

theorem smoothed_rtt_bounded_witness:
  "2 ^ 22 * RTT_SRTT (Update 0 80 (Update 0 100 NewRttMeasurement)) \<le> (2 ^ 22 + 1) * (100 :: int)"
  using smoothed_rtt_bounded [of "Update 0 100 NewRttMeasurement" 0 80]
  by (simp add: Update_def NewRttMeasurement_def Let_def)

text \<open>
  C36. The packet numbers a generator draws are consecutive from its seed and do not repeat
  within 65536 draws.
\<close>

theorem packet_numbers_distinct:
  assumes "NewRandomNumberGenerator (Ok (b0, b1)) = Ok g" and "k \<le> 2 ^ 16"
  shows "draw Gen_Next k g = seqs (Gen_Peek g) k \<and> distinct (draw Gen_Next k g)
    \<and> Gen_Peek g = ucast b0 OR push_bit 8 (ucast b1)"
  using assms gen.draw_seqs gen.draw_distinct
  by (auto simp: NewRandomNumberGenerator_def seedSeqNumber_def Gen_Peek_def)

theorem packet_numbers_distinct_witness:
  "draw Gen_Next 3 \<lparr>gen_next = 65535\<rparr> = [65535, 0, 1]"
proof -
  have "NewRandomNumberGenerator (Ok (255, 255)) = Ok \<lparr>gen_next = 65535\<rparr>"
    by (simp add: NewRandomNumberGenerator_def seedSeqNumber_def)
  from packet_numbers_distinct [OF this, of 3] show ?thesis
    by (simp add: Gen_Peek_def numeral_3_eq_3)
qed

section \<open>Refusals and endings\<close>



text \<open>
  Before the handshake is complete, data and close packets are answered with an error and
  change nothing: they are neither acknowledged nor delivered, and the connection is not closed.
\<close>

lemma not_ready:
  assumes "\<not> isConnOpen c" and "MessageType (GetHeader m) \<in> {MessageTypeData, MessageTypeClose}"
  shows "onMessage now dial m c = (Err ErrConnectionNotReady, c) \<and> Conn_Write b c = Some (Err ErrConnectionNotReady, c)"
  using assms by (auto simp: onMessage_def onData_def onClose_def Conn_Write_def btp_types Let_def)

lemma not_ready_example:
  "onMessage 0 (Ok ()) (MData (data_msg 1 [])) (ex_receiver\<lparr>isConnOpen := False\<rparr>)
     = (Err ErrConnectionNotReady, ex_receiver\<lparr>isConnOpen := False\<rparr>)"
  using not_ready [of "ex_receiver\<lparr>isConnOpen := False\<rparr>" "MData (data_msg 1 [])" 0 "Ok ()"]
  by (simp add: data_msg_def)




text \<open>
  A transmission that the socket refuses takes a place in the pipe but not its number: the
  next packet gets the same number and replaces it in flight, so that two places are taken
  for one packet that can be acknowledged.
\<close>

lemma refused_transmission_leaks:
  assumes "cryptobyte_laws cb view" and "isAckElicitingPacket m1" and "payload_fits m1"
    and "isAckElicitingPacket m2" and "payload_fits m2" and "wr (datagram (peekSeq c) m1) = (k, Some e)"
    and "inflightPackets c = Map.empty"
  shows "\<exists>c1 c2. transmit cb wr now m1 c = (Err e, c1) \<and> peekSeq c1 = peekSeq c \<and> wire_out c1 = wire_out c
    \<and> transmit cb full_write now m2 c1 = (Ok (length (datagram (peekSeq c) m2)), c2)
    \<and> dom (inflightPackets c2) = {peekSeq c} \<and> pipe (cc_of c2) = pipe (cc_of c) + 2"
proof -
  have m: "Marshal cb (SetSeqNr m1 (peekSeq c)) = Ok (datagram (peekSeq c) m1)"
    using cryptobyte_laws.Marshal_wire [OF assms(1)] assms(3) by (simp add: SetSeqNr_def datagram_def)
  then obtain c1 where c1: "transmit cb wr now m1 c = (Err e, c1)" "peekSeq c1 = peekSeq c" "wire_out c1 = wire_out c"
      "dom (inflightPackets c1) = {peekSeq c}" "pipe (cc_of c1) = pipe (cc_of c) + 1"
    using assms(2,6,7) by (simp add: transmit_def Let_def set_CC_def)
  moreover have "transmit cb full_write now m2 c1 = (Ok (length (datagram (peekSeq c1) m2)), sent_state now m2 c1)"
    by (rule cryptobyte_laws.transmit_full [OF assms(1,4,5)])
  moreover have "pipe (cc_of (sent_state now m2 c1)) = pipe (cc_of c1) + 1"
    by (simp add: sent_state_def set_CC_def)
  ultimately show ?thesis by (intro exI [of _ c1] exI [of _ "sent_state now m2 c1"]) simp
qed

text \<open>
  A sender with an open window and nothing in flight can always finish: there is a schedule
  of transmissions and acknowledgements after which its whole queue has been sent.
\<close>

lemma sender_can_finish:
  assumes "cryptobyte_laws cb view" and "isConnOpen c" and "pipe (cc_of c) = 0" and "1 \<le> cwnd (cc_of c)"
    and "\<forall>m \<in> set (txChan c). isAckElicitingPacket m \<and> payload_fits m"
  shows "\<exists>es. txChan (sender_run cb es c) = []"
  by (rule cryptobyte_laws.sender_finishes [OF assms(1,2,5,3,4)])

lemma sender_can_finish_example:
  "\<exists>es. txChan (sender_run ref_cb es (ex_sender\<lparr>txChan := replicate 10 (MData (NewData [1]))\<rparr>)) = []"
  by (rule sender_can_finish [OF cryptobyte_laws_ref])
    (simp_all add: isAckElicitingPacket_def NewData_def btp_types)

section \<open>The command line\<close>

text \<open>
  C40. The command line is read as it was written. Files whose names are not empty and have no
  colon, each with or without the hexadecimal text of a checksum, followed by a directory and an
  address, give the arguments with exactly these files (the last one of a name counts), a zero
  checksum where none was given, and without the test mode, whatever flags there were.
\<close>

theorem download_arguments:
  assumes "ps \<noteq> []" and "list_all file_ok ps"
  shows "ParseArgs (GetFile c (map fileText ps @ [dir, addr])) osArgs = Ok \<lparr>TestMode = False, OperationArgs = OfClient
    \<lparr>ca_Command = FileRequest, ca_DownloadFiles = map_of (rev (map (\<lambda>p. (fst p, checksumOf p)) ps)),
     ca_DownloadDir = dir, ca_ServerAddr = addr, ca_UseCompression = \<not> c\<rparr>\<rparr>"
  using fileAction_texts [OF assms] by (simp add: ParseArgs_def)

theorem download_arguments_witness:
  "ParseArgs (GetFile False [[0x61], [0x2E], [0x62]]) [] = Ok \<lparr>TestMode = False, OperationArgs = OfClient
    \<lparr>ca_Command = FileRequest, ca_DownloadFiles = [[0x61] \<mapsto> replicate 32 0], ca_DownloadDir = [0x2E],
     ca_ServerAddr = [0x62], ca_UseCompression = True\<rparr>\<rparr>"
  using download_arguments [of "[([0x61], None)]" False "[0x2E]" "[0x62]" "[]"]
  by (simp add: file_ok_def fileText_def checksumOf_def noChecksum_def)

end
